(* ===== verification/Prelude.thy ===== *)
theory Prelude
  imports Main "HOL-Library.Word"
begin

text \<open>
  Shared ground of the development: the machine integers of the C code, byte memory as a
  function from 32-bit addresses to bytes, reading and writing runs of bytes in it, and the
  list facts the component theories share.

  The collections:
  \<^item> \<open>mem_simps\<close>: how a read sees through a write;
  \<^item> \<open>frame\<close>: what an operation leaves alone;
  \<^item> \<open>inv_intros\<close>: preservation of the component invariants.
\<close>

unbundle bit_operations_syntax

type_synonym u8 = "8 word"
type_synonym u16 = "16 word"
type_synonym u32 = "32 word"

text \<open>Byte-addressed memory.  Addresses wrap at 4 GB, as 32-bit pointer arithmetic does.\<close>

type_synonym mem = "u32 \<Rightarrow> u8"

text \<open>An output to an I/O port: \<open>outb(data, port)\<close>.\<close>

datatype out_event = Outb u16 u8

named_theorems mem_simps
named_theorems frame
named_theorems inv_intros

section \<open>Characters\<close>

text \<open>A C character constant as the byte it is stored as, and a C string literal.\<close>

abbreviation ch :: "char \<Rightarrow> u8" where
  "ch c \<equiv> of_char c"

abbreviation chars :: "string \<Rightarrow> u8 list" where
  "chars s \<equiv> map of_char s"

section \<open>Runs of bytes in memory\<close>

definition rd :: "mem \<Rightarrow> u32 \<Rightarrow> nat \<Rightarrow> u8 list" where
  "rd m a n = map (\<lambda>i. m (a + of_nat i)) [0..<n]"

text \<open>One byte assignment \<open>*a = x\<close>.\<close>

definition store :: "mem \<Rightarrow> u32 \<Rightarrow> u8 \<Rightarrow> mem" where
  "store m a x = m(a := x)"

lemma store_apply [mem_simps]: "store m a x b = (if b = a then x else m b)"
  by (simp add: store_def)

fun wr :: "mem \<Rightarrow> u32 \<Rightarrow> u8 list \<Rightarrow> mem" where
  "wr m a [] = m"
| "wr m a (x # xs) = wr (store m a x) (a + 1) xs"

lemma length_rd [simp]: "length (rd m a n) = n"
  by (simp add: rd_def)

lemma nth_rd [simp]: "i < n \<Longrightarrow> rd m a n ! i = m (a + of_nat i)"
  by (simp add: rd_def)

lemma rd_0 [simp]: "rd m a 0 = []"
  by (simp add: rd_def)

lemma rd_Suc: "rd m a (Suc n) = m a # rd m (a + 1) n"
  by (rule nth_equalityI) (auto simp: nth_Cons' algebra_simps of_nat_diff split: if_splits)

lemma rd_snoc: "rd m a (Suc n) = rd m a n @ [m (a + of_nat n)]"
  by (simp add: rd_def)

text \<open>Two offsets below \<open>2 ^ 32\<close> from one base are the same address only if they are equal.\<close>

lemma of_nat_u32_eq_iff:
  "i < 2 ^ 32 \<Longrightarrow> j < 2 ^ 32 \<Longrightarrow> (of_nat i = (of_nat j :: u32)) = (i = j)"
  by (simp add: word_of_nat_eq_iff take_bit_nat_eq_self)

lemma unat_of_nat_u32 [simp]: "n < 2 ^ 32 \<Longrightarrow> unat (of_nat n :: u32) = n"
  by (simp add: unat_of_nat)

lemma unat_u32_less [simp]: "unat (x :: u32) < 4294967296"
  using unsigned_less [of x] by simp

lemma unat_u32_le [simp]: "unat (x :: u32) \<le> 4294967296"
  by (rule less_imp_le) (rule unat_u32_less)

lemma unat_pred: "0 < unat x \<Longrightarrow> unat (x - 1 :: u32) = unat x - 1"
  by (rule unat_minus_one) auto

lemma unat_max_u32: "unat (- 1 :: u32) = 4294967295"
  by (simp add: unsigned_minus_1_eq_mask mask_eq_exp_minus_1)

text \<open>An address is \<open>n\<close> bytes past the base exactly when its distance to the base is \<open>n\<close>.\<close>

lemma offset_iff:
  "n < 2 ^ 32 \<Longrightarrow> (b = a + of_nat n) = (unat (b - a :: u32) = n)"
proof -
  assume n: "n < 2 ^ 32"
  have "(b = a + of_nat n) = (b - a = of_nat n)" by (auto simp: diff_eq_eq add.commute)
  also have "\<dots> = (unat (b - a) = n)" using n by (simp add: word_unat_eq_iff)
  finally show ?thesis .
qed

lemma wr_append: "wr m a (xs @ ys) = wr (wr m a xs) (a + of_nat (length xs)) ys"
  by (induction xs arbitrary: m a) (simp_all add: add.assoc)

text \<open>The closed form of a write: inside the run the written bytes, outside the old memory.\<close>

lemma wr_apply [mem_simps]:
  "length xs \<le> 2 ^ 32 \<Longrightarrow>
     wr m a xs b = (if unat (b - a) < length xs then xs ! unat (b - a) else m b)"
proof (induction xs rule: rev_induct)
  case Nil
  then show ?case by simp
next
  case (snoc x xs)
  then have n: "length xs < 2 ^ 32" by simp
  have "wr m a (xs @ [x]) b = (if b = a + of_nat (length xs) then x else wr m a xs b)"
    by (simp add: wr_append store_apply)
  also have "\<dots> = (if unat (b - a) = length xs then x else wr m a xs b)"
    using offset_iff [OF n, of b a] by simp
  finally show ?case using snoc n by (auto simp: nth_append less_Suc_eq)
qed

lemma rd_wr_same: "length xs \<le> 2 ^ 32 \<Longrightarrow> rd (wr m a xs) a (length xs) = xs"
  by (rule nth_equalityI) (simp_all add: wr_apply)

lemma rd_cong: "(\<And>i. i < n \<Longrightarrow> m (a + of_nat i) = m' (a + of_nat i)) \<Longrightarrow> rd m a n = rd m' a n"
  by (simp add: rd_def)

section \<open>Disjoint runs\<close>

text \<open>
  The runs of \<open>n\<close> bytes at \<open>a\<close> and of \<open>k\<close> bytes at \<open>b\<close> do not meet: each starts
  past the end of the other, counted round the 4 GB circle.
\<close>

definition disj :: "u32 \<Rightarrow> nat \<Rightarrow> u32 \<Rightarrow> nat \<Rightarrow> bool" where
  "disj a n b k \<longleftrightarrow> n \<le> unat (b - a) \<and> k \<le> unat (a - b)"

lemma disj_sym: "disj a n b k = disj b k a n"
  by (auto simp: disj_def)

lemma disj_outside:
  assumes "disj a n b k" and "unat (x - a) < n"
  shows "\<not> unat (x - b) < k"
proof -
  define p q where "p = unat (b - a)" and "q = unat (x - a)"
  have pq: "n \<le> p" "q < n" using assms by (simp_all add: disj_def p_def q_def)
  have k: "k \<le> unat (- (b - a))" using assms(1) by (simp add: disj_def)
  have "unat (- (b - a)) = 2 ^ 32 - p"
    using pq unat_sub_if_size [of 0 "b - a"] by (simp add: p_def word_size)
  moreover have "unat (x - b) = q + 2 ^ 32 - p"
    using pq unat_sub_if_size [of "x - a" "b - a"] by (simp add: p_def q_def word_size)
  ultimately show ?thesis using k by simp
qed

lemma rd_wr_disj [mem_simps]:
  assumes "disj a n b (length xs)" and "n \<le> 2 ^ 32" and "length xs \<le> 2 ^ 32"
  shows "rd (wr m b xs) a n = rd m a n"
proof (rule rd_cong)
  fix i assume i: "i < n"
  then have "unat (a + of_nat i - a) < n" using assms(2) by simp
  then have "\<not> unat (a + of_nat i - b) < length xs"
    by (rule disj_outside [OF assms(1)])
  with assms(3) show "wr m b xs (a + of_nat i) = m (a + of_nat i)"
    by (subst wr_apply) simp_all
qed

section \<open>Counting loops on 32-bit indices\<close>

lemma unat_inc: "i < n \<Longrightarrow> unat (i + 1 :: u32) = Suc (unat i)"
  using unat_u32_less [of n]
  by (simp add: word_less_nat_alt unat_word_ariths del: unat_u32_less)

lemma word_loop_measure: "i < n \<Longrightarrow> unat n - unat (i + 1) < unat n - unat (i :: u32)"
  using unat_inc [of i n] by (simp add: word_less_nat_alt)

lemma word_loop_le: "i < n \<Longrightarrow> i + 1 \<le> (n :: u32)"
  using unat_inc [of i n] by (simp add: word_less_nat_alt word_le_nat_alt)

lemma unat_diff_inc: "i < n \<Longrightarrow> unat (n - i :: u32) = Suc (unat (n - (i + 1)))"
  using unat_inc [of i n] word_loop_le [of i n] unat_sub [of i n] unat_sub [of "i + 1" n]
  by (simp add: Suc_diff_Suc word_less_nat_alt word_le_nat_alt)

lemma addr_of_int_iff:
  assumes "0 \<le> k" and "k < 2 ^ 32"
  shows "(b = a + of_int k) = (uint (b - a :: u32) = k)"
proof -
  have "(b = a + of_int k) = (b - a = of_int k)" by (auto simp: diff_eq_eq add.commute)
  also have "\<dots> = (uint (b - a) = k)"
    using assms by (simp add: word_uint_eq_iff uint_word_of_int)
  finally show ?thesis .
qed

lemma uint_addr_of_int [simp]:
  "0 \<le> k \<Longrightarrow> k < 2 ^ 32 \<Longrightarrow> uint (a + of_int k - a :: u32) = k"
  by (metis addr_of_int_iff)

lemma sint_of_int_u32: "- (2 ^ 31) \<le> k \<Longrightarrow> k < 2 ^ 31 \<Longrightarrow> sint (of_int k :: u32) = k"
  by (simp add: int_word_sint)

lemma sint_of_nat_u32: "n < 2 ^ 31 \<Longrightarrow> sint (of_nat n :: u32) = int n"
  using sint_of_int_u32 [of "int n"] by simp

lemma unat_plus_of_nat:
  "unat (a :: u32) + j < 4294967296 \<Longrightarrow> unat (a + of_nat j) = unat a + j"
  by (simp add: unat_word_ariths unat_of_nat)

lemma sint_nonneg_u32:
  assumes "0 \<le> sint (x :: u32)"
  shows "sint x = int (unat x)"
proof -
  have u: "0 \<le> uint x" "uint x < 2 ^ 32" using uint_lt2p [of x] by simp_all
  have e: "sint x = (uint x + 2 ^ 31) mod 2 ^ 32 - 2 ^ 31"
    using int_word_sint [of "uint x", where 'a = 32] by simp
  have "uint x + 2 ^ 31 < 2 ^ 32"
  proof (rule ccontr)
    assume n: "\<not> uint x + 2 ^ 31 < 2 ^ 32"
    have "(uint x + 2 ^ 31) mod 2 ^ 32 = (uint x + 2 ^ 31 - 2 ^ 32) mod 2 ^ 32"
      by (rule minus_mod_self2 [symmetric])
    also have "\<dots> = uint x + 2 ^ 31 - 2 ^ 32" using n u by (intro mod_pos_pos_trivial) simp_all
    finally show False using e assms u by simp
  qed
  then show ?thesis using e u by (simp add: mod_pos_pos_trivial)
qed

section \<open>Bit masks\<close>

lemma and_exp_iff: "k < 32 \<Longrightarrow> (v AND 2 ^ k = (2 ^ k :: u32)) = bit v k"
proof
  assume "k < 32" "v AND 2 ^ k = (2 ^ k :: u32)"
  then have "bit (v AND 2 ^ k) k = bit (2 ^ k :: u32) k" by simp
  with \<open>k < 32\<close> show "bit v k" by (simp add: bit_and_iff bit_exp_iff)
next
  assume "k < 32" "bit v k"
  then show "v AND 2 ^ k = 2 ^ k"
    by (intro bit_eqI) (auto simp: bit_and_iff bit_exp_iff)
qed

lemma bit_if_exp: "bit (if P then 2 ^ j else 0 :: u32) i = (P \<and> i = j \<and> i < 32)"
  by (auto simp: bit_exp_iff)

lemma bit_if_mask:
  "m = 2 ^ j \<Longrightarrow> bit (if P then m else 0 :: u32) i = (P \<and> i = j \<and> i < 32)"
  by (auto simp: bit_exp_iff)

lemma and_mask_iff: "m = 2 ^ k \<Longrightarrow> k < 32 \<Longrightarrow> (v AND m = (m :: u32)) = bit v k"
  using and_exp_iff by simp

end
