(* ===== verification/CLib.thy ===== *)
theory CLib
  imports Prelude
begin

text \<open>
  The string routines of the kernel library, \<^verbatim>\<open>mp3/student-distrib/lib.c\<close>: \<open>strlen\<close>,
  \<open>strrev\<close>, \<open>itoa\<close>, \<open>strncmp\<close>, \<open>strcpy\<close> and \<open>strncpy\<close>, on byte memory.  A routine
  whose loop need not end (no terminating NUL) has an \<open>option\<close> result; \<open>None\<close> is also the
  result of \<open>itoa\<close> where the C code divides by zero or indexes past its digit table.
  Signed loop indices that cannot overflow are \<open>int\<close>.
\<close>

section \<open>NUL-terminated strings\<close>

text \<open>The bytes \<open>xs\<close>, none of them NUL, stand at \<open>s\<close> and are followed by a NUL.\<close>

definition is_cstr :: "mem \<Rightarrow> u32 \<Rightarrow> u8 list \<Rightarrow> bool" where
  "is_cstr m s xs \<longleftrightarrow> length xs < 2 ^ 32 \<and> rd m s (length xs) = xs \<and> 0 \<notin> set xs
     \<and> m (s + of_nat (length xs)) = 0"

partial_function (option) strlen_loop :: "mem \<Rightarrow> u32 \<Rightarrow> u32 \<Rightarrow> u32 option" where
  "strlen_loop m s len =
     (if m (s + len) \<noteq> 0 then strlen_loop m s (len + 1) else Some len)"

definition c_strlen :: "mem \<Rightarrow> u32 \<Rightarrow> u32 option" where
  "c_strlen m s = strlen_loop m s 0"

function strrev_loop :: "mem \<Rightarrow> u32 \<Rightarrow> int \<Rightarrow> int \<Rightarrow> mem" where
  "strrev_loop m s beg fin =
     (if beg < fin then
        (let tmp = m (s + of_int fin);
             m1 = store m (s + of_int fin) (m (s + of_int beg));
             m2 = store m1 (s + of_int beg) tmp
         in strrev_loop m2 s (beg + 1) (fin - 1))
      else m)"
  by pat_completeness auto
termination
  by (relation "measure (\<lambda>(m, s, beg, fin). nat (fin - beg))") auto

declare strrev_loop.simps [simp del]

definition strrev :: "mem \<Rightarrow> u32 \<Rightarrow> mem option" where
  "strrev m s = map_option (\<lambda>n. strrev_loop m s 0 (sint (n - 1))) (c_strlen m s)"

definition itoa_lookup :: "u8 list" where
  "itoa_lookup = chars ''0123456789ABCDEFGHIJKLMNOPQRSTUVWXYZ'' @ [0]"

partial_function (option) itoa_loop ::
    "u32 \<Rightarrow> u32 \<Rightarrow> mem \<Rightarrow> u32 \<Rightarrow> (mem \<times> u32) option" where
  "itoa_loop newval radix m newbuf =
     (if newval > 0 then
        (let i = sint (newval mod radix)
         in if radix = 0 \<or> i < 0 \<or> 37 \<le> i then None
            else itoa_loop (newval div radix) radix
                   (store m newbuf (itoa_lookup ! nat i)) (newbuf + 1))
      else Some (m, newbuf))"

definition itoa :: "mem \<Rightarrow> u32 \<Rightarrow> u32 \<Rightarrow> u32 \<Rightarrow> mem option" where
  "itoa m value buf radix =
     (if value = 0 then Some (store (store m buf (ch CHR ''0'')) (buf + 1) 0)
      else Option.bind (itoa_loop value radix m buf)
             (\<lambda>(m', newbuf). strrev (store m' newbuf 0) buf))"

text \<open>\<open>strncmp\<close> reads its two strings through readers; \<open>int8_t\<close> is a signed char.\<close>

function strncmp_loop :: "(u32 \<Rightarrow> u8) \<Rightarrow> (u32 \<Rightarrow> u8) \<Rightarrow> u32 \<Rightarrow> u32 \<Rightarrow> int" where
  "strncmp_loop s1 s2 n i =
     (if i < n then
        (if s1 i \<noteq> s2 i \<or> s1 i = 0 then sint (s1 i) - sint (s2 i)
         else strncmp_loop s1 s2 n (i + 1))
      else 0)"
  by pat_completeness auto
termination
  by (relation "measure (\<lambda>(s1, s2, n, i). unat n - unat i)")
    (auto intro: word_loop_measure)

declare strncmp_loop.simps [simp del]

definition strncmp :: "(u32 \<Rightarrow> u8) \<Rightarrow> (u32 \<Rightarrow> u8) \<Rightarrow> u32 \<Rightarrow> int" where
  "strncmp s1 s2 n = strncmp_loop s1 s2 n 0"

partial_function (option) strcpy_loop :: "mem \<Rightarrow> u32 \<Rightarrow> u32 \<Rightarrow> u32 \<Rightarrow> mem option" where
  "strcpy_loop m dest src i =
     (if m (src + i) \<noteq> 0
      then strcpy_loop (store m (dest + i) (m (src + i))) dest src (i + 1)
      else Some (store m (dest + i) 0))"

definition strcpy :: "mem \<Rightarrow> u32 \<Rightarrow> u32 \<Rightarrow> mem option" where
  "strcpy m dest src = strcpy_loop m dest src 0"

function strncpy_pad :: "mem \<Rightarrow> u32 \<Rightarrow> u32 \<Rightarrow> u32 \<Rightarrow> mem" where
  "strncpy_pad m dest n i =
     (if i < n then strncpy_pad (store m (dest + i) 0) dest n (i + 1) else m)"
  by pat_completeness auto
termination
  by (relation "measure (\<lambda>(m, dest, n, i). unat n - unat i)")
    (auto intro: word_loop_measure)

function strncpy_loop :: "mem \<Rightarrow> u32 \<Rightarrow> u32 \<Rightarrow> u32 \<Rightarrow> u32 \<Rightarrow> mem" where
  "strncpy_loop m dest src n i =
     (if m (src + i) \<noteq> 0 \<and> i < n
      then strncpy_loop (store m (dest + i) (m (src + i))) dest src n (i + 1)
      else strncpy_pad m dest n i)"
  by pat_completeness auto
termination
  by (relation "measure (\<lambda>(m, dest, src, n, i). unat n - unat i)")
    (auto intro: word_loop_measure)

declare strncpy_pad.simps [simp del] strncpy_loop.simps [simp del]

definition strncpy :: "mem \<Rightarrow> u32 \<Rightarrow> u32 \<Rightarrow> u32 \<Rightarrow> mem" where
  "strncpy m dest src n = strncpy_loop m dest src n 0"

section \<open>What the routines compute\<close>

lemma strlen_loop_cstr:
  "k \<le> length xs \<Longrightarrow> is_cstr m s xs \<Longrightarrow>
     strlen_loop m s (of_nat k) = Some (of_nat (length xs))"
proof (induction "length xs - k" arbitrary: k)
  case 0
  then show ?case by (simp add: strlen_loop.simps is_cstr_def)
next
  case (Suc d)
  then have k: "k < length xs" by simp
  have "m (s + of_nat k) = xs ! k"
    using Suc.prems(2) k nth_rd [of k "length xs" m s] by (simp add: is_cstr_def)
  then have "m (s + of_nat k) \<noteq> 0"
    using Suc.prems(2) k by (metis is_cstr_def nth_mem)
  moreover have "strlen_loop m s (of_nat (Suc k)) = Some (of_nat (length xs))"
    using Suc.hyps(1) [of "Suc k"] Suc.hyps(2) k Suc.prems(2) by simp
  ultimately show ?case
    by (subst strlen_loop.simps) (simp add: add.commute)
qed

lemma c_strlen_cstr [simp]: "is_cstr m s xs \<Longrightarrow> c_strlen m s = Some (of_nat (length xs))"
  using strlen_loop_cstr [of 0 xs m s] by (simp add: c_strlen_def)

text \<open>Pointwise effect of the reversal loop: offset \<open>o\<close> of the window takes \<open>beg + fin - o\<close>.\<close>

lemma strrev_loop_apply:
  "0 \<le> b \<Longrightarrow> e < 2 ^ 31 \<Longrightarrow> strrev_loop m s b e x =
     (if b \<le> uint (x - s) \<and> uint (x - s) \<le> e then m (s + of_int (b + e - uint (x - s))) else m x)"
proof (induction m s b e rule: strrev_loop.induct)
  case (1 m s b e)
  let ?o = "uint (x - s)"
  show ?case
  proof (cases "b < e")
    case True
    let ?m1 = "store m (s + of_int e) (m (s + of_int b))"
    let ?m2 = "store ?m1 (s + of_int b) (m (s + of_int e))"
    have IH: "strrev_loop ?m2 s (b + 1) (e - 1) x =
      (if b + 1 \<le> ?o \<and> ?o \<le> e - 1 then ?m2 (s + of_int (b + e - ?o)) else ?m2 x)"
      using "1.IH" [OF True refl refl refl] "1.prems" by simp
    have m2: "?m2 y = (if uint (y - s) = b then m (s + of_int e)
        else if uint (y - s) = e then m (s + of_int b) else m y)" for y
      using "1.prems" True addr_of_int_iff [of b y s] addr_of_int_iff [of e y s]
      by (auto simp: store_apply)
    have "strrev_loop m s b e x = strrev_loop ?m2 s (b + 1) (e - 1) x"
      using True by (subst strrev_loop.simps) simp
    also have "\<dots> = (if b \<le> ?o \<and> ?o \<le> e then m (s + of_int (b + e - ?o)) else m x)"
    proof (cases "b + 1 \<le> ?o \<and> ?o \<le> e - 1")
      case True
      then have "uint (s + of_int (b + e - ?o) - s) = b + e - ?o"
        using "1.prems" by (intro uint_addr_of_int) auto
      with True show ?thesis by (simp only: IH m2) auto
    next
      case False
      then show ?thesis using True by (simp only: IH m2) auto
    qed
    finally show ?thesis .
  next
    case False
    then show ?thesis
      using "1.prems" addr_of_int_iff [of b x s]
      by (subst strrev_loop.simps) (auto simp: order_antisym_conv)
  qed
qed

text \<open>Reversing a string in place writes the reversed bytes and nothing else.\<close>

lemma strrev_cstr:
  assumes s: "is_cstr m s xs" and len: "length xs < 2 ^ 31"
  shows "strrev m s = Some (wr m s (rev xs))"
proof (cases "xs = []")
  case True
  with s show ?thesis by (simp add: strrev_def strrev_loop.simps)
next
  case False
  let ?n = "length xs"
  have e: "sint (of_nat ?n - 1 :: u32) = int ?n - 1"
    using sint_of_int_u32 [of "int ?n - 1"] len by simp
  have "strrev_loop m s 0 (int ?n - 1) = wr m s (rev xs)"
  proof
    fix x
    let ?o = "unat (x - s)"
    have "m (s + of_int (int ?n - 1 - uint (x - s))) = xs ! (?n - 1 - ?o)" if "?o < ?n"
    proof -
      have "int ?n - 1 - uint (x - s) = int (?n - 1 - ?o)"
        unfolding uint_nat using that by linarith
      then have "s + of_int (int ?n - 1 - uint (x - s)) = s + of_nat (?n - 1 - ?o)"
        by (simp only: of_int_of_nat_eq)
      moreover have "m (s + of_nat (?n - 1 - ?o)) = xs ! (?n - 1 - ?o)"
        using s that nth_rd [of "?n - 1 - ?o" ?n m s] by (simp add: is_cstr_def)
      ultimately show ?thesis by (simp only:)
    qed
    moreover have iff: "(uint (x - s) \<le> int ?n - 1) = (?o < ?n)"
      unfolding uint_nat by linarith
    have "strrev_loop m s 0 (int ?n - 1) x =
        (if ?o < ?n then m (s + of_int (int ?n - 1 - uint (x - s))) else m x)"
      by (subst strrev_loop_apply) (use len in \<open>simp_all only: iff uint_ge_0 simp_thms, simp_all\<close>)
    moreover have "wr m s (rev xs) x = (if ?o < ?n then xs ! (?n - 1 - ?o) else m x)"
      by (subst wr_apply) (use len in \<open>simp_all add: rev_nth\<close>)
    ultimately show "strrev_loop m s 0 (int ?n - 1) x = wr m s (rev xs) x" by simp
  qed
  then show ?thesis using s e by (simp add: strrev_def)
qed

section \<open>Number conversion\<close>

text \<open>The digits of a number, most significant first, and the number they stand for.\<close>

fun digits :: "nat \<Rightarrow> nat \<Rightarrow> nat list" where
  "digits b n = (if b < 2 \<or> n < b then [n] else digits b (n div b) @ [n mod b])"

declare digits.simps [simp del]

definition digit_char :: "nat \<Rightarrow> u8" where
  "digit_char d = itoa_lookup ! d"

definition digit_val :: "u8 \<Rightarrow> nat" where
  "digit_val c = (if c \<le> 57 then unat c - 48 else unat c - 55)"

definition parse_radix :: "nat \<Rightarrow> u8 list \<Rightarrow> nat" where
  "parse_radix b cs = foldl (\<lambda>acc c. acc * b + digit_val c) 0 cs"

lemma digits_ne [simp]: "digits b n \<noteq> []"
  by (subst digits.simps) simp

lemma digits_bound: "2 \<le> b \<Longrightarrow> d \<in> set (digits b n) \<Longrightarrow> d < b"
proof (induction b n rule: digits.induct)
  case (1 b n)
  then show ?case by (auto simp: digits.simps [of b n] split: if_splits)
qed

lemma length_digits: "2 \<le> b \<Longrightarrow> n < 2 ^ Suc k \<Longrightarrow> length (digits b n) \<le> Suc k"
proof (induction k arbitrary: n)
  case 0
  then show ?case by (subst digits.simps) auto
next
  case (Suc k)
  have "n div b \<le> n div 2" using Suc.prems(1) by (rule div_le_mono2 [rotated]) simp
  also have "\<dots> < 2 ^ Suc k" using Suc.prems(2) by auto
  finally have "length (digits b (n div b)) \<le> Suc k" by (rule Suc.IH [OF Suc.prems(1)])
  then show ?case by (subst digits.simps) auto
qed

lemma digit_char_ok: "d < 36 \<Longrightarrow> digit_char d \<noteq> 0 \<and> digit_val (digit_char d) = d
    \<and> (digit_char d = 48 \<longrightarrow> d = 0)"
proof -
  have "\<forall>d \<in> set [0..<36]. digit_char d \<noteq> 0 \<and> digit_val (digit_char d) = d
    \<and> (digit_char d = 48 \<longrightarrow> d = 0)" by code_simp
  then show "d < 36 \<Longrightarrow> ?thesis" by (simp del: upt_rec_numeral)
qed

lemma parse_digits:
  "2 \<le> b \<Longrightarrow> b \<le> 36 \<Longrightarrow> parse_radix b (map digit_char (digits b n)) = n"
proof (induction b n rule: digits.induct)
  case (1 b n)
  show ?case
  proof (cases "n < b")
    case True
    with "1.prems" show ?thesis
      by (subst digits.simps) (simp add: parse_radix_def digit_char_ok)
  next
    case False
    have "n mod b < 36" using "1.prems" mod_less_divisor [of b n] by linarith
    moreover have "parse_radix b (map digit_char (digits b (n div b))) = n div b"
      using "1.IH" "1.prems" False by simp
    ultimately show ?thesis
      using "1.prems" False by (subst digits.simps) (simp add: parse_radix_def digit_char_ok)
  qed
qed

lemma digits_leading: "2 \<le> b \<Longrightarrow> n > 0 \<Longrightarrow> hd (digits b n) > 0"
proof (induction b n rule: digits.induct)
  case (1 b n)
  show ?case
  proof (cases "n < b")
    case False
    then have "n div b > 0" using "1.prems" by (simp add: div_greater_zero_iff)
    with "1.IH" "1.prems" False show ?thesis by (subst digits.simps) simp
  qed (use "1.prems" in \<open>simp add: digits.simps\<close>)
qed

lemma itoa_loop_digits:
  assumes r: "2 \<le> unat r" "unat r \<le> 36" and v: "0 < v"
  shows "itoa_loop v r m nb =
    Some (wr m nb (map digit_char (rev (digits (unat r) (unat v)))),
          nb + of_nat (length (digits (unat r) (unat v))))"
  using v
proof (induction "unat v" arbitrary: v m nb rule: less_induct)
  case less
  have i: "sint (v mod r) = int (unat v mod unat r)" "unat v mod unat r < 36"
  proof -
    show lt: "unat v mod unat r < 36" using r mod_less_divisor [of "unat r" "unat v"] by linarith
    then show "sint (v mod r) = int (unat v mod unat r)"
      using sint_of_nat_u32 [of "unat v mod unat r"] by (simp flip: unat_mod)
  qed
  let ?d = "digit_char (unat v mod unat r)"
  have step: "itoa_loop v r m nb = itoa_loop (v div r) r (store m nb ?d) (nb + 1)"
    using r less.prems i
    by (subst itoa_loop.simps) (auto simp: digit_char_def Let_def)
  show ?case
  proof (cases "unat v < unat r")
    case True
    then have "v div r = 0" by (simp add: word_unat_eq_iff unat_div)
    then have "itoa_loop v r m nb = Some (store m nb ?d, nb + 1)"
      unfolding step by (simp add: itoa_loop.simps)
    then show ?thesis using True by (simp add: digits.simps)
  next
    case False
    have "unat (v div r) < unat v" "0 < v div r"
      using r less.prems False
      by (simp_all add: unat_div word_greater_zero_iff word_unat_eq_iff div_greater_zero_iff)
    then have "itoa_loop (v div r) r (store m nb ?d) (nb + 1) =
      Some (wr (store m nb ?d) (nb + 1)
             (map digit_char (rev (digits (unat r) (unat v div unat r)))),
            nb + 1 + of_nat (length (digits (unat r) (unat v div unat r))))"
      using less.hyps [of "v div r"] by (simp add: unat_div)
    then show ?thesis
      unfolding step using r False by (simp add: digits.simps [of _ "unat v"] add.assoc)
  qed
qed

text \<open>\<open>itoa\<close> leaves exactly the digits of the number and a NUL at \<open>buf\<close>.\<close>

lemma itoa_digits:
  assumes r: "2 \<le> unat r" "unat r \<le> 36"
  shows "itoa m v buf r =
    Some (wr m buf (map digit_char (digits (unat r) (unat v)) @ [0]))"
proof (cases "v = 0")
  case True
  then show ?thesis using r
    by (simp add: itoa_def digits.simps digit_char_def itoa_lookup_def)
next
  case False
  let ?ds = "map digit_char (digits (unat r) (unat v))"
  let ?m = "wr m buf (rev ?ds @ [0])"
  have len: "length ?ds \<le> 32"
    using length_digits [of "unat r" "unat v" 31] r by simp
  have nz: "0 \<notin> set ?ds"
    using digits_bound [OF r(1)] digit_char_ok r(2) by fastforce
  have "rd ?m buf (length ?ds) = rev ?ds"
    using len by (intro nth_equalityI) (simp_all add: wr_apply nth_append)
  moreover have "?m (buf + of_nat (length ?ds)) = 0"
    using len by (simp add: wr_apply nth_append)
  ultimately have c: "is_cstr ?m buf (rev ?ds)"
    using len nz by (simp add: is_cstr_def)
  have "itoa m v buf r = strrev ?m buf"
    using False itoa_loop_digits [OF r, of v m buf]
    by (simp add: itoa_def word_greater_zero_iff wr_append rev_map)
  also have "\<dots> = Some (wr ?m buf ?ds)"
    using strrev_cstr [OF c] len by simp
  also have "wr ?m buf ?ds = wr m buf (?ds @ [0])"
    using len by (intro ext) (simp add: wr_apply nth_append)
  finally show ?thesis .
qed

section \<open>Comparison and copying\<close>

text \<open>Reference: compare two byte lists up to the first NUL, on signed characters.\<close>

fun strncmp_ref :: "u8 list \<Rightarrow> u8 list \<Rightarrow> int" where
  "strncmp_ref (x # xs) (y # ys) =
     (if x \<noteq> y \<or> x = 0 then sint x - sint y else strncmp_ref xs ys)"
| "strncmp_ref _ _ = 0"

lemma strncmp_loop_ref:
  "i \<le> n \<Longrightarrow> strncmp_loop s1 s2 n i =
     strncmp_ref (rd s1 i (unat (n - i))) (rd s2 i (unat (n - i)))"
proof (induction s1 s2 n i rule: strncmp_loop.induct)
  case (1 s1 s2 n i)
  show ?case
  proof (cases "i < n")
    case True
    then show ?thesis using "1.IH" word_loop_le [OF True]
      by (subst strncmp_loop.simps) (auto simp: unat_diff_inc rd_Suc)
  next
    case False
    with "1.prems" show ?thesis by (subst strncmp_loop.simps) simp
  qed
qed

lemma strncmp_eq_ref: "strncmp s1 s2 n = strncmp_ref (rd s1 0 (unat n)) (rd s2 0 (unat n))"
  by (simp add: strncmp_def strncmp_loop_ref)

lemma sint_eq_u8 [simp]: "(sint (x :: u8) = sint y) = (x = y)"
  by (metis signed_word_eqI)

lemma sint_eq_0_u8 [simp]: "(sint (x :: u8) = 0) = (x = 0)"
  using sint_eq_u8 [of x 0] by simp

lemma strncmp_ref_0:
  "length xs = length ys \<Longrightarrow>
     (strncmp_ref xs ys = 0) = (takeWhile (\<lambda>c. c \<noteq> 0) xs = takeWhile (\<lambda>c. c \<noteq> 0) ys)"
  by (induction xs ys rule: strncmp_ref.induct) auto

text \<open>The string that starts at \<open>s\<close>, cut at the first NUL and after \<open>n\<close> bytes.\<close>

definition cut_str :: "mem \<Rightarrow> u32 \<Rightarrow> nat \<Rightarrow> u8 list" where
  "cut_str m s n = takeWhile (\<lambda>c. c \<noteq> 0) (rd m s n)"

lemma strncmp_0_iff: "(strncmp s1 s2 n = 0) = (cut_str s1 0 (unat n) = cut_str s2 0 (unat n))"
  by (simp add: strncmp_eq_ref strncmp_ref_0 cut_str_def)

lemma cut_str_0 [simp]: "cut_str m s 0 = []"
  by (simp add: cut_str_def)

lemma cut_str_Suc:
  "cut_str m s (Suc n) = (if m s = 0 then [] else m s # cut_str m (s + 1) n)"
  by (simp add: cut_str_def rd_Suc)

lemma length_cut_str: "length (cut_str m s n) \<le> n"
  by (metis cut_str_def length_rd length_takeWhile_le)

lemma cut_str_cong: "rd m s n = rd m' s n \<Longrightarrow> cut_str m s n = cut_str m' s n"
  by (simp add: cut_str_def)

text \<open>A write to the destination does not disturb a source that does not meet it.\<close>

lemma rd_store_disj:
  assumes "disj src n dest n" and "k < n" and "n \<le> 2 ^ 32"
  shows "rd (store m (dest + of_nat k) x) src n = rd m src n"
proof (rule rd_cong)
  fix i assume "i < n"
  then have "unat (src + of_nat i - src) < n" using assms(3) by simp
  then have "\<not> unat (src + of_nat i - dest) < n" by (rule disj_outside [OF assms(1)])
  then have "src + of_nat i \<noteq> dest + of_nat k"
    using offset_iff [of k "src + of_nat i" dest] assms by auto
  then show "store m (dest + of_nat k) x (src + of_nat i) = m (src + of_nat i)"
    by (simp add: store_apply)
qed

lemma strncpy_pad_wr:
  "i \<le> n \<Longrightarrow> strncpy_pad m dest n i = wr m (dest + i) (replicate (unat (n - i)) 0)"
proof (induction m dest n i rule: strncpy_pad.induct)
  case (1 m dest n i)
  show ?case
  proof (cases "i < n")
    case True
    then show ?thesis using "1.IH" word_loop_le [OF True]
      by (subst strncpy_pad.simps) (simp add: unat_diff_inc add.assoc)
  next
    case False
    with "1.prems" show ?thesis by (subst strncpy_pad.simps) simp
  qed
qed

definition padded :: "u8 list \<Rightarrow> nat \<Rightarrow> u8 list" where
  "padded xs n = xs @ replicate (n - length xs) 0"

lemma strncpy_loop_wr:
  assumes "disj src (unat n) dest (unat n)" and "i \<le> n"
  shows "strncpy_loop m dest src n i =
    wr m (dest + i) (padded (cut_str m (src + i) (unat (n - i))) (unat (n - i)))"
  using assms
proof (induction m dest src n i rule: strncpy_loop.induct)
  case (1 m dest src n i)
  show ?case
  proof (cases "m (src + i) \<noteq> 0 \<and> i < n")
    case True
    let ?m = "store m (dest + i) (m (src + i))"
    let ?k = "unat (n - (i + 1))"
    have i: "i = of_nat (unat i)" "unat i < unat n" using True by (simp_all add: word_less_nat_alt)
    have same: "rd ?m src (unat n) = rd m src (unat n)"
      using rd_store_disj [OF "1.prems"(1) i(2), of m "m (src + i)"] i(1)
      by (simp add: less_imp_le)
    have "rd ?m (src + (i + 1)) ?k = rd m (src + (i + 1)) ?k"
    proof (rule nth_equalityI)
      fix j assume j: "j < length (rd ?m (src + (i + 1)) ?k)"
      then have "unat i + 1 + j < unat n"
        using unat_diff_inc [of i n] True unat_sub [of i n] i(2) by (simp add: less_imp_le)
      then have "rd ?m src (unat n) ! (unat i + 1 + j) = ?m (src + (i + 1) + of_nat j)"
        "rd m src (unat n) ! (unat i + 1 + j) = m (src + (i + 1) + of_nat j)"
        by (simp_all add: add_ac)
      with same j show "rd ?m (src + (i + 1)) ?k ! j = rd m (src + (i + 1)) ?k ! j" by simp
    qed simp
    then have "cut_str ?m (src + (i + 1)) ?k = cut_str m (src + (i + 1)) ?k"
      by (rule cut_str_cong)
    then show ?thesis
      using "1.IH" [OF True "1.prems"(1)] True word_loop_le [of i n]
      by (subst strncpy_loop.simps)
        (simp add: unat_diff_inc cut_str_Suc padded_def add.assoc)
  next
    case False
    then have "cut_str m (src + i) (unat (n - i)) = []"
      using "1.prems" by (cases "unat (n - i)") (auto simp: cut_str_Suc unat_eq_0)
    with False show ?thesis using "1.prems"
      by (subst strncpy_loop.simps) (auto simp: strncpy_pad_wr padded_def)
  qed
qed

lemma strncpy_wr:
  "disj src (unat n) dest (unat n) \<Longrightarrow>
     strncpy m dest src n = wr m dest (padded (cut_str m src (unat n)) (unat n))"
  using strncpy_loop_wr [of src n dest 0 m] by (simp add: strncpy_def)

lemma is_cstr_alt:
  "is_cstr m s xs \<longleftrightarrow>
     length xs < 2 ^ 32 \<and> rd m s (Suc (length xs)) = xs @ [0] \<and> 0 \<notin> set xs"
  by (auto simp: is_cstr_def rd_snoc)

lemma strcpy_loop_wr:
  assumes "k \<le> length xs" and "is_cstr m src xs"
    and "disj src (Suc (length xs)) dest (Suc (length xs))"
  shows "strcpy_loop m dest src (of_nat k) = Some (wr m (dest + of_nat k) (drop k xs @ [0]))"
  using assms
proof (induction "length xs - k" arbitrary: k m)
  case 0
  then have "k = length xs" by simp
  with 0 show ?case by (subst strcpy_loop.simps) (simp add: is_cstr_def)
next
  case (Suc d)
  then have k: "k < length xs" by simp
  let ?m = "store m (dest + of_nat k) (m (src + of_nat k))"
  have mk: "m (src + of_nat k) = xs ! k"
    using Suc.prems(2) k nth_rd [of k "length xs" m src] by (simp add: is_cstr_def)
  have "xs ! k \<noteq> 0" using Suc.prems(2) k by (metis is_cstr_def nth_mem)
  have "rd ?m src (Suc (length xs)) = rd m src (Suc (length xs))"
    using Suc.prems k by (intro rd_store_disj) (auto simp: is_cstr_def)
  then have "is_cstr ?m src xs" using Suc.prems(2) by (simp add: is_cstr_alt)
  then have "strcpy_loop ?m dest src (of_nat (Suc k)) =
      Some (wr ?m (dest + of_nat (Suc k)) (drop (Suc k) xs @ [0]))"
    using Suc.hyps k Suc.prems(3) by (intro Suc.hyps(1)) auto
  moreover have "drop k xs = xs ! k # drop (Suc k) xs" using k by (rule Cons_nth_drop_Suc [symmetric])
  ultimately show ?case using mk \<open>xs ! k \<noteq> 0\<close>
    by (subst strcpy_loop.simps) (simp add: add.commute add.left_commute)
qed

lemma strcpy_cstr:
  "is_cstr m src xs \<Longrightarrow> disj src (Suc (length xs)) dest (Suc (length xs)) \<Longrightarrow>
     strcpy m dest src = Some (wr m dest (xs @ [0]))"
  using strcpy_loop_wr [of 0 xs m src dest] by (simp add: strcpy_def)

section \<open>Properties\<close>

text \<open>
  C1. Number conversion round trip.  For every radix from 2 to 36 and every 32-bit value,
  \<open>itoa\<close> returns, leaves at \<open>buf\<close> a NUL-terminated string of at most 32 characters
  that reads back as the value in that radix and has no leading zero (but for the number 0),
  and changes no byte outside the string and its NUL.
\<close>

theorem itoa_roundtrip:
  assumes "2 \<le> unat r" and "unat r \<le> 36"
  shows "\<exists>m' ds. itoa m v buf r = Some m' \<and> is_cstr m' buf ds \<and> length ds \<le> 32
    \<and> parse_radix (unat r) ds = unat v \<and> (v \<noteq> 0 \<longrightarrow> hd ds \<noteq> ch CHR ''0'')
    \<and> (\<forall>x. Suc (length ds) \<le> unat (x - buf) \<longrightarrow> m' x = m x)"
proof (intro exI conjI)
  let ?ds = "map digit_char (digits (unat r) (unat v))"
  let ?m = "wr m buf (?ds @ [0])"
  show "itoa m v buf r = Some ?m" by (rule itoa_digits [OF assms])
  show len: "length ?ds \<le> 32" using length_digits [of "unat r" "unat v" 31] assms by simp
  have small: "d \<in> set (digits (unat r) (unat v)) \<Longrightarrow> d < 36" for d
    using digits_bound [OF assms(1)] assms(2) by fastforce
  then have "0 \<notin> set ?ds" using digit_char_ok by fastforce
  moreover have "rd ?m buf (Suc (length ?ds)) = ?ds @ [0]"
    using rd_wr_same [of "?ds @ [0]" m buf] len by simp
  ultimately show "is_cstr ?m buf ?ds" using len by (simp add: is_cstr_alt)
  show "parse_radix (unat r) ?ds = unat v" by (rule parse_digits [OF assms])
  show "v \<noteq> 0 \<longrightarrow> hd ?ds \<noteq> ch CHR ''0''"
    using digits_leading [OF assms(1), of "unat v"] digit_char_ok [OF small [OF hd_in_set]]
    by (auto simp: hd_map unat_gt_0)
  show "\<forall>x. Suc (length ?ds) \<le> unat (x - buf) \<longrightarrow> ?m x = m x"
    using len by (simp add: wr_apply)
qed

lemma itoa_roundtrip_witness:
  "\<exists>m' ds. itoa (\<lambda>_. 7) 1234 64 10 = Some m' \<and> is_cstr m' 64 ds \<and> parse_radix 10 ds = 1234"
  using itoa_roundtrip [of 10 "\<lambda>_. 7" 1234 64] by auto

text \<open>
  C2. \<open>strncmp\<close> returns 0 exactly when the two strings, each cut at its first NUL and
  after \<open>n\<close> bytes, are the same; otherwise it returns the difference of the first two
  signed characters that differ, as the reference comparison of the two byte lists does.
\<close>

theorem strncmp_correct:
  "(strncmp s1 s2 n = 0 \<longleftrightarrow> cut_str s1 0 (unat n) = cut_str s2 0 (unat n))
   \<and> strncmp s1 s2 n = strncmp_ref (rd s1 0 (unat n)) (rd s2 0 (unat n))"
  by (intro conjI strncmp_0_iff strncmp_eq_ref)

text \<open>
  C3. \<open>strncpy\<close> between buffers that do not overlap writes exactly \<open>n\<close> bytes: the
  source up to its first NUL, then NULs up to \<open>n\<close>; with no NUL in the first \<open>n\<close> source
  bytes the copy is not terminated.
\<close>

theorem strncpy_correct:
  assumes "disj src (unat n) dest (unat n)"
  shows "rd (strncpy m dest src n) dest (unat n) = padded (cut_str m src (unat n)) (unat n)
    \<and> (\<forall>x. unat n \<le> unat (x - dest) \<longrightarrow> strncpy m dest src n x = m x)"
proof -
  let ?xs = "padded (cut_str m src (unat n)) (unat n)"
  have len: "length ?xs = unat n" using length_cut_str [of m src "unat n"] by (simp add: padded_def)
  then have "rd (wr m dest ?xs) dest (unat n) = ?xs"
    using rd_wr_same [of ?xs m dest] by (simp add: less_imp_le)
  then show ?thesis using len by (simp add: strncpy_wr [OF assms] wr_apply less_imp_le)
qed

lemma strncpy_correct_witness:
  "disj 0 4 100 4 \<and> rd (strncpy (\<lambda>a. if a = 2 then 0 else 65) 100 0 4) 100 4 = [65, 65, 0, 0]"
proof -
  have u: "unat (4 :: u32) = 4" by simp
  have d: "disj 0 4 100 4" by (simp add: disj_def)
  have "rd (strncpy (\<lambda>a. if a = 2 then 0 else 65) 100 0 4) 100 4
      = padded (cut_str (\<lambda>a. if a = 2 then 0 else 65) 0 4) 4"
    using strncpy_correct [of 0 4 100, unfolded u, OF d] by blast
  also have "\<dots> = [65, 65, 0, 0]"
  proof -
    have "[0..<4] = [0, 1, 2, 3 :: nat]" by (simp add: upt_rec)
    moreover have "replicate 2 (0 :: u8) = [0, 0]" by (simp add: numeral_2_eq_2)
    ultimately show ?thesis by (simp add: padded_def cut_str_def rd_def)
  qed
  finally show ?thesis using d by blast
qed

end
