(* ===== verification/CLib_Mem.thy ===== *)
theory CLib_Mem
  imports CLib
begin

text \<open>
  The block routines of \<^verbatim>\<open>mp3/student-distrib/lib.c\<close>, inline assembly over byte memory:
  \<open>memset\<close>, \<open>memset_word\<close>, \<open>memset_dword\<close>, \<open>memcpy\<close> and \<open>memmove\<close>.  The byte
  loops, the aligned dword loops (\<open>rep stosl\<close>, \<open>rep movsl\<close>) and the direction flag are
  written out; a \<open>rep\<close> instruction is recursion on the value of \<open>ecx\<close>.  A 32-bit move
  reads four bytes and then writes four bytes.
\<close>

section \<open>The routines\<close>

definition dword_bytes :: "u32 \<Rightarrow> u8 list" where
  "dword_bytes v = [ucast v, ucast (drop_bit 8 v), ucast (drop_bit 16 v), ucast (drop_bit 24 v)]"

definition word_bytes :: "u32 \<Rightarrow> u8 list" where
  "word_bytes v = [ucast v, ucast (drop_bit 8 v)]"

primrec rep_stosw :: "mem \<Rightarrow> u32 \<Rightarrow> u32 \<Rightarrow> nat \<Rightarrow> mem" where
  "rep_stosw m edi eax 0 = m"
| "rep_stosw m edi eax (Suc n) = rep_stosw (wr m edi (word_bytes eax)) (edi + 2) eax n"

primrec rep_stosl :: "mem \<Rightarrow> u32 \<Rightarrow> u32 \<Rightarrow> nat \<Rightarrow> mem" where
  "rep_stosl m edi eax 0 = m"
| "rep_stosl m edi eax (Suc n) = rep_stosl (wr m edi (dword_bytes eax)) (edi + 4) eax n"

text \<open>\<open>.memset_top\<close>: bytes until the address is aligned; the result is memory, \<open>edi\<close>, \<open>ecx\<close>.\<close>

function memset_top :: "mem \<Rightarrow> u32 \<Rightarrow> u32 \<Rightarrow> u8 \<Rightarrow> mem \<times> u32 \<times> u32" where
  "memset_top m edi ecx al =
     (if ecx = 0 \<or> edi AND 3 = 0 then (m, edi, ecx)
      else memset_top (store m edi al) (edi + 1) (ecx - 1) al)"
  by pat_completeness auto
termination
  by (relation "measure (\<lambda>(m, edi, ecx, al). unat ecx)")
    (auto intro: measure_unat)

text \<open>\<open>.memset_bottom\<close>: the bytes left after the last aligned dword.\<close>

primrec memset_bottom :: "mem \<Rightarrow> u32 \<Rightarrow> nat \<Rightarrow> u8 \<Rightarrow> mem" where
  "memset_bottom m edi 0 al = m"
| "memset_bottom m edi (Suc n) al = memset_bottom (store m edi al) (edi + 1) n al"

definition memset :: "mem \<Rightarrow> u32 \<Rightarrow> u32 \<Rightarrow> u32 \<Rightarrow> mem" where
  "memset m s c0 n =
     (let c = c0 AND 0xFF;
          eax = push_bit 24 c OR push_bit 16 c OR push_bit 8 c OR c;
          al = ucast eax;
          (m1, edi, ecx) = memset_top m s n al
      in if ecx = 0 then m1
         else (let edx = ecx AND 3;
                   q = unat (drop_bit 2 ecx)
               in memset_bottom (rep_stosl m1 edi eax q) (edi + 4 * of_nat q) (unat edx) al))"

definition memset_word :: "mem \<Rightarrow> u32 \<Rightarrow> u32 \<Rightarrow> u32 \<Rightarrow> mem" where
  "memset_word m s c n = rep_stosw m s c (unat n)"

definition memset_dword :: "mem \<Rightarrow> u32 \<Rightarrow> u32 \<Rightarrow> u32 \<Rightarrow> mem" where
  "memset_dword m s c n = rep_stosl m s c (unat n)"

primrec rep_movsl :: "mem \<Rightarrow> u32 \<Rightarrow> u32 \<Rightarrow> nat \<Rightarrow> mem" where
  "rep_movsl m edi esi 0 = m"
| "rep_movsl m edi esi (Suc n) = rep_movsl (wr m edi (rd m esi 4)) (edi + 4) (esi + 4) n"

function memcpy_top :: "mem \<Rightarrow> u32 \<Rightarrow> u32 \<Rightarrow> u32 \<Rightarrow> mem \<times> u32 \<times> u32 \<times> u32" where
  "memcpy_top m edi esi ecx =
     (if ecx = 0 \<or> edi AND 3 = 0 then (m, edi, esi, ecx)
      else memcpy_top (store m edi (m esi)) (edi + 1) (esi + 1) (ecx - 1))"
  by pat_completeness auto
termination
  by (relation "measure (\<lambda>(m, edi, esi, ecx). unat ecx)")
    (auto intro: measure_unat)

primrec memcpy_bottom :: "mem \<Rightarrow> u32 \<Rightarrow> u32 \<Rightarrow> nat \<Rightarrow> mem" where
  "memcpy_bottom m edi esi 0 = m"
| "memcpy_bottom m edi esi (Suc n) = memcpy_bottom (store m edi (m esi)) (edi + 1) (esi + 1) n"

definition memcpy :: "mem \<Rightarrow> u32 \<Rightarrow> u32 \<Rightarrow> u32 \<Rightarrow> mem" where
  "memcpy m dest src n =
     (let (m1, edi, esi, ecx) = memcpy_top m dest src n
      in if ecx = 0 then m1
         else (let edx = ecx AND 3;
                   q = unat (drop_bit 2 ecx)
               in memcpy_bottom (rep_movsl m1 edi esi q)
                    (edi + 4 * of_nat q) (esi + 4 * of_nat q) (unat edx)))"

text \<open>\<open>rep movsb\<close>; with the direction flag set both addresses go down.\<close>

primrec rep_movsb :: "bool \<Rightarrow> mem \<Rightarrow> u32 \<Rightarrow> u32 \<Rightarrow> nat \<Rightarrow> mem" where
  "rep_movsb df m edi esi 0 = m"
| "rep_movsb df m edi esi (Suc n) =
     (if df then rep_movsb df (store m edi (m esi)) (edi - 1) (esi - 1) n
      else rep_movsb df (store m edi (m esi)) (edi + 1) (esi + 1) n)"

text \<open>The result is the memory and the direction flag the routine leaves behind.\<close>

definition memmove :: "mem \<Rightarrow> u32 \<Rightarrow> u32 \<Rightarrow> u32 \<Rightarrow> mem \<times> bool" where
  "memmove m dest src n =
     (if dest \<le> src then (rep_movsb False m dest src (unat n), False)
      else (rep_movsb True m (dest + n - 1) (src + n - 1) (unat n), True))"

declare memset_top.simps [simp del] memcpy_top.simps [simp del]

section \<open>Filling\<close>

lemma memset_bottom_wr: "memset_bottom m d n x = wr m d (replicate n x)"
  by (induction n arbitrary: m d) simp_all

lemma rep_stosl_wr: "rep_stosl m d v n = wr m d (concat (replicate n (dword_bytes v)))"
  by (induction n arbitrary: m d) (simp_all add: wr_append dword_bytes_def add.assoc)

lemma rep_stosw_wr: "rep_stosw m d v n = wr m d (concat (replicate n (word_bytes v)))"
  by (induction n arbitrary: m d) (simp_all add: wr_append word_bytes_def add.assoc)

lemma memset_top_wr:
  assumes "memset_top m d c x = (m', d', c')"
  shows "\<exists>k. m' = wr m d (replicate k x) \<and> d' = d + of_nat k \<and> unat c = k + unat c'"
  using assms
proof (induction m d c x arbitrary: m' d' c' rule: memset_top.induct)
  case (1 m d c x)
  show ?case
  proof (cases "c = 0 \<or> d AND 3 = 0")
    case True
    then show ?thesis using "1.prems" by (intro exI [of _ 0]) (simp add: memset_top.simps)
  next
    case False
    then obtain k where "m' = wr (store m d x) (d + 1) (replicate k x)"
      "d' = d + 1 + of_nat k" "unat (c - 1) = k + unat c'"
      using "1.IH" [OF False, of m' d' c'] "1.prems" memset_top.simps [of m d c x] by auto
    then show ?thesis using False measure_unat [of c]
      by (intro exI [of _ "Suc k"]) (simp add: unat_minus_one)
  qed
qed

lemma and3_take_bit: "c AND 3 = take_bit 2 (c :: u32)"
  by (simp add: take_bit_eq_mask mask_eq_exp_minus_1)

lemma u32_split4: "unat (c :: u32) = 4 * unat (drop_bit 2 c) + unat (c AND 3)"
  by (simp add: and3_take_bit drop_bit_eq_div take_bit_eq_mod unat_div unat_mod)

lemma concat_replicate_replicate: "concat (replicate q (replicate k x)) = replicate (q * k) x"
  by (induction q) (simp_all add: replicate_add)

text \<open>The byte \<open>c\<close> repeated four times, as \<open>c << 24 | c << 16 | c << 8 | c\<close>.\<close>

lemma fill_bits:
  fixes d :: u32
  assumes d: "\<And>n. bit d n \<Longrightarrow> n < 8" and k: "k \<in> {0, 8, 16, 24}"
  shows "(ucast (drop_bit k (push_bit 24 d OR push_bit 16 d OR push_bit 8 d OR d)) :: u8) = ucast d"
proof (rule bit_word_eqI)
  fix n assume n: "n < LENGTH(8)"
  have h: "bit d j \<Longrightarrow> 8 \<le> j \<Longrightarrow> False" for j using d [of j] by simp
  have "bit (push_bit j d) (k + n) = (j = k \<and> bit d n)" if "j \<in> {0, 8, 16, 24}" for j
    using that k n h d [of n] unfolding bit_push_bit_iff by (cases "j = k") (auto dest: h)
  from this [of 0] this [of 8] this [of 16] this [of 24]
  have "bit (push_bit 24 d OR push_bit 16 d OR push_bit 8 d OR d) (k + n) = bit d n"
    using k unfolding bit_or_iff by fastforce
  with n show "bit (ucast (drop_bit k (push_bit 24 d OR push_bit 16 d OR push_bit 8 d OR d)) :: u8) n
      = bit (ucast d :: u8) n"
    unfolding bit_ucast_iff bit_drop_bit_eq comp_def by simp
qed
lemma dword_bytes_fill:
  fixes d :: u32
  assumes "\<And>n. bit d n \<Longrightarrow> n < 8"
  shows "dword_bytes (push_bit 24 d OR push_bit 16 d OR push_bit 8 d OR d)
    = replicate 4 (ucast d)"
proof -
  let ?e = "push_bit 24 d OR push_bit 16 d OR push_bit 8 d OR d"
  have "(ucast (drop_bit k ?e) :: u8) = ucast d" if "k \<in> {0, 8, 16, 24}" for k
    using fill_bits [of d k] assms that by blast
  from this [of 0] this [of 8] this [of 16] this [of 24]
  have "dword_bytes ?e = [ucast d, ucast d, ucast d, ucast d]"
    unfolding dword_bytes_def by simp
  then show ?thesis by (simp add: numeral_eq_Suc)
qed

lemma and_0xFF_bits: "bit (c AND 0xFF :: u32) n \<Longrightarrow> n < 8"
proof -
  have "c AND 0xFF = take_bit 8 c" by (simp add: take_bit_eq_mask mask_eq_exp_minus_1)
  then show "bit (c AND 0xFF) n \<Longrightarrow> n < 8" by (simp add: bit_take_bit_iff)
qed

lemma ucast_and_0xFF: "ucast (c AND 0xFF :: u32) = (ucast c :: u8)"
proof (rule bit_word_eqI)
  have "c AND 0xFF = take_bit 8 c" by (simp add: take_bit_eq_mask mask_eq_exp_minus_1)
  then show "n < LENGTH(8) \<Longrightarrow> bit (ucast (c AND 0xFF) :: u8) n = bit (ucast c :: u8) n" for n
    by (simp add: bit_ucast_iff bit_take_bit_iff)
qed

text \<open>\<open>memset\<close> fills exactly \<open>n\<close> bytes, at any alignment.\<close>

lemma memset_wr: "memset m s c n = wr m s (replicate (unat n) (ucast c))"
proof -
  define d where "d = c AND 0xFF"
  define eax where "eax = push_bit 24 d OR push_bit 16 d OR push_bit 8 d OR d"
  have d8: "\<And>i. bit d i \<Longrightarrow> i < 8" unfolding d_def by (rule and_0xFF_bits)
  have al: "ucast eax = (ucast c :: u8)"
    using fill_bits [of d 0] d8 ucast_and_0xFF [of c] by (simp add: eax_def d_def)
  obtain m1 edi ecx where top: "memset_top m s n (ucast eax) = (m1, edi, ecx)"
    by (metis prod_cases3)
  obtain k where k: "m1 = wr m s (replicate k (ucast eax))" "edi = s + of_nat k"
    "unat n = k + unat ecx"
    using memset_top_wr [OF top] by blast
  let ?q = "unat (drop_bit 2 ecx)"
  have "memset m s c n = (if ecx = 0 then m1 else
      memset_bottom (rep_stosl m1 edi eax ?q) (edi + 4 * of_nat ?q) (unat (ecx AND 3)) (ucast eax))"
    by (simp only: memset_def Let_def top prod.case flip: d_def eax_def)
  also have "\<dots> = wr m s (replicate (unat n) (ucast eax))"
    using k dword_bytes_fill [of d] d8 u32_split4 [of ecx] al ucast_and_0xFF [of c]
    by (simp add: memset_bottom_wr rep_stosl_wr concat_replicate_replicate eax_def
        replicate_add d_def [symmetric] wr_append mult.commute add.assoc)
  finally show ?thesis by (simp add: al)
qed

section \<open>Copying\<close>

text \<open>
  A block copy in progress: the first \<open>k\<close> bytes of the source already stand at the
  destination.  While source and destination do not overlap, moving the next \<open>j\<close> bytes
  leads to the copy of the first \<open>k + j\<close>.
\<close>

definition copied :: "mem \<Rightarrow> u32 \<Rightarrow> u32 \<Rightarrow> nat \<Rightarrow> mem" where
  "copied m d s k = wr m d (rd m s k)"

lemma rd_add: "rd m a (n + k) = rd m a n @ rd m (a + of_nat n) k"
  by (induction n arbitrary: a) (simp_all add: rd_Suc add.assoc)

lemma copied_0 [simp]: "copied m d s 0 = m"
  by (simp add: copied_def)

lemma copied_add:
  assumes "disj s n d n" and "k + j \<le> n" and "n \<le> 2 ^ 32"
  shows "wr (copied m d s k) (d + of_nat k) (rd (copied m d s k) (s + of_nat k) j)
    = copied m d s (k + j)"
proof -
  have "disj s (k + j) d (length (rd m s k))"
    using assms(1,2) by (auto simp: disj_def)
  then have "rd (copied m d s k) s (k + j) = rd m s (k + j)"
    unfolding copied_def using assms(2,3) by (intro rd_wr_disj) auto
  then have "rd (copied m d s k) (s + of_nat k) j = rd m (s + of_nat k) j"
    by (simp add: rd_add)
  then show ?thesis by (simp add: copied_def rd_add wr_append)
qed

lemma copied_byte:
  assumes "disj s n d n" and "k < n" and "n \<le> 2 ^ 32"
  shows "store (copied m d s k) (d + of_nat k) (copied m d s k (s + of_nat k))
    = copied m d s (Suc k)"
  using copied_add [of s n d k 1 m] assms by (simp add: rd_Suc)

lemma memcpy_top_copied:
  assumes "memcpy_top (copied m d s k) (d + of_nat k) (s + of_nat k) c = (m', d', s', c')"
    and "disj s n d n" and "n \<le> 2 ^ 32" and "k + unat c = n"
  shows "\<exists>k'. m' = copied m d s k' \<and> d' = d + of_nat k' \<and> s' = s + of_nat k'
    \<and> k' + unat c' = n"
  using assms
proof (induction "unat c" arbitrary: k c)
  case 0
  then show ?case by (auto simp: memcpy_top.simps unat_eq_0)
next
  case (Suc j)
  show ?case
  proof (cases "(d + of_nat k) AND 3 = 0")
    case True
    then show ?thesis using Suc.prems by (auto simp: memcpy_top.simps)
  next
    case False
    have c: "c \<noteq> 0" "unat (c - 1) = j" using Suc.hyps(2) unat_pred [of c] by auto
    have "memcpy_top (copied m d s (Suc k)) (d + of_nat (Suc k)) (s + of_nat (Suc k)) (c - 1)
        = (m', d', s', c')"
      using Suc.prems Suc.hyps(2) False c copied_byte [of s n d k m]
      by (subst (asm) memcpy_top.simps) (simp add: add_ac)
    then show ?thesis using c Suc.prems(2-) Suc.hyps(2) by (intro Suc.hyps(1) [of "c - 1" "Suc k"]) auto
  qed
qed

lemma memcpy_bottom_copied:
  "disj s n d n \<Longrightarrow> n \<le> 2 ^ 32 \<Longrightarrow> k + j \<le> n \<Longrightarrow>
     memcpy_bottom (copied m d s k) (d + of_nat k) (s + of_nat k) j = copied m d s (k + j)"
proof (induction j arbitrary: k)
  case (Suc j)
  then show ?case using copied_byte [of s n d k m] Suc.IH [of "Suc k"] by (simp add: add_ac)
qed simp

lemma rep_movsl_copied:
  "disj s n d n \<Longrightarrow> n \<le> 2 ^ 32 \<Longrightarrow> k + 4 * j \<le> n \<Longrightarrow>
     rep_movsl (copied m d s k) (d + of_nat k) (s + of_nat k) j = copied m d s (k + 4 * j)"
proof (induction j arbitrary: k)
  case (Suc j)
  have "rep_movsl (copied m d s (k + 4)) (d + of_nat (k + 4)) (s + of_nat (k + 4)) j
      = copied m d s (k + 4 + 4 * j)"
    using Suc.prems by (intro Suc.IH) auto
  then show ?case using copied_add [of s n d k 4 m] Suc.prems by (simp add: add_ac)
qed simp

text \<open>\<open>memcpy\<close> copies exactly \<open>n\<close> bytes between blocks that do not overlap.\<close>

lemma memcpy_wr:
  assumes dj: "disj src (unat n) dest (unat n)"
  shows "memcpy m dest src n = wr m dest (rd m src (unat n))"
proof -
  have n: "unat n \<le> 2 ^ 32" by simp
  obtain m1 edi esi ecx where top: "memcpy_top m dest src n = (m1, edi, esi, ecx)"
    by (metis prod_cases4)
  then obtain k where k: "m1 = copied m dest src k" "edi = dest + of_nat k"
    "esi = src + of_nat k" "k + unat ecx = unat n"
    using memcpy_top_copied [of m dest src 0 n m1 edi esi ecx "unat n"] dj n by auto
  let ?q = "unat (drop_bit 2 ecx)"
  have q: "k + 4 * ?q + unat (ecx AND 3) = unat n" using k(4) u32_split4 [of ecx] by simp
  have "memcpy m dest src n = (if ecx = 0 then m1 else
      memcpy_bottom (rep_movsl m1 edi esi ?q) (edi + 4 * of_nat ?q) (esi + 4 * of_nat ?q)
        (unat (ecx AND 3)))"
    by (simp only: memcpy_def Let_def top prod.case)
  moreover have "rep_movsl m1 edi esi ?q = copied m dest src (k + 4 * ?q)"
    unfolding k(1-3) using q by (intro rep_movsl_copied [OF dj n]) simp
  moreover have "memcpy_bottom (copied m dest src (k + 4 * ?q)) (dest + of_nat (k + 4 * ?q))
      (src + of_nat (k + 4 * ?q)) (unat (ecx AND 3)) = copied m dest src (unat n)"
    using memcpy_bottom_copied [OF dj n, of "k + 4 * ?q" "unat (ecx AND 3)" m] q by simp
  moreover have "ecx = 0 \<Longrightarrow> m1 = copied m dest src (unat n)" using k by simp
  ultimately show ?thesis using k by (simp add: copied_def add.assoc split: if_splits)
qed

section \<open>Moving overlapping blocks\<close>

lemma rep_movsb_forward:
  "unat d \<le> unat s \<Longrightarrow> unat s + n \<le> 2 ^ 32 \<Longrightarrow>
     rep_movsb False m d s n x = (if unat (x - d) < n then m (s + (x - d)) else m x)"
proof (induction n arbitrary: m d s)
  case (Suc n)
  let ?m = "store m d (m s)"
  have IH: "rep_movsb False ?m (d + 1) (s + 1) n x =
      (if unat (x - d - 1) < n then ?m (s + (x - d)) else ?m x)"
  proof (cases n)
    case (Suc k)
    then have "unat (d + 1) = unat d + 1" "unat (s + 1) = unat s + 1"
      using Suc.prems by (simp_all add: unat_word_ariths)
    then show ?thesis using Suc.IH [of "d + 1" "s + 1" ?m] Suc.prems
      by (simp add: algebra_simps)
  qed simp
  show ?case
  proof (cases "x = d")
    case True
    then show ?thesis using IH Suc.prems by (simp add: store_apply unat_max_u32)
  next
    case False
    then have j: "unat (x - d) = Suc (unat (x - d - 1))"
      using unat_minus_one [of "x - d"] by (simp add: unat_gt_0)
    have "s + (x - d) \<noteq> d" if "unat (x - d) < Suc n"
    proof
      assume "s + (x - d) = d"
      moreover have "unat (s + (x - d)) = unat s + unat (x - d)"
        using Suc.prems(2) that by (simp add: unat_word_ariths)
      ultimately show False using Suc.prems(1) j by (metis add_Suc_right less_add_Suc1 not_less)
    qed
    then show ?thesis using IH j False by (auto simp: store_apply)
  qed
qed simp

lemma rep_movsb_backward:
  "unat s < unat d \<Longrightarrow> n \<le> unat s + 1 \<Longrightarrow>
     rep_movsb True m d s n x = (if unat (d - x) < n then m (s - (d - x)) else m x)"
proof (induction n arbitrary: m d s)
  case (Suc n)
  let ?m = "store m d (m s)"
  have IH: "rep_movsb True ?m (d - 1) (s - 1) n x =
      (if unat (d - x - 1) < n then ?m (s - (d - x)) else ?m x)"
  proof (cases n)
    case (Suc k)
    then have "unat (d - 1) = unat d - 1" "unat (s - 1) = unat s - 1" "0 < unat s"
      using Suc.prems by (simp_all add: unat_pred)
    then show ?thesis using Suc.IH [of "s - 1" "d - 1" ?m] Suc.prems
      by (simp add: algebra_simps)
  qed simp
  show ?case
  proof (cases "x = d")
    case True
    have "Suc n < 2 ^ 32" using Suc.prems unat_u32_less [of d] by (simp del: unat_u32_less)
    then show ?thesis using True IH by (simp add: store_apply unat_max_u32)
  next
    case False
    then have j: "unat (d - x) = Suc (unat (d - x - 1))"
      using unat_minus_one [of "d - x"] by (simp add: unat_gt_0)
    have "s - (d - x) \<noteq> d" if "unat (d - x) < Suc n"
    proof
      assume "s - (d - x) = d"
      moreover have "unat (s - (d - x)) = unat s - unat (d - x)"
        using Suc.prems(2) that by (intro unat_sub) (simp add: word_le_nat_alt)
      ultimately show False using Suc.prems(1) j by (metis less_imp_diff_less not_less_iff_gr_or_eq)
    qed
    then show ?thesis using IH j False by (auto simp: store_apply)
  qed
qed simp

lemma unat_end:
  assumes "unat (a :: u32) + unat n \<le> 2 ^ 32" and "0 < unat n"
  shows "unat (a + n - 1) = unat a + unat n - 1"
proof -
  have "unat (a + (n - 1)) = unat a + unat (n - 1)"
    using assms unat_pred [of n] by (intro unat_add_lem [THEN iffD1]) simp
  then show ?thesis using assms unat_pred [of n] by (simp add: algebra_simps)
qed

text \<open>Counting from the other end keeps an offset inside a run of \<open>n\<close> bytes.\<close>

lemma unat_mirror: "n \<noteq> 0 \<Longrightarrow> (unat (n - 1 - y :: u32) < unat n) = (unat y < unat n)"
proof -
  assume "n \<noteq> 0"
  then have "0 < unat n" by (simp add: unat_gt_0)
  moreover from this have "unat (n - 1) = unat n - 1" by (rule unat_pred)
  ultimately show ?thesis
    using unat_sub_if_size [of "n - 1" y] unat_u32_less [of y]
    by (auto simp: word_size simp del: unat_u32_less split: if_splits)
qed

lemma memmove_wr:
  assumes src: "unat src + unat n \<le> 2 ^ 32" and dest: "unat dest + unat n \<le> 2 ^ 32"
  shows "memmove m dest src n = (wr m dest (rd m src (unat n)), src < dest)"
proof (cases "dest \<le> src")
  case True
  have "rep_movsb False m dest src (unat n) = wr m dest (rd m src (unat n))"
    using rep_movsb_forward [OF _ src, of dest m] True
    by (intro ext) (simp add: wr_apply word_le_nat_alt)
  then show ?thesis using True by (simp add: memmove_def)
next
  case False
  have "rep_movsb True m (dest + n - 1) (src + n - 1) (unat n) = wr m dest (rd m src (unat n))"
  proof (cases "n = 0")
    case n: False
    have un: "unat (src + n - 1) = unat src + unat n - 1" "unat (dest + n - 1) = unat dest + unat n - 1"
      using src dest n by (auto simp: unat_end unat_gt_0)
    have mirror: "src + n - 1 - (dest + n - 1 - x) = src + (x - dest)" for x by simp
    have n0: "0 < unat n" using n by (simp add: unat_gt_0)
    have lt: "unat (src + n - 1) < unat (dest + n - 1)" "unat n \<le> unat (src + n - 1) + 1"
      using un False n0 by (auto simp: word_le_nat_alt)
    have win: "(unat (dest + n - 1 - x) < unat n) = (unat (x - dest) < unat n)" for x
      using unat_mirror [of n "x - dest"] n by (simp add: algebra_simps)
    show ?thesis
      by (intro ext) (simp only: rep_movsb_backward [OF lt] win mirror, simp add: wr_apply)
  qed simp
  then show ?thesis using False by (simp add: memmove_def)
qed

section \<open>Properties\<close>

text \<open>
  C4. \<open>memset\<close>, at any alignment of the block and for any length, stores the low byte of
  \<open>c\<close> in exactly the \<open>n\<close> bytes from \<open>s\<close> on and changes no other byte: the byte loop,
  the aligned dword stores and the byte tail cover the block without gap or overrun.
\<close>

theorem memset_correct:
  "memset m s c n x = (if unat (x - s) < unat n then ucast c else m x)"
  by (simp add: memset_wr wr_apply)

text \<open>
  C5. \<open>memcpy\<close> between blocks that do not overlap copies exactly \<open>n\<close> bytes, whatever the
  alignment, and leaves the source and everything else alone.
\<close>

theorem memcpy_correct:
  assumes "disj src (unat n) dest (unat n)"
  shows "rd (memcpy m dest src n) dest (unat n) = rd m src (unat n)
    \<and> rd (memcpy m dest src n) src (unat n) = rd m src (unat n)
    \<and> (\<forall>x. unat n \<le> unat (x - dest) \<longrightarrow> memcpy m dest src n x = m x)"
  using rd_wr_same [of "rd m src (unat n)" m dest] rd_wr_disj [of src "unat n" dest "rd m src (unat n)" m]
    assms
  by (simp add: memcpy_wr wr_apply)

lemma memcpy_correct_witness:
  "disj 1 6 103 6 \<and> rd (memcpy (\<lambda>a. if a < 7 then ucast a else 0) 103 1 6) 103 6 = [1, 2, 3, 4, 5, 6]"
proof -
  have u: "unat (6 :: u32) = 6" by simp
  have d: "disj 1 6 103 6" by (simp add: disj_def)
  have "rd (memcpy (\<lambda>a. if a < 7 then ucast a else 0) 103 1 6) 103 6
      = rd (\<lambda>a. if a < 7 then ucast a else 0) 1 6"
    using memcpy_correct [of 1 6 103, unfolded u, OF d] by blast
  also have "\<dots> = [1, 2, 3, 4, 5, 6]" by (simp add: rd_def upt_rec)
  finally show ?thesis using d by blast
qed

text \<open>
  C6. \<open>memmove\<close> is correct for any overlap: with both blocks inside the address space, the
  destination afterwards holds the bytes the source held before the call, and no byte outside
  the destination changes.  It returns with the direction flag set exactly when the
  destination is above the source: the routine does not clear the flag again.
\<close>

theorem memmove_correct:
  assumes "unat src + unat n \<le> 2 ^ 32" and "unat dest + unat n \<le> 2 ^ 32"
  shows "rd (fst (memmove m dest src n)) dest (unat n) = rd m src (unat n)
    \<and> (\<forall>x. unat n \<le> unat (x - dest) \<longrightarrow> fst (memmove m dest src n) x = m x)
    \<and> (snd (memmove m dest src n) \<longleftrightarrow> src < dest)"
  using rd_wr_same [of "rd m src (unat n)" m dest] by (simp add: memmove_wr [OF assms] wr_apply)

lemma memmove_correct_witness:
  "rd (fst (memmove (\<lambda>a. ucast a) 12 10 4)) 12 4 = [10, 11, 12, 13]"
proof -
  have u: "unat (4 :: u32) = 4" by simp
  have "rd (fst (memmove (\<lambda>a. ucast a) 12 10 4)) 12 4 = rd (\<lambda>a. ucast a) 10 4"
    using memmove_correct [of 10 4 12 "\<lambda>a. ucast a", unfolded u] by simp
  also have "\<dots> = [10, 11, 12, 13]" by (simp add: rd_def upt_rec)
  finally show ?thesis .
qed

end
