(* ===== verification/Tux_Ring.thy ===== *)
theory Tux_Ring
  imports Prelude
begin

text \<open>
  The byte rings of the tuxcontroller line discipline, \<^verbatim>\<open>mp2/module/tuxctl-ld.c\<close>:
  a 64-byte circular buffer with a start and an end index, one slot of which stays free.
  The locale \<open>byte_fifo\<close> states what the line discipline relies on (the ring is a bounded
  first-in first-out queue), \<open>fifo_loops\<close> extends it with the fill and drain loops; both are
  interpreted on the ring.
\<close>

section \<open>The ring\<close>

record ring =
  rbuf :: "u8 list"
  rstart :: nat
  rend :: nat

definition TUXCTL_BUFSIZE :: nat where "TUXCTL_BUFSIZE = 64"

definition buf_used :: "nat \<Rightarrow> nat \<Rightarrow> nat" where
  "buf_used s e = (if s \<le> e then e - s else TUXCTL_BUFSIZE + e - s)"

definition buf_room :: "nat \<Rightarrow> nat \<Rightarrow> nat" where
  "buf_room s e = TUXCTL_BUFSIZE - buf_used s e - 1"

definition buf_empty :: "nat \<Rightarrow> nat \<Rightarrow> bool" where
  "buf_empty s e \<longleftrightarrow> s = e"

definition buf_full :: "nat \<Rightarrow> nat \<Rightarrow> bool" where
  "buf_full s e \<longleftrightarrow> (e + 1) mod TUXCTL_BUFSIZE = s"

definition buf_incidx :: "nat \<Rightarrow> nat" where
  "buf_incidx i = (i + 1) mod TUXCTL_BUFSIZE"

text \<open>One round of the fill loops and of the drain loops.\<close>

definition ring_push :: "u8 \<Rightarrow> ring \<Rightarrow> ring" where
  "ring_push x r = r\<lparr>rbuf := (rbuf r)[rend r := x], rend := buf_incidx (rend r)\<rparr>"

definition ring_front :: "ring \<Rightarrow> u8" where
  "ring_front r = rbuf r ! rstart r"

definition ring_pop :: "ring \<Rightarrow> ring" where
  "ring_pop r = r\<lparr>rstart := buf_incidx (rstart r)\<rparr>"

text \<open>
  The fill loop of \<open>tuxctl_ldisc_rcv_buf\<close> and \<open>tuxctl_ldisc_put\<close> over the \<open>n\<close> bytes offered:
  the bytes left over and the ring.
\<close>

fun ring_fill :: "u8 list \<Rightarrow> ring \<Rightarrow> u8 list \<times> ring" where
  "ring_fill [] r = ([], r)"
| "ring_fill (x # xs) r =
     (if buf_full (rstart r) (rend r) then (x # xs, r) else ring_fill xs (ring_push x r))"

text \<open>The drain loop of \<open>tuxctl_ldisc_get\<close>, at most \<open>n\<close> bytes.\<close>

fun ring_drain :: "nat \<Rightarrow> ring \<Rightarrow> u8 list \<times> ring" where
  "ring_drain 0 r = ([], r)"
| "ring_drain (Suc n) r =
     (if buf_empty (rstart r) (rend r) then ([], r)
      else (let (xs, r') = ring_drain n (ring_pop r) in (ring_front r # xs, r')))"

section \<open>What a ring promises\<close>

text \<open>The bounded queue the line discipline relies on.\<close>

locale byte_fifo =
  fixes inv :: "'r \<Rightarrow> bool"
    and contents :: "'r \<Rightarrow> u8 list"
    and cap :: nat
    and full empty :: "'r \<Rightarrow> bool"
    and push :: "u8 \<Rightarrow> 'r \<Rightarrow> 'r"
    and front :: "'r \<Rightarrow> u8"
    and pop :: "'r \<Rightarrow> 'r"
  assumes bounded: "inv r \<Longrightarrow> length (contents r) \<le> cap"
    and full_iff: "inv r \<Longrightarrow> full r \<longleftrightarrow> length (contents r) = cap"
    and empty_iff: "inv r \<Longrightarrow> empty r \<longleftrightarrow> contents r = []"
    and push_inv: "inv r \<Longrightarrow> inv (push x r)"
    and push_contents: "inv r \<Longrightarrow> \<not> full r \<Longrightarrow> contents (push x r) = contents r @ [x]"
    and front_hd: "inv r \<Longrightarrow> \<not> empty r \<Longrightarrow> front r = hd (contents r)"
    and pop_inv: "inv r \<Longrightarrow> inv (pop r)"
    and pop_contents: "inv r \<Longrightarrow> \<not> empty r \<Longrightarrow> contents (pop r) = tl (contents r)"

text \<open>The loops over it: what a filler and a drainer do, one byte at a time.\<close>

locale fifo_loops = byte_fifo inv contents cap full empty push front pop
  for inv :: "'r \<Rightarrow> bool" and contents cap full empty push front pop +
  fixes fill :: "u8 list \<Rightarrow> 'r \<Rightarrow> u8 list \<times> 'r"
    and drain :: "nat \<Rightarrow> 'r \<Rightarrow> u8 list \<times> 'r"
  assumes fill_Nil: "fill [] r = ([], r)"
    and fill_Cons: "fill (x # xs) r = (if full r then (x # xs, r) else fill xs (push x r))"
    and drain_0: "drain 0 r = ([], r)"
    and drain_Suc: "drain (Suc n) r =
      (if empty r then ([], r) else (front r # fst (drain n (pop r)), snd (drain n (pop r))))"
begin

lemma fill_spec:
  "inv r \<Longrightarrow>
     inv (snd (fill xs r))
     \<and> contents (snd (fill xs r)) = contents r @ take (cap - length (contents r)) xs
     \<and> fst (fill xs r) = drop (cap - length (contents r)) xs"
proof (induction xs arbitrary: r)
  case Nil
  then show ?case by (simp add: fill_Nil)
next
  case (Cons x xs)
  show ?case
  proof (cases "full r")
    case True
    then show ?thesis using Cons.prems by (simp add: fill_Cons full_iff)
  next
    case False
    then have "length (contents r) < cap"
      using bounded [OF Cons.prems] full_iff [OF Cons.prems] by simp
    then obtain k where k: "cap = length (contents r) + Suc k" by (metis less_imp_Suc_add add_Suc_right)
    then show ?thesis
      using False Cons.IH [OF push_inv [OF Cons.prems], of x] push_contents [OF Cons.prems False]
      by (simp add: fill_Cons)
  qed
qed

lemma drain_spec:
  "inv r \<Longrightarrow>
     inv (snd (drain n r)) \<and> fst (drain n r) = take n (contents r)
     \<and> contents (snd (drain n r)) = drop n (contents r)"
proof (induction n arbitrary: r)
  case 0
  then show ?case by (simp add: drain_0)
next
  case (Suc n)
  show ?case
  proof (cases "empty r")
    case True
    then show ?thesis using Suc.prems by (simp add: drain_Suc empty_iff)
  next
    case False
    then obtain y ys where "contents r = y # ys"
      using empty_iff [OF Suc.prems] by (cases "contents r") auto
    then show ?thesis
      using False Suc.IH [OF pop_inv [OF Suc.prems]] front_hd [OF Suc.prems] pop_contents [OF Suc.prems]
      by (simp add: drain_Suc)
  qed
qed

text \<open>First in, first out: what is filled into an empty queue is drained in the same order.\<close>

lemma fill_drain:
  "inv r \<Longrightarrow> contents r = [] \<Longrightarrow> fst (drain n (snd (fill xs r))) = take (min n cap) xs"
  using fill_spec [of r xs] drain_spec [of "snd (fill xs r)" n] by simp

end

section \<open>The ring keeps the promise\<close>

definition ring_inv :: "ring \<Rightarrow> bool" where
  "ring_inv r \<longleftrightarrow> length (rbuf r) = TUXCTL_BUFSIZE \<and> rstart r < TUXCTL_BUFSIZE
     \<and> rend r < TUXCTL_BUFSIZE"

definition ring_bytes :: "ring \<Rightarrow> u8 list" where
  "ring_bytes r =
     map (\<lambda>i. rbuf r ! ((rstart r + i) mod TUXCTL_BUFSIZE)) [0..<buf_used (rstart r) (rend r)]"

lemma length_ring_bytes [simp]: "length (ring_bytes r) = buf_used (rstart r) (rend r)"
  by (simp add: ring_bytes_def)

lemma buf_used_bound: "s < TUXCTL_BUFSIZE \<Longrightarrow> e < TUXCTL_BUFSIZE \<Longrightarrow> buf_used s e \<le> 63"
  by (auto simp: buf_used_def TUXCTL_BUFSIZE_def)

lemma buf_full_used:
  "s < TUXCTL_BUFSIZE \<Longrightarrow> e < TUXCTL_BUFSIZE \<Longrightarrow> buf_full s e \<longleftrightarrow> buf_used s e = 63"
  by (cases "e = 63") (auto simp: buf_full_def buf_used_def TUXCTL_BUFSIZE_def)

lemma buf_empty_used:
  "s < TUXCTL_BUFSIZE \<Longrightarrow> e < TUXCTL_BUFSIZE \<Longrightarrow> buf_empty s e \<longleftrightarrow> buf_used s e = 0"
  by (auto simp: buf_empty_def buf_used_def TUXCTL_BUFSIZE_def)

lemma buf_used_push:
  "s < TUXCTL_BUFSIZE \<Longrightarrow> e < TUXCTL_BUFSIZE \<Longrightarrow> \<not> buf_full s e \<Longrightarrow>
     buf_used s (buf_incidx e) = Suc (buf_used s e)"
  by (cases "e = 63") (auto simp: buf_incidx_def buf_full_def buf_used_def TUXCTL_BUFSIZE_def)

lemma buf_used_pop:
  "s < TUXCTL_BUFSIZE \<Longrightarrow> e < TUXCTL_BUFSIZE \<Longrightarrow> \<not> buf_empty s e \<Longrightarrow>
     buf_used s e = Suc (buf_used (buf_incidx s) e)"
  by (cases "s = 63") (auto simp: buf_incidx_def buf_empty_def buf_used_def TUXCTL_BUFSIZE_def)

lemma buf_used_end:
  "s < TUXCTL_BUFSIZE \<Longrightarrow> e < TUXCTL_BUFSIZE \<Longrightarrow> (s + buf_used s e) mod TUXCTL_BUFSIZE = e"
  by (auto simp: buf_used_def TUXCTL_BUFSIZE_def)

lemma buf_used_inside:
  assumes "s < TUXCTL_BUFSIZE" and "e < TUXCTL_BUFSIZE" and "i < buf_used s e"
  shows "e \<noteq> (s + i) mod TUXCTL_BUFSIZE"
proof (cases "s + i < TUXCTL_BUFSIZE")
  case True
  then show ?thesis using assms by (auto simp: buf_used_def split: if_splits)
next
  case False
  then have "(s + i) mod TUXCTL_BUFSIZE = s + i - TUXCTL_BUFSIZE"
    using assms by (subst mod_if) (auto simp: buf_used_def split: if_splits)
  then show ?thesis using assms False by (auto simp: buf_used_def split: if_splits)
qed

lemma incidx_less [simp]: "buf_incidx i < TUXCTL_BUFSIZE"
  by (simp add: buf_incidx_def TUXCTL_BUFSIZE_def)

lemma ring_push_bytes:
  assumes "ring_inv r" and "\<not> buf_full (rstart r) (rend r)"
  shows "ring_bytes (ring_push x r) = ring_bytes r @ [x]"
proof -
  have b: "rstart r < TUXCTL_BUFSIZE" "rend r < TUXCTL_BUFSIZE" "length (rbuf r) = TUXCTL_BUFSIZE"
    using assms(1) by (simp_all add: ring_inv_def)
  show ?thesis
    using b buf_used_push [OF b(1,2) assms(2)] buf_used_end [OF b(1,2)] buf_used_inside [OF b(1,2)]
    by (auto simp: ring_bytes_def ring_push_def)
qed

lemma ring_pop_bytes:
  assumes "ring_inv r" and "\<not> buf_empty (rstart r) (rend r)"
  shows "ring_bytes r = ring_front r # ring_bytes (ring_pop r)"
proof -
  have b: "rstart r < TUXCTL_BUFSIZE" "rend r < TUXCTL_BUFSIZE"
    using assms(1) by (simp_all add: ring_inv_def)
  have u: "buf_used (rstart r) (rend r) = Suc (buf_used (buf_incidx (rstart r)) (rend r))"
    by (rule buf_used_pop [OF b assms(2)])
  have "rbuf r ! ((rstart r + Suc i) mod TUXCTL_BUFSIZE)
      = rbuf r ! ((buf_incidx (rstart r) + i) mod TUXCTL_BUFSIZE)" for i
    by (simp add: buf_incidx_def mod_simps)
  then show ?thesis
    using u b(1)
    by (intro nth_equalityI)
      (auto simp: ring_bytes_def ring_pop_def ring_front_def nth_Cons split: nat.splits simp del: upt_Suc)
qed

interpretation rb: byte_fifo ring_inv ring_bytes 63
  "\<lambda>r. buf_full (rstart r) (rend r)" "\<lambda>r. buf_empty (rstart r) (rend r)"
  ring_push ring_front ring_pop
proof unfold_locales
  show "ring_inv r \<Longrightarrow> length (ring_bytes r) \<le> 63" for r
    by (simp add: ring_inv_def buf_used_bound)
  show "ring_inv r \<Longrightarrow> buf_full (rstart r) (rend r) \<longleftrightarrow> length (ring_bytes r) = 63" for r
    by (simp add: ring_inv_def buf_full_used)
  show "ring_inv r \<Longrightarrow> buf_empty (rstart r) (rend r) \<longleftrightarrow> ring_bytes r = []" for r
    by (simp add: ring_inv_def buf_empty_used flip: length_0_conv)
  show "ring_inv r \<Longrightarrow> ring_inv (ring_push x r)" for r x
    by (simp add: ring_inv_def ring_push_def)
  show "ring_inv r \<Longrightarrow> ring_inv (ring_pop r)" for r
    by (simp add: ring_inv_def ring_pop_def)
qed (simp_all add: ring_push_bytes ring_pop_bytes)

interpretation rl: fifo_loops ring_inv ring_bytes 63
  "\<lambda>r. buf_full (rstart r) (rend r)" "\<lambda>r. buf_empty (rstart r) (rend r)"
  ring_push ring_front ring_pop ring_fill ring_drain
  by unfold_locales (auto simp: case_prod_beta Let_def)

lemmas ring_specs = rl.fill_spec rl.drain_spec

section \<open>Properties\<close>

text \<open>
  C8. The ring is a bounded queue.  Filling appends, in order, as many of the offered bytes as
  fit in the 63 usable slots and hands back the others; draining removes the oldest bytes, at
  most \<open>n\<close> of them; both keep the indices inside the buffer, across any number of
  wrap-arounds.
\<close>

theorem ring_refines_queue:
  assumes "ring_inv r"
  shows "ring_inv (snd (ring_fill xs r)) \<and> ring_inv (snd (ring_drain n r))
    \<and> ring_bytes (snd (ring_fill xs r)) = ring_bytes r @ take (63 - length (ring_bytes r)) xs
    \<and> fst (ring_fill xs r) = drop (63 - length (ring_bytes r)) xs
    \<and> fst (ring_drain n r) = take n (ring_bytes r)
    \<and> ring_bytes (snd (ring_drain n r)) = drop n (ring_bytes r)"
  using ring_specs(1) [OF assms, of xs] ring_specs(2) [OF assms, of n] by blast

lemma ring_refines_queue_witness:
  "fst (ring_drain 3 \<lparr>rbuf = replicate 64 9, rstart = 62, rend = 1\<rparr>) = [9, 9, 9]"
proof -
  have i: "ring_inv \<lparr>rbuf = replicate 64 9, rstart = 62, rend = 1\<rparr>"
    by (simp add: ring_inv_def TUXCTL_BUFSIZE_def)
  have "fst (ring_drain 3 \<lparr>rbuf = replicate 64 9, rstart = 62, rend = 1\<rparr>)
      = take 3 (ring_bytes \<lparr>rbuf = replicate 64 9, rstart = 62, rend = 1\<rparr>)"
    using ring_refines_queue [OF i, of "[]" 3] by blast
  then show ?thesis
    by (simp add: ring_bytes_def buf_used_def TUXCTL_BUFSIZE_def upt_rec)
qed

end
