(* ===== verification/Tux_Driver.thy ===== *)
theory Tux_Driver
  imports Tux_Ring
begin

text \<open>
  The tuxcontroller driver: the line discipline of \<^verbatim>\<open>mp2/module/tuxctl-ld.c\<close> over its two
  rings, with the packet framing of \<open>tuxctl_ldisc_data_callback\<close>, and the packet handler and
  the ioctls of \<^verbatim>\<open>mp2/module/tuxctl-ioctl.c\<close>.  One state record holds the discipline data
  behind \<open>tty->disc_data\<close> and the statics of both files; \<open>None\<close> results are dereferences
  of a null \<open>disc_data\<close>.

  Outside the repository: the serial driver below (\<open>tty->driver\<close>) is the parameter \<open>wroom\<close>,
  the room its \<open>write_room\<close> reports at its n-th call, and the field \<open>wire\<close>, the buffers
  handed to its \<open>write\<close>; \<open>kmalloc\<close> is the block it returns; user memory is a partial map
  from addresses to bytes, undefined where an access faults.  The spin locks serialise the
  operations, which are therefore single steps here.
\<close>

section \<open>State\<close>

record ldisc =
  rx :: ring
  tx :: ring

record tux =
  disc_data :: "ldisc option"
  saved :: "u8 list"
  n_saved :: nat
  b_static :: u32
  c_static :: u32
  spam :: int
  led_buffer :: "u8 list"
  wire :: "u8 list list"
  room_calls :: nat

definition ENOMEM :: int where "ENOMEM = 12"
definition EINVAL :: int where "EINVAL = 22"

section \<open>The line discipline\<close>

text \<open>\<open>blk\<close> is what \<open>kmalloc\<close> returns: a null pointer, or a block with arbitrary bytes.\<close>

definition tuxctl_ldisc_open :: "ldisc option \<Rightarrow> tux \<Rightarrow> int \<times> tux" where
  "tuxctl_ldisc_open blk t =
     (case blk of None \<Rightarrow> (- ENOMEM, t)
      | Some data \<Rightarrow> (0, t\<lparr>disc_data :=
                              Some (data\<lparr>rx := (rx data)\<lparr>rstart := 0, rend := 0\<rparr>,
                                          tx := (tx data)\<lparr>rstart := 0, rend := 0\<rparr>\<rparr>)\<rparr>))"

definition tuxctl_ldisc_close :: "tux \<Rightarrow> tux" where
  "tuxctl_ldisc_close t = t\<lparr>disc_data := None\<rparr>"

text \<open>
  The loop of \<open>tuxctl_ldisc_write_wakeup\<close>: \<open>n\<close> bytes are in \<open>buf\<close>, and it goes on while
  \<open>n <= room\<close>.
\<close>

function wakeup_loop :: "int \<Rightarrow> u8 list \<Rightarrow> ring \<Rightarrow> u8 list \<times> ring" where
  "wakeup_loop room buf r =
     (if int (length buf) \<le> room \<and> \<not> buf_empty (rstart r) (rend r)
      then wakeup_loop room (buf @ [ring_front r]) (ring_pop r)
      else (buf, r))"
  by pat_completeness auto
termination
  by (relation "measure (\<lambda>(room, buf, r). nat (room + 1 - int (length buf)))") auto

declare wakeup_loop.simps [simp del]

definition tuxctl_ldisc_write_wakeup :: "(nat \<Rightarrow> int) \<Rightarrow> tux \<Rightarrow> tux option" where
  "tuxctl_ldisc_write_wakeup wroom t =
     (case disc_data t of None \<Rightarrow> None
      | Some d \<Rightarrow>
          (let (buf, r) = wakeup_loop (wroom (room_calls t)) [] (tx d)
           in Some (t\<lparr>disc_data := Some (d\<lparr>tx := r\<rparr>), wire := wire t @ [buf],
                      room_calls := room_calls t + 1\<rparr>)))"

text \<open>\<open>tuxctl_ldisc_get\<close>: the bytes copied to the caller's buffer.\<close>

definition tuxctl_ldisc_get :: "nat \<Rightarrow> tux \<Rightarrow> (u8 list \<times> tux) option" where
  "tuxctl_ldisc_get n t =
     (case disc_data t of None \<Rightarrow> None
      | Some d \<Rightarrow> (let (xs, r) = ring_drain n (rx d)
                   in Some (xs, t\<lparr>disc_data := Some (d\<lparr>rx := r\<rparr>)\<rparr>)))"

text \<open>\<open>tuxctl_ldisc_put\<close>: the number of bytes not written, and the state.\<close>

definition tuxctl_ldisc_put :: "(nat \<Rightarrow> int) \<Rightarrow> u8 list \<Rightarrow> tux \<Rightarrow> (nat \<times> tux) option" where
  "tuxctl_ldisc_put wroom xs t =
     (case disc_data t of None \<Rightarrow> None
      | Some d \<Rightarrow>
          (let (rest, r) = ring_fill xs (tx d)
           in map_option (\<lambda>t'. (length rest, t'))
                (tuxctl_ldisc_write_wakeup wroom (t\<lparr>disc_data := Some (d\<lparr>tx := r\<rparr>)\<rparr>))))"

section \<open>Packets\<close>

definition MTCP_RESP :: "u8 \<Rightarrow> u8" where
  "MTCP_RESP n = (n AND 7) OR push_bit 1 (n AND 0x18) OR 0x40"

definition MTCP_CMD :: "u8 \<Rightarrow> u8" where
  "MTCP_CMD c = 0xC0 OR c"

definition MTCP_ACK :: u8 where "MTCP_ACK = MTCP_RESP 0"
definition MTCP_BIOC_EVENT :: u8 where "MTCP_BIOC_EVENT = MTCP_RESP 1"
definition MTCP_RESET :: u8 where "MTCP_RESET = MTCP_RESP 6"
definition MTCP_BIOC_ON :: u8 where "MTCP_BIOC_ON = MTCP_CMD 3"
definition MTCP_LED_SET :: u8 where "MTCP_LED_SET = MTCP_CMD 6"
definition MTCP_LED_USR :: u8 where "MTCP_LED_USR = MTCP_CMD 8"

definition LED_BUFF_SIZE :: nat where "LED_BUFF_SIZE = 6"

text \<open>Several puts in a row, as the reset handler and \<open>TUX_INIT\<close> make them.\<close>

primrec put_all :: "(nat \<Rightarrow> int) \<Rightarrow> u8 list list \<Rightarrow> tux \<Rightarrow> tux option" where
  "put_all wroom [] t = Some t"
| "put_all wroom (xs # xss) t =
     Option.bind (tuxctl_ldisc_put wroom xs t) (\<lambda>(_, t'). put_all wroom xss t')"

definition tuxctl_handle_packet ::
    "(nat \<Rightarrow> int) \<Rightarrow> u8 \<times> u8 \<times> u8 \<Rightarrow> tux \<Rightarrow> tux option" where
  "tuxctl_handle_packet wroom p t =
     (case p of (a, b, c) \<Rightarrow>
        if a = MTCP_BIOC_EVENT
        then Some (t\<lparr>b_static := NOT (ucast b), c_static := NOT (ucast c)\<rparr>)
        else if a = MTCP_ACK then Some (t\<lparr>spam := 0\<rparr>)
        else if a = MTCP_RESET
        then put_all wroom [[MTCP_BIOC_ON], [MTCP_LED_USR], led_buffer t] t
        else Some t)"

text \<open>The framing test of \<open>tuxctl_ldisc_data_callback\<close>.\<close>

definition framed :: "u8 \<Rightarrow> u8 \<Rightarrow> u8 \<Rightarrow> bool" where
  "framed p0 p1 p2 \<longleftrightarrow> p0 AND 0x80 = 0 \<and> p1 AND 0x80 \<noteq> 0 \<and> p2 AND 0x80 \<noteq> 0"

text \<open>The loop over \<open>packet[0..n)\<close>: the index where it stops and the state.\<close>

function packet_loop ::
    "(nat \<Rightarrow> int) \<Rightarrow> u8 list \<Rightarrow> nat \<Rightarrow> tux \<Rightarrow> (nat \<times> tux) option" where
  "packet_loop wroom packet i t =
     (if int i < int (length packet) - 2
      then (if framed (packet ! i) (packet ! (i + 1)) (packet ! (i + 2))
            then Option.bind
                   (tuxctl_handle_packet wroom (packet ! i, packet ! (i + 1), packet ! (i + 2)) t)
                   (packet_loop wroom packet (i + 3))
            else packet_loop wroom packet (i + 1) t)
      else Some (i, t))"
  by pat_completeness auto
termination
  by (relation "measure (\<lambda>(wroom, packet, i, t). length packet - i)") auto

declare packet_loop.simps [simp del]

text \<open>The leftover bytes overwrite the first \<open>n_saved\<close> slots of the two-byte array \<open>saved\<close>.\<close>

definition tuxctl_ldisc_data_callback :: "(nat \<Rightarrow> int) \<Rightarrow> tux \<Rightarrow> tux option" where
  "tuxctl_ldisc_data_callback wroom t =
     Option.bind (tuxctl_ldisc_get (12 - n_saved t) t) (\<lambda>(xs, t1).
       (let packet = take (n_saved t) (saved t) @ xs
        in Option.bind (packet_loop wroom packet 0 t1) (\<lambda>(i, t2).
             (let left = drop i packet
              in if length left \<le> 2
                 then Some (t2\<lparr>n_saved := length left, saved := left @ drop (length left) (saved t2)\<rparr>)
                 else None))))"

definition tuxctl_ldisc_rcv_buf :: "(nat \<Rightarrow> int) \<Rightarrow> u8 list \<Rightarrow> tux \<Rightarrow> tux option" where
  "tuxctl_ldisc_rcv_buf wroom cp t =
     (case disc_data t of None \<Rightarrow> Some t
      | Some d \<Rightarrow> tuxctl_ldisc_data_callback wroom
                    (t\<lparr>disc_data := Some (d\<lparr>rx := snd (ring_fill cp (rx d))\<rparr>)\<rparr>))"

section \<open>The ioctls\<close>

definition TUX_SET_LED :: u32 where "TUX_SET_LED = 0x80044510"
definition TUX_BUTTONS :: u32 where "TUX_BUTTONS = 0x40044512"
definition TUX_INIT :: u32 where "TUX_INIT = 0x4513"

definition ledmap :: "u8 list" where
  "ledmap = [0xE7, 0x06, 0xCB, 0x8F, 0x2E, 0xAD, 0xED, 0x86,
             0xEF, 0xAF, 0xEE, 0x6D, 0xE1, 0x4F, 0xE9, 0xE8]"

definition DEC_PT_POS :: u8 where "DEC_PT_POS = 0x10"

definition buttons_byte :: "u32 \<Rightarrow> u32 \<Rightarrow> u32" where
  "buttons_byte b c =
     (let flag = (\<lambda>v mask bits. if v AND mask = (mask :: u32) then bits else (0 :: u32))
      in flag b 0x08 0x08 OR flag b 0x04 0x04 OR flag b 0x02 0x02 OR flag b 0x01 0x01
         OR flag c 0x08 0x80 OR flag c 0x04 0x20 OR flag c 0x02 0x40 OR flag c 0x01 0x10)"

text \<open>One LED: \<open>on\<close> and \<open>pt\<close> are its mask bits, the digit is the nibble at \<open>shift\<close>.\<close>

definition led_byte :: "u32 \<Rightarrow> u32 \<Rightarrow> u32 \<Rightarrow> nat \<Rightarrow> u32 \<Rightarrow> u8" where
  "led_byte arg on nibble shift pt =
     (let c = (if arg AND on = on then ledmap ! unat (drop_bit shift (arg AND nibble)) else 0)
      in if arg AND pt = pt then c OR DEC_PT_POS else c)"

definition led_packet :: "u32 \<Rightarrow> u8 list" where
  "led_packet arg =
     [MTCP_LED_SET, 0x0F,
      led_byte arg 0x00010000 0x0000000F 0 0x01000000,
      led_byte arg 0x00020000 0x000000F0 4 0x02000000,
      led_byte arg 0x00040000 0x00000F00 8 0x04000000,
      led_byte arg 0x00080000 0x0000F000 12 0x08000000]"

type_synonym user_mem = "u32 \<Rightarrow> u8 option"

definition tuxctl_ioctl ::
    "(nat \<Rightarrow> int) \<Rightarrow> u32 \<Rightarrow> u32 \<Rightarrow> user_mem \<Rightarrow> tux \<Rightarrow> (int \<times> user_mem \<times> tux) option" where
  "tuxctl_ioctl wroom cmd arg um t =
     (if cmd = TUX_INIT then
        map_option (\<lambda>t'. (0, um, t')) (put_all wroom [[MTCP_BIOC_ON], [MTCP_LED_USR]] t)
      else if cmd = TUX_BUTTONS then
        (case um arg of None \<Rightarrow> Some (- EINVAL, um, t)
         | Some _ \<Rightarrow>
             Some (0, um(arg \<mapsto> ucast (buttons_byte (b_static t) (c_static t))), t))
      else if cmd = TUX_SET_LED then
        (if spam t = 1 then Some (0, um, t)
         else map_option (\<lambda>(_, t'). (0, um, t'\<lparr>spam := 1\<rparr>))
                (tuxctl_ldisc_put wroom (led_packet arg) (t\<lparr>led_buffer := led_packet arg\<rparr>)))
      else Some (- EINVAL, um, t))"

section \<open>The line discipline keeps its invariant\<close>

lemma wakeup_loop_drain:
  "wakeup_loop room buf r =
     (buf @ fst (ring_drain (nat (room + 1 - int (length buf))) r),
      snd (ring_drain (nat (room + 1 - int (length buf))) r))"
proof (induction room buf r rule: wakeup_loop.induct)
  case (1 room buf r)
  show ?case
  proof (cases "int (length buf) \<le> room")
    case True
    then have "nat (room + 1 - int (length buf)) = Suc (nat (room + 1 - int (length (buf @ [x]))))" for x :: u8
      by simp
    then show ?thesis using 1 True
      by (subst wakeup_loop.simps) (auto simp: Let_def case_prod_beta)
  next
    case False
    then show ?thesis by (subst wakeup_loop.simps) simp
  qed
qed

definition disc_ok :: "ldisc option \<Rightarrow> bool" where
  "disc_ok d \<longleftrightarrow> (\<exists>x. d = Some x \<and> ring_inv (rx x) \<and> ring_inv (tx x))"

definition tux_inv :: "tux \<Rightarrow> bool" where
  "tux_inv t \<longleftrightarrow> disc_ok (disc_data t) \<and> n_saved t \<le> 2 \<and> length (saved t) = 2
     \<and> length (led_buffer t) = LED_BUFF_SIZE"

text \<open>What the packet side leaves alone: the received bytes and the saved ones.\<close>

definition same_rx :: "tux \<Rightarrow> tux \<Rightarrow> bool" where
  "same_rx t t' \<longleftrightarrow> map_option rx (disc_data t') = map_option rx (disc_data t)
     \<and> saved t' = saved t \<and> n_saved t' = n_saved t \<and> led_buffer t' = led_buffer t"

lemma same_rx_refl [simp]: "same_rx t t"
  by (simp add: same_rx_def)

lemma same_rx_trans: "same_rx t u \<Longrightarrow> same_rx u v \<Longrightarrow> same_rx t v"
  by (simp add: same_rx_def)

lemma put_ok:
  assumes "tux_inv t"
  shows "\<exists>r t'. tuxctl_ldisc_put w xs t = Some (r, t') \<and> tux_inv t' \<and> same_rx t t'"
proof -
  obtain d where d: "disc_data t = Some d" "ring_inv (rx d)" "ring_inv (tx d)"
    using assms by (auto simp: tux_inv_def disc_ok_def)
  have "ring_inv (snd (ring_fill xs (tx d)))" using ring_specs(1) [OF d(3)] by blast
  then have "ring_inv (snd (ring_drain n (snd (ring_fill xs (tx d)))))" for n
    using ring_specs(2) by blast
  then show ?thesis using assms d
    by (simp add: tuxctl_ldisc_put_def tuxctl_ldisc_write_wakeup_def case_prod_beta Let_def
        wakeup_loop_drain tux_inv_def disc_ok_def same_rx_def)
qed

lemma put_all_ok:
  "tux_inv t \<Longrightarrow> \<exists>t'. put_all w xss t = Some t' \<and> tux_inv t' \<and> same_rx t t'"
proof (induction xss arbitrary: t)
  case (Cons xs xss)
  then obtain r t1 where "tuxctl_ldisc_put w xs t = Some (r, t1)" "tux_inv t1" "same_rx t t1"
    using put_ok by blast
  then show ?case using Cons.IH [of t1] by (auto intro: same_rx_trans)
qed simp

lemma handle_packet_ok:
  assumes "tux_inv t"
  shows "\<exists>t'. tuxctl_handle_packet w p t = Some t' \<and> tux_inv t' \<and> same_rx t t'"
proof -
  obtain a b c where "p = (a, b, c)" by (cases p)
  then show ?thesis
    using assms put_all_ok [OF assms, of w "[[MTCP_BIOC_ON], [MTCP_LED_USR], led_buffer t]"]
    by (auto simp: tuxctl_handle_packet_def tux_inv_def same_rx_def)
qed

section \<open>Framing of the byte stream\<close>

text \<open>
  Reference decoding of a whole stream: the packets in it, and the one or two bytes at its end
  that may still begin a packet.
\<close>

fun frames :: "u8 list \<Rightarrow> (u8 \<times> u8 \<times> u8) list" where
  "frames (a # b # c # xs) =
     (if framed a b c then (a, b, c) # frames xs else frames (b # c # xs))"
| "frames _ = []"

fun frames_left :: "u8 list \<Rightarrow> u8 list" where
  "frames_left (a # b # c # xs) =
     (if framed a b c then frames_left xs else frames_left (b # c # xs))"
| "frames_left xs = xs"

lemma length_frames_left: "length (frames_left xs) \<le> 2"
  by (induction xs rule: frames_left.induct) auto

lemma length_frames_left_le: "length (frames_left xs) \<le> length xs"
  by (induction xs rule: frames_left.induct) auto

lemma drop_frames_left: "drop (length xs - length (frames_left xs)) xs = frames_left xs"
proof (induction xs rule: frames_left.induct)
  case (1 a b c xs)
  then show ?case
    using length_frames_left_le [of xs] length_frames_left_le [of "b # c # xs"]
    by (auto simp: Suc_diff_le numeral_eq_Suc)
qed simp_all

lemma frames_append: "frames (xs @ ys) = frames xs @ frames (frames_left xs @ ys)"
  by (induction xs rule: frames.induct) auto

lemma frames_left_append: "frames_left (xs @ ys) = frames_left (frames_left xs @ ys)"
  by (induction xs rule: frames.induct) auto

primrec handle_all :: "(nat \<Rightarrow> int) \<Rightarrow> (u8 \<times> u8 \<times> u8) list \<Rightarrow> tux \<Rightarrow> tux option" where
  "handle_all w [] t = Some t"
| "handle_all w (p # ps) t = Option.bind (tuxctl_handle_packet w p t) (handle_all w ps)"

lemma handle_all_append:
  "handle_all w (ps @ qs) t = Option.bind (handle_all w ps t) (handle_all w qs)"
  by (induction ps arbitrary: t) (auto split: Option.bind_splits)

lemma handle_all_ok:
  "tux_inv t \<Longrightarrow> \<exists>t'. handle_all w ps t = Some t' \<and> tux_inv t' \<and> same_rx t t'"
proof (induction ps arbitrary: t)
  case (Cons p ps)
  then obtain t1 where "tuxctl_handle_packet w p t = Some t1" "tux_inv t1" "same_rx t t1"
    using handle_packet_ok by blast
  then show ?case using Cons.IH [of t1] by (auto intro: same_rx_trans)
qed simp

lemma drop_three: "i + 2 < length xs \<Longrightarrow>
    drop i xs = xs ! i # xs ! (i + 1) # xs ! (i + 2) # drop (i + 3) xs"
  by (simp add: Cons_nth_drop_Suc numeral_eq_Suc flip: Suc_eq_plus1)

lemma packet_loop_frames:
  "i \<le> length packet \<Longrightarrow> packet_loop w packet i t =
     map_option (\<lambda>t'. (length packet - length (frames_left (drop i packet)), t'))
       (handle_all w (frames (drop i packet)) t)"
proof (induction w packet i t rule: packet_loop.induct)
  case (1 w packet i t)
  show ?case
  proof (cases "i + 2 < length packet")
    case True
    note d = drop_three [OF True]
    have d1: "drop (Suc i) packet = packet ! Suc i # packet ! Suc (Suc i) # drop (i + 3) packet"
      using True by (simp add: Cons_nth_drop_Suc numeral_eq_Suc flip: Suc_eq_plus1)
    show ?thesis
      using 1 True by (subst packet_loop.simps) (auto simp: d d1 split: Option.bind_splits)
  next
    case False
    then have "length (drop i packet) \<le> 2" by simp
    then have "frames (drop i packet) = []" "frames_left (drop i packet) = drop i packet"
      by (cases "drop i packet" rule: frames.cases; simp)+
    then show ?thesis using False "1.prems" by (subst packet_loop.simps) simp
  qed
qed

text \<open>The bytes received and not yet decoded, oldest first.\<close>

definition pending :: "tux \<Rightarrow> u8 list" where
  "pending t = take (n_saved t) (saved t) @
     (case disc_data t of None \<Rightarrow> [] | Some d \<Rightarrow> ring_bytes (rx d))"

text \<open>The state without the receive side, on which the packet handler does not depend.\<close>

definition strip :: "tux \<Rightarrow> tux" where
  "strip t = t\<lparr>saved := [], n_saved := 0,
     disc_data := map_option (\<lambda>d. d\<lparr>rx := \<lparr>rbuf = [], rstart = 0, rend = 0\<rparr>\<rparr>) (disc_data t)\<rparr>"

lemma put_strip:
  "tuxctl_ldisc_put w xs (strip t) = map_option (map_prod id strip) (tuxctl_ldisc_put w xs t)"
  by (cases "disc_data t")
    (simp_all add: tuxctl_ldisc_put_def tuxctl_ldisc_write_wakeup_def strip_def case_prod_beta Let_def)

lemma put_all_strip: "put_all w xss (strip t) = map_option strip (put_all w xss t)"
  by (induction xss arbitrary: t) (auto simp: put_strip split: Option.bind_splits)

lemma handle_packet_strip:
  "tuxctl_handle_packet w p (strip t) = map_option strip (tuxctl_handle_packet w p t)"
proof -
  have "led_buffer (strip t) = led_buffer t" by (simp add: strip_def)
  then show ?thesis
    by (cases p) (simp add: tuxctl_handle_packet_def put_all_strip del: put_all.simps, simp add: strip_def)
qed

lemma handle_all_strip: "handle_all w ps (strip t) = map_option strip (handle_all w ps t)"
  by (induction ps arbitrary: t) (auto simp: handle_packet_strip split: Option.bind_splits)

lemma callback_frames:
  assumes inv: "tux_inv t"
  shows "\<exists>t'. tuxctl_ldisc_data_callback w t = Some t' \<and> tux_inv t'
    \<and> handle_all w (frames (take 12 (pending t))) (strip t) = Some (strip t')
    \<and> pending t' = frames_left (take 12 (pending t)) @ drop 12 (pending t)"
proof -
  obtain d where d: "disc_data t = Some d" "ring_inv (rx d)" "ring_inv (tx d)"
    using inv by (auto simp: tux_inv_def disc_ok_def)
  have ns: "n_saved t \<le> 2" "length (saved t) = 2" using inv by (simp_all add: tux_inv_def)
  let ?k = "12 - n_saved t"
  let ?t1 = "t\<lparr>disc_data := Some (d\<lparr>rx := snd (ring_drain ?k (rx d))\<rparr>)\<rparr>"
  define pkt where "pkt = take (n_saved t) (saved t) @ take ?k (ring_bytes (rx d))"
  have pk: "pkt = take 12 (pending t)" "drop 12 (pending t) = drop ?k (ring_bytes (rx d))"
    using ns d by (simp_all add: pending_def pkt_def)
  have spec: "fst (ring_drain ?k (rx d)) = take ?k (ring_bytes (rx d))"
    "ring_inv (snd (ring_drain ?k (rx d)))"
    "ring_bytes (snd (ring_drain ?k (rx d))) = drop ?k (ring_bytes (rx d))"
    using ring_specs(2) [OF d(2), of ?k] by auto
  have get: "tuxctl_ldisc_get ?k t = Some (take ?k (ring_bytes (rx d)), ?t1)"
    using d spec by (simp add: tuxctl_ldisc_get_def case_prod_beta Let_def)
  have inv1: "tux_inv ?t1" using inv d spec by (simp add: tux_inv_def disc_ok_def)
  obtain t2 where t2: "handle_all w (frames pkt) ?t1 = Some t2" "tux_inv t2" "same_rx ?t1 t2"
    using handle_all_ok [OF inv1] by blast
  let ?left = "frames_left pkt"
  let ?i = "length pkt - length ?left"
  let ?t' = "t2\<lparr>n_saved := length ?left, saved := ?left @ drop (length ?left) (saved t2)\<rparr>"
  have "drop ?i pkt = ?left" by (rule drop_frames_left)
  then have cb: "tuxctl_ldisc_data_callback w t = Some ?t'"
    using get t2(1) length_frames_left [of pkt] packet_loop_frames [of 0 pkt w ?t1]
    by (simp add: tuxctl_ldisc_data_callback_def Let_def del: length_drop drop_append flip: pkt_def)
  have st: "strip ?t1 = strip t" "strip ?t' = strip t2" using d by (simp_all add: strip_def)
  have "tux_inv ?t'" using t2 length_frames_left [of pkt] by (simp add: tux_inv_def)
  moreover have "handle_all w (frames pkt) (strip t) = Some (strip ?t')"
    using t2(1) st handle_all_strip [of w "frames pkt" ?t1] by simp
  moreover have "pending ?t' = ?left @ drop 12 (pending t)"
    using t2 spec pk(2) by (auto simp: same_rx_def pending_def split: option.splits)
  ultimately show ?thesis using cb unfolding pk(1) by blast
qed

lemma pending_rcv:
  assumes "tux_inv t" and "disc_data t = Some d"
  shows "pending (t\<lparr>disc_data := Some (d\<lparr>rx := snd (ring_fill cp (rx d))\<rparr>)\<rparr>)
      = pending t @ take (63 - length (ring_bytes (rx d))) cp"
    and "tux_inv (t\<lparr>disc_data := Some (d\<lparr>rx := snd (ring_fill cp (rx d))\<rparr>)\<rparr>)"
    and "strip (t\<lparr>disc_data := Some (d\<lparr>rx := snd (ring_fill cp (rx d))\<rparr>)\<rparr>) = strip t"
  using assms ring_specs(1) [of "rx d" cp]
  by (auto simp: tux_inv_def disc_ok_def pending_def strip_def)

text \<open>
  Receiving a piece of the stream that fits in the ring: one callback decodes the first twelve
  bytes that are pending, the others wait in the ring for the next piece.
\<close>

lemma rcv_buf_frames:
  assumes inv: "tux_inv t" and len: "length (pending t) + length cp \<le> 63"
  shows "\<exists>t'. tuxctl_ldisc_rcv_buf w cp t = Some t' \<and> tux_inv t'
    \<and> handle_all w (frames (take 12 (pending t @ cp))) (strip t) = Some (strip t')
    \<and> pending t' = frames_left (take 12 (pending t @ cp)) @ drop 12 (pending t @ cp)"
proof -
  obtain d where d: "disc_data t = Some d" using inv by (auto simp: tux_inv_def disc_ok_def)
  have "length (ring_bytes (rx d)) \<le> length (pending t)" using d by (simp add: pending_def)
  then have "take (63 - length (ring_bytes (rx d))) cp = cp" using len by simp
  then show ?thesis
    using callback_frames [OF pending_rcv(2) [OF inv d, of cp], of w] pending_rcv [OF inv d, of cp] d
    by (simp add: tuxctl_ldisc_rcv_buf_def del: take_append drop_append)
qed

primrec rcv_all :: "(nat \<Rightarrow> int) \<Rightarrow> u8 list list \<Rightarrow> tux \<Rightarrow> tux option" where
  "rcv_all w [] t = Some t"
| "rcv_all w (cp # cps) t = Option.bind (tuxctl_ldisc_rcv_buf w cp t) (rcv_all w cps)"

text \<open>
  Pieces that find room in the receive ring of 63 bytes, at most \<open>b\<close> bytes being pending
  before the first: a callback takes ten bytes at least out of a backlog that long.
\<close>

primrec backlog_fits :: "nat \<Rightarrow> u8 list list \<Rightarrow> bool" where
  "backlog_fits b [] \<longleftrightarrow> True"
| "backlog_fits b (cp # cps) \<longleftrightarrow>
     b + length cp \<le> 63 \<and> backlog_fits (max 2 (b + length cp - 10)) cps"

lemma backlog_fits_mono: "b \<le> c \<Longrightarrow> backlog_fits c cps \<Longrightarrow> backlog_fits b cps"
proof (induction cps arbitrary: b c)
  case (Cons cp cps)
  have le: "max 2 (b + length cp - 10) \<le> max 2 (c + length cp - 10)"
    using Cons.prems(1) by (intro max.mono) simp_all
  then show ?case using Cons.prems Cons.IH [OF le] by simp
qed simp

lemma backlog_fits_short:
  "b \<le> 2 \<Longrightarrow> \<forall>cp \<in> set cps. length cp \<le> 10 \<Longrightarrow> backlog_fits b cps"
  by (induction cps arbitrary: b) auto

lemma backlog_fits_total:
  "2 \<le> b \<Longrightarrow> b + length (concat cps) \<le> 63 \<Longrightarrow> backlog_fits b cps"
  by (induction cps arbitrary: b) auto

lemma pending_bound:
  "length (frames_left (take 12 xs) @ drop 12 xs) \<le> max 2 (length xs - 10)"
proof (cases "12 < length xs")
  case False
  then have "frames_left (take 12 xs) @ drop 12 xs = frames_left (take 12 xs)" by simp
  then show ?thesis using length_frames_left [of "take 12 xs"] by (metis max.coboundedI1)
next
  case True
  then show ?thesis using length_frames_left [of "take 12 xs"] by simp
qed

lemma rcv_all_frames:
  "tux_inv t \<Longrightarrow> backlog_fits (length (pending t)) cps \<Longrightarrow>
     \<exists>t' ps. rcv_all w cps t = Some t' \<and> tux_inv t'
       \<and> handle_all w ps (strip t) = Some (strip t')
       \<and> frames (pending t @ concat cps) = ps @ frames (pending t')
       \<and> frames_left (pending t') = frames_left (pending t @ concat cps)
       \<and> (\<forall>cp. cps = [cp] \<longrightarrow> ps = frames (take 12 (pending t @ cp)))"
proof (induction cps arbitrary: t)
  case (Cons cp cps)
  define xs where "xs = pending t @ cp"
  obtain t1 where t1: "tuxctl_ldisc_rcv_buf w cp t = Some t1" "tux_inv t1"
    "handle_all w (frames (take 12 xs)) (strip t) = Some (strip t1)"
    "pending t1 = frames_left (take 12 xs) @ drop 12 xs"
    using rcv_buf_frames [OF Cons.prems(1), of cp w] Cons.prems(2) unfolding xs_def by auto
  have "length (pending t1) \<le> max 2 (length (pending t) + length cp - 10)"
    unfolding t1(4) using pending_bound [of xs] by (simp add: xs_def)
  then have "backlog_fits (length (pending t1)) cps"
    using Cons.prems(2) backlog_fits_mono by fastforce
  then obtain t' ps where t': "rcv_all w cps t1 = Some t'" "tux_inv t'"
    "handle_all w ps (strip t1) = Some (strip t')"
    "frames (pending t1 @ concat cps) = ps @ frames (pending t')"
    "frames_left (pending t') = frames_left (pending t1 @ concat cps)"
    using Cons.IH [OF t1(2)] by blast
  have "frames (xs @ concat cps) = frames (take 12 xs) @ frames (pending t1 @ concat cps)"
    and "frames_left (xs @ concat cps) = frames_left (pending t1 @ concat cps)"
    using frames_append [of "take 12 xs" "drop 12 xs @ concat cps"]
      frames_left_append [of "take 12 xs" "drop 12 xs @ concat cps"]
    unfolding t1(4) by (simp_all flip: append_assoc)
  moreover have "cps = [] \<Longrightarrow> ps = []" using t' by simp
  ultimately show ?case
    using t1(1,3) t' unfolding xs_def
    by (intro exI [of _ t'] exI [of _ "frames (take 12 (pending t @ cp)) @ ps"])
      (auto simp: handle_all_append simp del: take_append)
qed auto

text \<open>Short pieces leave no whole packet waiting.\<close>

lemma rcv_all_short:
  "tux_inv t \<Longrightarrow> length (pending t) \<le> 2 \<Longrightarrow> \<forall>cp \<in> set cps. length cp \<le> 10 \<Longrightarrow>
     rcv_all w cps t = Some t' \<Longrightarrow> length (pending t') \<le> 2"
proof (induction cps arbitrary: t)
  case (Cons cp cps)
  have len: "length (pending t @ cp) \<le> 12" using Cons.prems(2,3) by auto
  obtain t1 where t1: "tuxctl_ldisc_rcv_buf w cp t = Some t1" "tux_inv t1"
    "pending t1 = frames_left (take 12 (pending t @ cp)) @ drop 12 (pending t @ cp)"
    using rcv_buf_frames [OF Cons.prems(1), of cp w] len by auto
  have "length (pending t1) \<le> 2"
    unfolding t1(3) using len length_frames_left [of "pending t @ cp"] by simp
  then show ?case using Cons t1 by simp
qed simp

lemma frames_short: "length xs \<le> 2 \<Longrightarrow> frames xs = [] \<and> frames_left xs = xs"
  by (cases xs rule: frames.cases) auto

section \<open>Sending\<close>

lemma wakeup_wire:
  "disc_data t = Some d \<Longrightarrow> ring_inv (tx d) \<Longrightarrow>
     \<exists>t'. tuxctl_ldisc_write_wakeup w t = Some t'
       \<and> wire t' = wire t @ [take (nat (w (room_calls t) + 1)) (ring_bytes (tx d))]"
  using ring_specs(2) [of "tx d"]
  by (simp add: tuxctl_ldisc_write_wakeup_def case_prod_beta Let_def wakeup_loop_drain)

text \<open>With an empty transmit ring and room below, everything put goes out at once, in order.\<close>

lemma put_idle:
  assumes "disc_data t = Some d" and "ring_inv (tx d)" and "ring_bytes (tx d) = []"
    and "length xs \<le> 63" and "int (length xs) \<le> w (room_calls t) + 1"
  shows "\<exists>t' d'. tuxctl_ldisc_put w xs t = Some (0, t') \<and> disc_data t' = Some d'
    \<and> wire t' = wire t @ [xs] \<and> ring_inv (tx d') \<and> ring_bytes (tx d') = []
    \<and> rx d' = rx d \<and> t' = t\<lparr>disc_data := Some d', wire := wire t @ [xs], room_calls := room_calls t + 1\<rparr>"
proof -
  let ?r = "snd (ring_fill xs (tx d))"
  have f: "ring_inv ?r" "fst (ring_fill xs (tx d)) = []" "ring_bytes ?r = xs"
    using ring_specs(1) [OF assms(2), of xs] assms by auto
  let ?n = "nat (w (room_calls t) + 1)"
  have n: "length xs \<le> ?n" using assms(5) by linarith
  have e: "ring_inv (snd (ring_drain ?n ?r))" "fst (ring_drain ?n ?r) = xs"
    "ring_bytes (snd (ring_drain ?n ?r)) = []"
    using ring_specs(2) [OF f(1), of ?n] f n by auto
  show ?thesis using assms f e
    by (simp add: tuxctl_ldisc_put_def tuxctl_ldisc_write_wakeup_def case_prod_beta Let_def
        wakeup_loop_drain)
qed

lemma buttons_byte_bits:
  "i < 8 \<Longrightarrow> bit (ucast (buttons_byte b c) :: u8) i = (if i < 4 then bit b i else
      if i = 4 then bit c 0 else if i = 5 then bit c 2 else if i = 6 then bit c 1 else bit c 3)"
proof -
  assume i: "i < 8"
  have m: "(v AND 8 = (8 :: u32)) = bit v 3" "(v AND 4 = (4 :: u32)) = bit v 2"
    "(v AND 2 = (2 :: u32)) = bit v 1" "(v AND 1 = (1 :: u32)) = bit v 0" for v
    by (rule and_mask_iff; simp)+
  have b: "bit (if P then 8 else 0 :: u32) i = (P \<and> i = 3 \<and> i < 32)"
    "bit (if P then 4 else 0 :: u32) i = (P \<and> i = 2 \<and> i < 32)"
    "bit (if P then 2 else 0 :: u32) i = (P \<and> i = 1 \<and> i < 32)"
    "bit (if P then 1 else 0 :: u32) i = (P \<and> i = 0 \<and> i < 32)"
    "bit (if P then 0x80 else 0 :: u32) i = (P \<and> i = 7 \<and> i < 32)"
    "bit (if P then 0x20 else 0 :: u32) i = (P \<and> i = 5 \<and> i < 32)"
    "bit (if P then 0x40 else 0 :: u32) i = (P \<and> i = 6 \<and> i < 32)"
    "bit (if P then 0x10 else 0 :: u32) i = (P \<and> i = 4 \<and> i < 32)" for P
    by (rule bit_if_mask, simp)+
  have "i = 0 \<or> i = 1 \<or> i = 2 \<or> i = 3 \<or> i = 4 \<or> i = 5 \<or> i = 6 \<or> i = 7" using i by linarith
  then show ?thesis
    unfolding buttons_byte_def Let_def m bit_ucast_iff bit_or_iff b
    by (elim disjE) simp_all
qed

lemma led_byte_spec:
  assumes "on = 2 ^ k" and "k < 32" and "pt = 2 ^ l" and "l < 32" and "nibble = push_bit sh 15"
    and "sh \<le> 28"
  shows "led_byte arg on nibble sh pt =
    (if bit arg k then ledmap ! (unat arg div 2 ^ sh mod 16) else 0)
    OR (if bit arg l then DEC_PT_POS else 0)"
proof -
  have m: "(15 :: u32) = mask 4" by (simp add: mask_eq_exp_minus_1)
  have "drop_bit sh (arg AND push_bit sh 15) = take_bit 4 (drop_bit sh arg)"
    unfolding m take_bit_eq_mask
    by (rule bit_eqI)
      (use assms(6) in \<open>auto simp: bit_simps\<close>)
  then have "unat (drop_bit sh (arg AND nibble)) = unat arg div 2 ^ sh mod 16"
    unfolding assms(5)
    by (simp only: unsigned_take_bit_eq unat_drop_bit_eq)
      (simp add: take_bit_eq_mod drop_bit_eq_div)
  then show ?thesis
    by (simp add: led_byte_def Let_def and_mask_iff [OF assms(1,2)] and_mask_iff [OF assms(3,4)])
qed

text \<open>The byte shown on digit \<open>i\<close>: the glyph of nibble \<open>i\<close> if it is on, and its point.\<close>

definition led_glyph :: "u32 \<Rightarrow> nat \<Rightarrow> u8" where
  "led_glyph arg i =
     (if bit arg (16 + i) then ledmap ! (unat arg div 16 ^ i mod 16) else 0)
     OR (if bit arg (24 + i) then 0x10 else 0)"

lemma led_packet_glyphs:
  "led_packet arg = [0xC6, 0x0F] @ map (led_glyph arg) [0, 1, 2, 3]"
proof -
  have "led_byte arg 0x00010000 0x0000000F 0 0x01000000 = led_glyph arg 0"
    using led_byte_spec [of "0x00010000" 16 "0x01000000" 24 "0x0000000F" 0 arg]
    by (simp add: led_glyph_def DEC_PT_POS_def)
  moreover have "led_byte arg 0x00020000 0x000000F0 4 0x02000000 = led_glyph arg 1"
    using led_byte_spec [of "0x00020000" 17 "0x02000000" 25 "0x000000F0" 4 arg]
    by (simp add: led_glyph_def DEC_PT_POS_def)
  moreover have "led_byte arg 0x00040000 0x00000F00 8 0x04000000 = led_glyph arg 2"
    using led_byte_spec [of "0x00040000" 18 "0x04000000" 26 "0x00000F00" 8 arg]
    by (simp add: led_glyph_def DEC_PT_POS_def)
  moreover have "led_byte arg 0x00080000 0x0000F000 12 0x08000000 = led_glyph arg 3"
    using led_byte_spec [of "0x00080000" 19 "0x08000000" 27 "0x0000F000" 12 arg]
    by (simp add: led_glyph_def DEC_PT_POS_def)
  ultimately show ?thesis
    by (simp add: led_packet_def MTCP_LED_SET_def MTCP_CMD_def)
qed

lemma opcodes: "MTCP_BIOC_EVENT = 0x41" "MTCP_ACK = 0x40" "MTCP_RESET = 0x46"
  "MTCP_BIOC_ON = 0xC3" "MTCP_LED_SET = 0xC6" "MTCP_LED_USR = 0xC8"
  by (simp_all add: MTCP_RESP_def MTCP_CMD_def MTCP_BIOC_EVENT_def MTCP_ACK_def MTCP_RESET_def
      MTCP_BIOC_ON_def MTCP_LED_SET_def MTCP_LED_USR_def)

section \<open>Properties\<close>

text \<open>
  C9. Framing of the received byte stream.  However the serial line cuts the stream, as long as
  no piece overflows the receive ring (\<open>backlog_fits\<close>), the driver handles, in order, exactly
  the first packets \<open>ps\<close> of the reference decoding of the whole stream (resynchronising on the
  framing bits); the packets not handled yet are the ones that decode from the bytes still
  pending, and the undecoded tail is the one of the stream; no access leaves the buffers.  A
  single receive handles the packets of the first twelve pending bytes only, so a longer piece
  leaves whole packets waiting until the next byte arrives.  When at most two bytes are pending
  and no piece is longer than ten bytes, no packet waits: every cut into such pieces handles
  all packets of the stream.
\<close>

theorem framing_chunk_independent:
  assumes "tux_inv t" and "backlog_fits (length (pending t)) cps"
  shows "\<exists>t' ps. rcv_all w cps t = Some t' \<and> tux_inv t'
    \<and> handle_all w ps (strip t) = Some (strip t')
    \<and> frames (pending t @ concat cps) = ps @ frames (pending t')
    \<and> frames_left (pending t') = frames_left (pending t @ concat cps)
    \<and> (\<forall>cp. cps = [cp] \<longrightarrow> ps = frames (take 12 (pending t @ cp)))
    \<and> (length (pending t) \<le> 2 \<and> (\<forall>cp \<in> set cps. length cp \<le> 10) \<longrightarrow>
         ps = frames (pending t @ concat cps)
         \<and> pending t' = frames_left (pending t @ concat cps))"
proof -
  obtain t' ps where t': "rcv_all w cps t = Some t'" "tux_inv t'"
    "handle_all w ps (strip t) = Some (strip t')"
    "frames (pending t @ concat cps) = ps @ frames (pending t')"
    "frames_left (pending t') = frames_left (pending t @ concat cps)"
    "\<forall>cp. cps = [cp] \<longrightarrow> ps = frames (take 12 (pending t @ cp))"
    using rcv_all_frames [OF assms] by blast
  moreover have "ps = frames (pending t @ concat cps)
      \<and> pending t' = frames_left (pending t @ concat cps)"
    if "length (pending t) \<le> 2 \<and> (\<forall>cp \<in> set cps. length cp \<le> 10)"
    using rcv_all_short [OF assms(1) _ _ t'(1)] that t'(4,5) frames_short [of "pending t'"] by simp
  ultimately show ?thesis by blast
qed

definition tux0 :: tux where
  "tux0 = \<lparr>disc_data = Some \<lparr>rx = \<lparr>rbuf = replicate 64 0, rstart = 0, rend = 0\<rparr>,
                              tx = \<lparr>rbuf = replicate 64 0, rstart = 0, rend = 0\<rparr>\<rparr>,
     saved = [0, 0], n_saved = 0, b_static = 0, c_static = 0, spam = 0,
     led_buffer = replicate 6 0, wire = [], room_calls = 0\<rparr>"

lemma tux0_inv: "tux_inv tux0" "pending tux0 = []"
  by (simp_all add: tux_inv_def disc_ok_def tux0_def ring_inv_def TUXCTL_BUFSIZE_def
      LED_BUFF_SIZE_def pending_def ring_bytes_def buf_used_def)

text \<open>
  Two button events cut inside a packet, and then fifteen bytes at once, of which the first four
  packets are handled and the fifth waits in the ring.
\<close>

definition button_event :: "u8 list" where
  "button_event = [0x41, 0xFE, 0xFB]"

lemma frames_events: "frames (concat (replicate n button_event))
    = replicate n (0x41, 0xFE, 0xFB)"
  by (induction n) (simp_all add: button_event_def framed_def)

lemma framing_chunk_independent_witness:
  "(\<exists>t'. rcv_all (\<lambda>_. 16) [[0x41], [0xFE, 0xFB], [0x40]] tux0 = Some t'
     \<and> handle_all (\<lambda>_. 16) [(0x41, 0xFE, 0xFB)] (strip tux0) = Some (strip t'))
   \<and> (\<exists>t'. rcv_all (\<lambda>_. 16) [concat (replicate 5 button_event)] tux0 = Some t'
     \<and> handle_all (\<lambda>_. 16) (replicate 4 (0x41, 0xFE, 0xFB)) (strip tux0) = Some (strip t')
     \<and> frames (pending t') = [(0x41, 0xFE, 0xFB)])"
proof
  have f: "frames [0x41, 0xFE, 0xFB, 0x40] = [(0x41, 0xFE, 0xFB)]" by (simp add: framed_def)
  show "\<exists>t'. rcv_all (\<lambda>_. 16) [[0x41], [0xFE, 0xFB], [0x40]] tux0 = Some t'
     \<and> handle_all (\<lambda>_. 16) [(0x41, 0xFE, 0xFB)] (strip tux0) = Some (strip t')"
    using framing_chunk_independent [of tux0 "[[0x41], [0xFE, 0xFB], [0x40]]" "\<lambda>_. 16"] tux0_inv f
    by auto
next
  let ?xs = "concat (replicate 5 button_event)"
  have e: "concat (replicate 5 button_event) = concat (replicate 4 button_event) @ button_event"
    "length (concat (replicate 4 button_event)) = 12"
    by (simp_all add: button_event_def numeral_eq_Suc)
  have f: "frames (take 12 ?xs) = replicate 4 (0x41, 0xFE, 0xFB)"
    unfolding e(1) using frames_events [of 4] e(2) by simp
  have g: "frames ?xs = replicate 4 (0x41, 0xFE, 0xFB) @ [(0x41, 0xFE, 0xFB)]"
    unfolding frames_events by (simp add: numeral_eq_Suc)
  have "backlog_fits (length (pending tux0)) [?xs]"
    using tux0_inv(2) e by (simp add: button_event_def)
  from framing_chunk_independent [OF tux0_inv(1) this, of "\<lambda>_. 16"]
  show "\<exists>t'. rcv_all (\<lambda>_. 16) [?xs] tux0 = Some t'
     \<and> handle_all (\<lambda>_. 16) (replicate 4 (0x41, 0xFE, 0xFB)) (strip tux0) = Some (strip t')
     \<and> frames (pending t') = [(0x41, 0xFE, 0xFB)]"
    using tux0_inv(2) f g by auto
qed

text \<open>
  C10. A button packet reaches the player.  After a \<open>MTCP_BIOC_EVENT\<close> packet, \<open>TUX_BUTTONS\<close>
  stores one byte at the user's address in which bits 0 to 3 (start, A, B, C) are the inverted
  low bits of the second packet byte and bits 4 to 7 (up, down, left, right) the inverted
  bits 0, 2, 1 and 3 of the third; an address that faults gives \<open>-EINVAL\<close> and changes nothing.
\<close>

theorem buttons_report:
  assumes "tuxctl_handle_packet w (MTCP_BIOC_EVENT, b, c) t = Some t'"
  shows "\<exists>v. tuxctl_ioctl w TUX_BUTTONS arg um t' =
      (if um arg = None then Some (- EINVAL, um, t') else Some (0, um(arg \<mapsto> v), t'))
    \<and> (\<forall>k < 4. bit v k = (\<not> bit b k))
    \<and> bit v 4 = (\<not> bit c 0) \<and> bit v 5 = (\<not> bit c 2)
    \<and> bit v 6 = (\<not> bit c 1) \<and> bit v 7 = (\<not> bit c 3)"
proof -
  have t': "b_static t' = NOT (ucast b)" "c_static t' = NOT (ucast c)"
    using assms by (auto simp: tuxctl_handle_packet_def)
  have n: "bit (NOT (ucast x :: u32)) k = (\<not> bit (x :: u8) k)" if "k < 8" for x k
    using that by (simp add: bit_not_iff bit_ucast_iff)
  show ?thesis
    by (rule exI [of _ "ucast (buttons_byte (b_static t') (c_static t'))"])
      (simp add: tuxctl_ioctl_def TUX_BUTTONS_def TUX_INIT_def buttons_byte_bits t' n
        split: option.splits)
qed

lemma buttons_report_witness:
  "\<exists>v t'. tuxctl_handle_packet (\<lambda>_. 16) (MTCP_BIOC_EVENT, 0xFE, 0xFF) tux0 = Some t'
     \<and> tuxctl_ioctl (\<lambda>_. 16) TUX_BUTTONS 8 [8 \<mapsto> 0] t' = Some (0, [8 \<mapsto> v], t') \<and> bit v 0"
proof -
  obtain t' where t': "tuxctl_handle_packet (\<lambda>_. 16) (MTCP_BIOC_EVENT, 0xFE, 0xFF) tux0 = Some t'"
    using handle_packet_ok [OF tux0_inv(1)] by blast
  then show ?thesis using buttons_report [OF t', of 8 "[8 \<mapsto> 0]"] by auto
qed

text \<open>
  C11. \<open>TUX_SET_LED\<close> shows the requested digits.  While the previous packet is acknowledged and
  the line is idle with room for six bytes, it sends one packet: the opcode, all four LEDs, and
  for each digit the seven-segment glyph of its nibble when the digit is on, with its decimal
  point; it then refuses further packets until an ACK arrives, and the packet is the one a later
  reset replays.  While unacknowledged, the call succeeds and changes nothing.
\<close>

theorem set_led_shows:
  assumes "disc_data t = Some d" and "ring_inv (tx d)" and "ring_bytes (tx d) = []"
    and "5 \<le> w (room_calls t)"
  shows "\<exists>t'. tuxctl_ioctl w TUX_SET_LED arg um t = Some (0, um, t')
    \<and> (if spam t = 1 then t' = t
       else wire t' = wire t @ [[0xC6, 0x0F] @ map (led_glyph arg) [0, 1, 2, 3]]
         \<and> led_buffer t' = [0xC6, 0x0F] @ map (led_glyph arg) [0, 1, 2, 3] \<and> spam t' = 1
         \<and> (\<forall>b c. map_option spam (tuxctl_handle_packet w (MTCP_ACK, b, c) t') = Some 0))"
proof -
  let ?t = "t\<lparr>led_buffer := led_packet arg\<rparr>"
  obtain t' d' where "tuxctl_ldisc_put w (led_packet arg) ?t = Some (0, t')"
    "t' = ?t\<lparr>disc_data := Some d', wire := wire t @ [led_packet arg], room_calls := room_calls t + 1\<rparr>"
    using put_idle [of ?t d "led_packet arg" w] assms by (auto simp: led_packet_def)
  then show ?thesis
    by (auto simp: tuxctl_ioctl_def TUX_SET_LED_def TUX_BUTTONS_def TUX_INIT_def
        led_packet_glyphs tuxctl_handle_packet_def opcodes)
qed

lemma set_led_shows_witness:
  "\<exists>t'. tuxctl_ioctl (\<lambda>_. 16) TUX_SET_LED 0x010F1234 (\<lambda>_. None) tux0
       = Some (0, \<lambda>_. None, t') \<and> spam t' = 1"
proof -
  have d: "disc_data tux0 = Some (the (disc_data tux0))" by (simp add: tux0_def)
  show ?thesis
    using set_led_shows [OF d, of "\<lambda>_. 16" "0x010F1234" "\<lambda>_. None"]
    by (auto simp: tux0_def ring_inv_def TUXCTL_BUFSIZE_def ring_bytes_def buf_used_def)
qed

text \<open>
  C12. \<open>tuxctl_ldisc_write_wakeup\<close> compares with \<open>n <= room\<close>: whenever more bytes wait than the
  serial driver has room for, it hands the driver one byte more than the room it was told, and
  takes that byte out of the ring.
\<close>

theorem wakeup_exceeds_room:
  assumes "disc_data t = Some d" and "ring_inv (tx d)" and "w (room_calls t) = int k"
    and "k < length (ring_bytes (tx d))"
  shows "\<exists>t' sent. tuxctl_ldisc_write_wakeup w t = Some t' \<and> wire t' = wire t @ [sent]
    \<and> length sent = k + 1"
  using wakeup_wire [OF assms(1,2), of w] assms(3,4) by (auto simp: nat_add_distrib)

lemma wakeup_exceeds_room_witness:
  "\<exists>t' sent. tuxctl_ldisc_write_wakeup (\<lambda>_. 0)
      (tux0\<lparr>disc_data := Some \<lparr>rx = \<lparr>rbuf = [], rstart = 0, rend = 0\<rparr>,
          tx = \<lparr>rbuf = replicate 64 1, rstart = 0, rend = 1\<rparr>\<rparr>\<rparr>) = Some t' \<and> length sent = 1
    \<and> wire t' = [sent]"
  using wakeup_exceeds_room [of "tux0\<lparr>disc_data := Some \<lparr>rx = \<lparr>rbuf = [], rstart = 0, rend = 0\<rparr>,
          tx = \<lparr>rbuf = replicate 64 1, rstart = 0, rend = 1\<rparr>\<rparr>\<rparr>" _ "\<lambda>_. 0" 0]
  by (auto simp: tux0_def ring_inv_def TUXCTL_BUFSIZE_def ring_bytes_def buf_used_def)

end
