(* ===== verification/Rtc_Dev.thy ===== *)
theory Rtc_Dev
  imports CLib "HOL-Library.Signed_Division"
begin

text \<open>
  The virtual real-time clock, \<^verbatim>\<open>mp3/student-distrib/rtc.c\<close>, on the file array of
  \<^verbatim>\<open>pcb.h\<close>: the rate a process set lives in the file position of its descriptor, a read
  waits for as many 1024 Hz ticks as the rate asks for, and the interrupt handler counts the
  ticks down in every process.
\<close>

section \<open>File descriptors\<close>

text \<open>The operation tables the descriptors point to; \<open>No_ops\<close> is the null pointer.\<close>

datatype ops_table = No_ops | Terminal_ops | File_ops | Directory_ops | Rtc_ops

record file_t =
  file_ops_table_ptr :: ops_table
  inode_num :: u32
  file_position :: u32
  flags :: u32

definition FILE_AVAIL :: u32 where "FILE_AVAIL = 1"
definition FILE_OCCUP :: u32 where "FILE_OCCUP = 0"
definition NUM_MAX_OPEN_FILES :: nat where "NUM_MAX_OPEN_FILES = 8"
definition NUM_MAX_PROCESSES :: nat where "NUM_MAX_PROCESSES = 6"

definition blank :: file_t where
  "blank = \<lparr>file_ops_table_ptr = No_ops, inode_num = 0, file_position = 0, flags = FILE_AVAIL\<rparr>"

section \<open>The device\<close>

definition RTC_PORT :: u16 where "RTC_PORT = 0x70"
definition DATA_PORT :: u16 where "DATA_PORT = 0x71"

text \<open>\<open>rtc_init\<close>: \<open>prev_b\<close> and \<open>prev_a\<close> are the register values its two reads return.\<close>

definition rtc_init :: "u8 \<Rightarrow> u8 \<Rightarrow> out_event list" where
  "rtc_init prev_b prev_a =
     [Outb RTC_PORT 0x8B, Outb RTC_PORT 0x8B, Outb DATA_PORT (prev_b OR 0x40),
      Outb RTC_PORT 0x8A, Outb RTC_PORT 0x8A, Outb DATA_PORT ((prev_a AND 0xF0) OR 0x06)]"

definition rtc_open :: "file_t list \<Rightarrow> nat \<Rightarrow> int \<times> file_t list" where
  "rtc_open fa fd = (0, fa[fd := (fa ! fd)\<lparr>file_position := 2, flags := FILE_OCCUP\<rparr>])"

definition rtc_close :: "file_t list \<Rightarrow> nat \<Rightarrow> int \<times> file_t list" where
  "rtc_close fa fd =
     (if flags (fa ! fd) = FILE_AVAIL then (-1, fa)
      else (0, fa[fd := (fa ! fd)\<lparr>file_position := 0, file_ops_table_ptr := No_ops,
                                  inode_num := 0, flags := FILE_AVAIL\<rparr>]))"

text \<open>
  \<open>rtc_read\<close> stores \<open>1024 / file_position\<close> in the process's \<open>rtc_count\<close> (a division by zero
  is \<open>None\<close>) and then waits for the count to reach zero.
\<close>

definition rtc_read_count :: "file_t list \<Rightarrow> nat \<Rightarrow> u32 option" where
  "rtc_read_count fa fd =
     (if file_position (fa ! fd) = 0 then None
      else Some (word_of_int (sint (1024 :: u32) sdiv sint (file_position (fa ! fd)))))"

definition freq_ok :: "u32 \<Rightarrow> bool" where
  "freq_ok freq \<longleftrightarrow> \<not> (sint freq < 2 \<or> sint freq > 1024 \<or> freq AND (freq - 1) \<noteq> 0)"

text \<open>\<open>buf\<close> is \<open>None\<close> for a null pointer, otherwise the four bytes as an integer.\<close>

definition rtc_write :: "file_t list \<Rightarrow> nat \<Rightarrow> u32 option \<Rightarrow> u32 \<Rightarrow> int \<times> file_t list" where
  "rtc_write fa fd buf nbytes =
     (case buf of None \<Rightarrow> (-1, fa)
      | Some freq \<Rightarrow>
          if nbytes \<noteq> 4 then (-1, fa)
          else if \<not> freq_ok freq then (-1, fa)
          else (4, fa[fd := (fa ! fd)\<lparr>file_position := freq\<rparr>]))"

text \<open>\<open>rtc_int\<close> on the counts of the processes 1 to 6, and its port accesses.\<close>

definition rtc_int :: "u32 list \<Rightarrow> u32 list" where
  "rtc_int counts = map (\<lambda>c. if c \<noteq> 0 then c - 1 else c) counts"

definition rtc_int_events :: "out_event list" where
  "rtc_int_events = [Outb 0x70 0x0C]"

text \<open>The wait loop of \<open>rtc_read\<close>, one look at the count per tick; \<open>ticks\<close> clock interrupts arrive.\<close>

fun rtc_wait :: "nat \<Rightarrow> nat \<Rightarrow> u32 list \<Rightarrow> (nat \<times> u32 list) option" where
  "rtc_wait ticks i counts =
     (if counts ! i = 0 then Some (0, counts)
      else (case ticks of 0 \<Rightarrow> None
            | Suc f \<Rightarrow> map_option (\<lambda>(n, cs). (n + 1, cs)) (rtc_wait f i (rtc_int counts))))"

declare rtc_wait.simps [simp del]

section \<open>Rates and ticks\<close>

text \<open>\<open>n & (n - 1)\<close> is zero exactly for the powers of two.\<close>

lemma and_pred_pow2: "0 < n \<Longrightarrow> (and n (n - 1) = 0) = (\<exists>k. n = (2 :: nat) ^ k)"
proof (induction n rule: less_induct)
  case (less n)
  show ?case
  proof (cases "even n")
    case True
    then obtain m where m: "n = 2 * m" by (elim evenE)
    then have "n - 1 = Suc (2 * (m - 1))" "0 < m" using less.prems by simp_all
    then have "and n (n - 1) = 2 * and m (m - 1)"
      using m by (subst and_rec) simp
    moreover have "(and m (m - 1) = 0) = (\<exists>k. m = 2 ^ k)"
      using less.IH [of m] m \<open>0 < m\<close> by simp
    moreover have "(\<exists>k. n = 2 ^ k) = (\<exists>k. m = 2 ^ k)"
    proof
      assume "\<exists>k. n = 2 ^ k"
      then obtain k where k: "n = 2 ^ k" by blast
      with m True obtain l where "k = Suc l" by (cases k) auto
      with k m show "\<exists>k. m = 2 ^ k" by auto
    qed (auto simp: m simp flip: power_Suc)
    ultimately show ?thesis by simp
  next
    case False
    then obtain m where m: "n = 2 * m + 1" by (elim oddE)
    then have "and n (n - 1) = 2 * m" by (subst and_rec) simp
    moreover have "(\<exists>k. n = 2 ^ k) = (m = 0)"
    proof
      assume "\<exists>k. n = 2 ^ k"
      then obtain k where "n = 2 ^ k" by blast
      with False have "k = 0" by (cases k) auto
      with \<open>n = 2 ^ k\<close> m show "m = 0" by simp
    next
      assume "m = 0"
      then have "n = 2 ^ 0" using m by simp
      then show "\<exists>k. n = 2 ^ k" by blast
    qed
    ultimately show ?thesis by simp
  qed
qed

lemma rate_cases:
  "1 \<le> k \<Longrightarrow> k \<le> 10 \<Longrightarrow>
     k = 1 \<or> k = 2 \<or> k = 3 \<or> k = 4 \<or> k = 5 \<or> k = 6 \<or> k = 7 \<or> k = 8 \<or> k = 9 \<or> k = (10 :: nat)"
  by presburger

lemma freq_ok_iff: "freq_ok freq \<longleftrightarrow> (\<exists>k. 1 \<le> k \<and> k \<le> 10 \<and> freq = 2 ^ k)"
proof
  assume f: "freq_ok freq"
  then have s: "2 \<le> sint freq" "sint freq \<le> 1024" and z: "freq AND (freq - 1) = 0"
    by (simp_all add: freq_ok_def)
  have u: "int (unat freq) = sint freq"
    using s sint_nonneg_u32 [of freq] by simp
  have "and (unat freq) (unat (freq - 1)) = 0"
    using z by (simp flip: unsigned_and_eq)
  then have "and (unat freq) (unat freq - 1) = 0"
    using u s unat_pred [of freq] by simp
  then obtain k where k: "unat freq = 2 ^ k" using and_pred_pow2 [of "unat freq"] u s by auto
  have "k \<noteq> 0" using k u s by (cases k) auto
  moreover have "k \<le> 10"
  proof (rule ccontr)
    assume "\<not> k \<le> 10"
    then have "(2 :: nat) ^ 11 \<le> 2 ^ k" by (intro power_increasing) auto
    then have "2048 \<le> unat freq" using k by simp
    with u s show False by linarith
  qed
  moreover have "freq = 2 ^ k"
  proof -
    have "(2 :: nat) ^ k < 2 ^ 32" using \<open>k \<le> 10\<close> by (intro power_strict_increasing) auto
    then show ?thesis using k unat_of_nat_u32 [of "2 ^ k"] by (simp add: word_unat_eq_iff)
  qed
  ultimately show "\<exists>k. 1 \<le> k \<and> k \<le> 10 \<and> freq = 2 ^ k" by (intro exI [of _ k]) auto
next
  assume "\<exists>k. 1 \<le> k \<and> k \<le> 10 \<and> freq = 2 ^ k"
  then obtain k where "1 \<le> k" "k \<le> 10" and f: "freq = 2 ^ k" by blast
  from rate_cases [OF \<open>1 \<le> k\<close> \<open>k \<le> 10\<close>] show "freq_ok freq"
    unfolding f freq_ok_def by (elim disjE) simp_all
qed

lemma rtc_int_nth: "i < length cs \<Longrightarrow> rtc_int cs ! i = (if cs ! i \<noteq> 0 then cs ! i - 1 else 0)"
  by (simp add: rtc_int_def)

lemma rtc_wait_ticks:
  "i < length cs \<Longrightarrow> unat (cs ! i) \<le> ticks \<Longrightarrow>
     \<exists>cs'. rtc_wait ticks i cs = Some (unat (cs ! i), cs') \<and> cs' ! i = 0"
proof (induction ticks arbitrary: cs)
  case 0
  then show ?case by (subst rtc_wait.simps) (simp add: unat_eq_0)
next
  case (Suc f)
  show ?case
  proof (cases "cs ! i = 0")
    case False
    then have c: "unat (rtc_int cs ! i) = unat (cs ! i) - 1" "0 < unat (cs ! i)"
      using Suc.prems by (simp_all add: rtc_int_nth unat_pred unat_gt_0)
    moreover have "i < length (rtc_int cs)" using Suc.prems by (simp add: rtc_int_def)
    ultimately obtain cs' where "rtc_wait f i (rtc_int cs) = Some (unat (cs ! i) - 1, cs')" "cs' ! i = 0"
      using Suc.IH [of "rtc_int cs"] Suc.prems c by (metis One_nat_def Suc_pred le_diff_conv Suc_eq_plus1)
    then show ?thesis using False c by (subst rtc_wait.simps) simp
  qed (subst rtc_wait.simps, simp)
qed

section \<open>Properties\<close>

text \<open>
  C14. The rate of the virtual clock.  \<open>rtc_write\<close> of four bytes succeeds exactly for the
  powers of two from 2 to 1024 and then only changes the rate of that descriptor; any other
  rate, length or a null buffer returns -1 and changes nothing.  A following \<open>rtc_read\<close> returns
  after exactly 1024 divided by the rate ticks of the 1024 Hz interrupt, whatever the other
  processes are waiting for.
\<close>

theorem rtc_rate_and_wait:
  assumes "fd < length fa" and "i < length counts" and "512 \<le> ticks"
  shows "rtc_write fa fd (Some freq) nbytes =
      (if nbytes = 4 \<and> (\<exists>k. 1 \<le> k \<and> k \<le> 10 \<and> freq = 2 ^ k)
       then (4, fa[fd := (fa ! fd)\<lparr>file_position := freq\<rparr>]) else (-1, fa))
    \<and> rtc_write fa fd None nbytes = (-1, fa)
    \<and> (\<forall>k fa'. 1 \<le> k \<and> k \<le> 10 \<and> rtc_write fa fd (Some (2 ^ k)) 4 = (4, fa') \<longrightarrow>
        (\<exists>c cs'. rtc_read_count fa' fd = Some c
           \<and> rtc_wait ticks i (counts[i := c]) = Some (1024 div 2 ^ k, cs') \<and> cs' ! i = 0))"
proof (intro conjI allI impI)
  show "rtc_write fa fd (Some freq) nbytes =
      (if nbytes = 4 \<and> (\<exists>k. 1 \<le> k \<and> k \<le> 10 \<and> freq = 2 ^ k)
       then (4, fa[fd := (fa ! fd)\<lparr>file_position := freq\<rparr>]) else (-1, fa))"
    by (simp add: rtc_write_def freq_ok_iff)
  show "rtc_write fa fd None nbytes = (-1, fa)" by (simp add: rtc_write_def)
  fix k fa'
  assume k: "1 \<le> k \<and> k \<le> 10 \<and> rtc_write fa fd (Some (2 ^ k)) 4 = (4, fa')"
  then have f: "freq_ok (2 ^ k)" using freq_ok_iff by blast
  then have fa': "file_position (fa' ! fd) = 2 ^ k"
    using k assms(1) by (auto simp: rtc_write_def)
  have "\<exists>c. rtc_read_count fa' fd = Some c \<and> unat c = 1024 div 2 ^ k"
  proof -
    have "1 \<le> k" "k \<le> 10" using k by blast+
    from rate_cases [OF this] show ?thesis unfolding rtc_read_count_def fa'
      by (elim disjE) simp_all
  qed
  then obtain c where c: "rtc_read_count fa' fd = Some c" "unat c = 1024 div 2 ^ k" by blast
  have "(2 :: nat) ^ 1 \<le> 2 ^ k" using k by (intro power_increasing) auto
  then have "(1024 :: nat) div 2 ^ k \<le> 1024 div 2" by (intro div_le_mono2) auto
  then have "unat (counts[i := c] ! i) \<le> ticks" using c assms by simp
  then obtain cs' where "rtc_wait ticks i (counts[i := c]) = Some (1024 div 2 ^ k, cs')" "cs' ! i = 0"
    using rtc_wait_ticks [of i "counts[i := c]" ticks] c assms by auto
  with c show "\<exists>c cs'. rtc_read_count fa' fd = Some c
      \<and> rtc_wait ticks i (counts[i := c]) = Some (1024 div 2 ^ k, cs') \<and> cs' ! i = 0" by blast
qed

lemma rtc_rate_and_wait_witness:
  "rtc_write [blank, blank] 1 (Some 8) 4 = (4, [blank, blank\<lparr>file_position := 8\<rparr>])
    \<and> rtc_write [blank, blank] 1 (Some 6) 4 = (-1, [blank, blank])"
proof -
  have y: "\<exists>k. 1 \<le> k \<and> k \<le> 10 \<and> (8 :: u32) = 2 ^ k" by (intro exI [of _ 3]) simp
  have "\<not> freq_ok 6" by (simp add: freq_ok_def)
  then have n: "\<not> (\<exists>k. 1 \<le> k \<and> k \<le> 10 \<and> (6 :: u32) = 2 ^ k)" using freq_ok_iff [of 6] by blast
  have p: "1 < length [blank, blank]" "0 < length [0 :: u32]" "512 \<le> (512 :: nat)" by simp_all
  have "rtc_write [blank, blank] 1 (Some 8) 4
      = (4, [blank, blank][1 := ([blank, blank] ! 1)\<lparr>file_position := 8\<rparr>])"
    using rtc_rate_and_wait [OF p, of 8 4, THEN conjunct1] y by (simp only: simp_thms if_True)
  moreover have "rtc_write [blank, blank] 1 (Some 6) 4 = (-1, [blank, blank])"
    using rtc_rate_and_wait [OF p, of 6 4, THEN conjunct1] n by (simp only: simp_thms if_False)
  ultimately show ?thesis by simp
qed

end
