(* ===== verification/Terminal.thy ===== *)
theory Terminal
  imports CLib
begin

text \<open>
  The terminals, \<^verbatim>\<open>mp3/student-distrib/terminal.c\<close>, with the cursor and screen routines of
  \<^verbatim>\<open>lib.c\<close>: three text screens in video memory, the keyboard with its modifiers, the line
  buffer and the blocking read.  Video memory is byte memory; cursor moves are port writes.
  The keyboard handler asks for a terminal switch by its second result: all it does after the
  call of \<open>switch_terminal\<close> is to return, because the function keys have no character.
\<close>

definition NUM_COLS :: nat where "NUM_COLS = 80"
definition NUM_ROWS :: nat where "NUM_ROWS = 25"
definition ATTRIB :: u8 where "ATTRIB = 0x7"
definition BLUE_SCREEN_BACKGROUND_ATTRIB :: u8 where "BLUE_SCREEN_BACKGROUND_ATTRIB = 0x11"
definition VGA_PORT :: u16 where "VGA_PORT = 0x3D4"
definition VIDEO_BASE :: u32 where "VIDEO_BASE = 0xB8000"
definition TERMINAL_BUFFER_SIZE :: nat where "TERMINAL_BUFFER_SIZE = 128"
definition NUM_TERMINALS :: nat where "NUM_TERMINALS = 3"
definition terminal0_storage :: u32 where "terminal0_storage = 0xB9000"
definition terminal1_storage :: u32 where "terminal1_storage = 0xBA000"
definition terminal2_storage :: u32 where "terminal2_storage = 0xBB000"
definition KB_4 :: u32 where "KB_4 = 0x1000"

record terminal =
  buffer :: "u8 list"
  video_start :: u32
  storage_location :: u32
  pos_x :: nat
  pos_y :: nat
  chars_in_buffer :: nat
  active_process :: int

text \<open>The modifier keys, in the order of their indices, and the terminal side of the kernel.\<close>

record modifier_keys =
  caps :: bool
  l_shift :: bool
  r_shift :: bool
  l_ctrl :: bool
  r_ctrl :: bool
  l_alt :: bool
  r_alt :: bool

record tty =
  terminals :: "terminal list"
  active_terminal_index :: nat
  vram :: mem
  modifiers :: modifier_keys
  caps_held :: bool
  ports :: "out_event list"

abbreviation term_of :: "tty \<Rightarrow> nat \<Rightarrow> terminal" where
  "term_of s i \<equiv> terminals s ! i"

definition set_term :: "nat \<Rightarrow> (terminal \<Rightarrow> terminal) \<Rightarrow> tty \<Rightarrow> tty" where
  "set_term i f s = s\<lparr>terminals := (terminals s)[i := f (terminals s ! i)]\<rparr>"

section \<open>The screen\<close>

definition move_cursor :: "nat \<Rightarrow> nat \<Rightarrow> out_event list" where
  "move_cursor x y =
     (let position = of_nat y * 80 + of_nat x :: u16
      in [Outb VGA_PORT 0x0F, Outb (VGA_PORT + 1) (ucast (position AND 0xFF)),
          Outb VGA_PORT 0x0E, Outb (VGA_PORT + 1) (ucast (drop_bit 8 position AND 0xFF))])"

definition cursor_to :: "nat \<Rightarrow> nat \<Rightarrow> tty \<Rightarrow> tty" where
  "cursor_to x y s = s\<lparr>ports := ports s @ move_cursor x y\<rparr>"

text \<open>Character and attribute of cell \<open>i\<close> of the screen at \<open>v\<close>.\<close>

definition put_cell :: "u32 \<Rightarrow> nat \<Rightarrow> u8 \<Rightarrow> u8 \<Rightarrow> mem \<Rightarrow> mem" where
  "put_cell v i c attr m = store (store m (v + of_nat (2 * i)) c) (v + of_nat (2 * i) + 1) attr"

definition copy_cell :: "u32 \<Rightarrow> nat \<Rightarrow> nat \<Rightarrow> mem \<Rightarrow> mem" where
  "copy_cell v i j m =
     (let m1 = store m (v + of_nat (2 * i)) (m (v + of_nat (2 * j)))
      in store m1 (v + of_nat (2 * i) + 1) (m1 (v + of_nat (2 * j) + 1)))"

definition scroll_up :: "u32 \<Rightarrow> mem \<Rightarrow> mem" where
  "scroll_up v m =
     fold (\<lambda>i. put_cell v i (ch CHR '' '') ATTRIB) [NUM_COLS * (NUM_ROWS - 1)..<NUM_COLS * NUM_ROWS]
       (fold (\<lambda>i. copy_cell v i (i + NUM_COLS)) [0..<NUM_COLS * (NUM_ROWS - 1)] m)"

definition clear_terminal :: "nat \<Rightarrow> tty \<Rightarrow> tty" where
  "clear_terminal i s =
     (let s1 = set_term i (\<lambda>t. t\<lparr>pos_x := 0, pos_y := 0\<rparr>) s;
          v = video_start (term_of s1 i);
          s2 = s1\<lparr>vram := fold (\<lambda>k. put_cell v k (ch CHR '' '') ATTRIB) [0..<NUM_ROWS * NUM_COLS] (vram s1)\<rparr>
      in if i = active_terminal_index s2 then cursor_to 0 0 s2 else s2)"

definition blue_screen :: "tty \<Rightarrow> tty" where
  "blue_screen s =
     (let i = active_terminal_index s;
          s1 = cursor_to 0 0 (set_term i (\<lambda>t. t\<lparr>pos_x := 0, pos_y := 0\<rparr>) s);
          v = video_start (term_of s1 i);
          s2 = s1\<lparr>vram := fold (\<lambda>k. put_cell v k (ch CHR '' '') BLUE_SCREEN_BACKGROUND_ATTRIB)
                          [0..<NUM_ROWS * NUM_COLS] (vram s1)\<rparr>
      in cursor_to 0 0 (set_term i (\<lambda>t. t\<lparr>pos_x := 0, pos_y := 0\<rparr>) s2))"

definition newline_char :: "u8 \<Rightarrow> bool" where
  "newline_char c \<longleftrightarrow> c = 10 \<or> c = 13"

text \<open>The first half of \<open>terminal_putc\<close>: the character and the new position.\<close>

definition putc_place :: "u8 \<Rightarrow> u8 \<Rightarrow> nat \<Rightarrow> tty \<Rightarrow> tty" where
  "putc_place input attribute i s =
     (let t = term_of s i
      in if newline_char input
         then set_term i (\<lambda>t. t\<lparr>pos_y := pos_y t + 1, pos_x := 0\<rparr>) s
         else (let s1 = s\<lparr>vram := put_cell (video_start t) (NUM_COLS * pos_y t + pos_x t) input attribute (vram s)\<rparr>
               in if pos_x t + 1 \<ge> NUM_COLS
                  then set_term i (\<lambda>t. t\<lparr>pos_y := pos_y t + 1, pos_x := 0\<rparr>) s1
                  else set_term i (\<lambda>t. t\<lparr>pos_x := pos_x t + 1\<rparr>) s1))"

definition terminal_putc :: "u8 \<Rightarrow> u8 \<Rightarrow> nat \<Rightarrow> tty \<Rightarrow> tty" where
  "terminal_putc input attribute i s =
     (let s1 = putc_place input attribute i s;
          s2 = (if pos_y (term_of s1 i) \<ge> NUM_ROWS
                then set_term i (\<lambda>t. t\<lparr>pos_y := NUM_ROWS - 1\<rparr>)
                       (s1\<lparr>vram := scroll_up (video_start (term_of s1 i)) (vram s1)\<rparr>)
                else s1)
      in if i = active_terminal_index s2
         then cursor_to (pos_x (term_of s2 i)) (pos_y (term_of s2 i)) s2 else s2)"

text \<open>
  \<open>init_terminals\<close>.  Its clearing loop adds \<open>VIDEO_BASE\<close> to a counter that already starts there.
\<close>

definition init_terminal :: "u32 \<Rightarrow> u32 \<Rightarrow> terminal" where
  "init_terminal vid sto = \<lparr>buffer = replicate TERMINAL_BUFFER_SIZE 0, video_start = vid,
     storage_location = sto, pos_x = 0, pos_y = 0, chars_in_buffer = 0, active_process = -1\<rparr>"

definition init_terminals :: "tty \<Rightarrow> tty" where
  "init_terminals s =
     s\<lparr>terminals := [init_terminal VIDEO_BASE terminal0_storage,
                     init_terminal terminal1_storage terminal1_storage,
                     init_terminal terminal2_storage terminal2_storage],
       active_terminal_index := 0,
       vram := fold (\<lambda>k m. store m (VIDEO_BASE + of_nat k) 0)
                 [unat VIDEO_BASE..<unat (terminal2_storage + KB_4)] (vram s)\<rparr>"

section \<open>The keyboard\<close>

definition LOWERCASE_SCANCODES :: "u8 list" where
  "LOWERCASE_SCANCODES =
     [0, 0] @ chars ''1234567890-='' @ [0, 0] @ chars ''qwertyuiop[]'' @ [10, 0] @ chars ''as''
     @ chars ''dfghjkl;'' @ [39, 96, 0, 92] @ chars ''zxcv'' @ chars ''bnm,./'' @ [0, 0, 0, 32]
     @ [0, 0, 0, 0, 0, 0]"

definition SHIFTCASE_SCANCODES :: "u8 list" where
  "SHIFTCASE_SCANCODES =
     [0, 0] @ chars ''!@#$%^&*()_+'' @ [0, 0] @ chars ''QWERTYUIOP{}'' @ [10, 0] @ chars ''AS''
     @ chars ''DFGHJKL:'' @ [34, 126, 0, 124] @ chars ''ZXCV'' @ chars ''BNM<>?'' @ [0, 0, 0, 32]
     @ [0, 0, 0, 0, 0, 0]"

definition CAPSLOCK_SCANCODES :: "u8 list" where
  "CAPSLOCK_SCANCODES =
     [0, 0] @ chars ''1234567890-='' @ [0, 0] @ chars ''QWERTYUIOP[]'' @ [92, 0] @ chars ''AS''
     @ chars ''DFGHJKL;'' @ [39, 96, 0, 92] @ chars ''ZXCV'' @ chars ''BNM,./'' @ [0, 0, 0, 32]
     @ [0, 0, 0, 0, 0, 0]"

text \<open>The modifier part of \<open>handle_keypress\<close>; \<open>nxt\<close> is the byte a second \<open>inb\<close> would read.\<close>

definition key_modifiers :: "u8 \<Rightarrow> u8 \<Rightarrow> modifier_keys \<Rightarrow> bool \<Rightarrow> modifier_keys \<times> bool" where
  "key_modifiers sc nxt m held =
     (if sc = 0x1D then (m\<lparr>l_ctrl := True\<rparr>, held)
      else if sc = 0x2A then (m\<lparr>l_shift := True\<rparr>, held)
      else if sc = 0x36 then (m\<lparr>r_shift := True\<rparr>, held)
      else if sc = 0x38 then (m\<lparr>l_alt := True\<rparr>, held)
      else if sc = 0x3A then (if \<not> held then (m\<lparr>caps := \<not> caps m\<rparr>, True) else (m, held))
      else if sc = 0x9D then (m\<lparr>l_ctrl := False\<rparr>, held)
      else if sc = 0xAA then (m\<lparr>l_shift := False\<rparr>, held)
      else if sc = 0xB6 then (m\<lparr>r_shift := False\<rparr>, held)
      else if sc = 0xB8 then (m\<lparr>l_alt := False\<rparr>, held)
      else if sc = 0xBA then (m, False)
      else if sc = 0xE0 then
        (if nxt = 0x1D then (m\<lparr>r_ctrl := True\<rparr>, held)
         else if nxt = 0x38 then (m\<lparr>r_alt := True\<rparr>, held)
         else if nxt = 0x9D then (m\<lparr>r_ctrl := False\<rparr>, held)
         else if nxt = 0xB8 then (m\<lparr>r_alt := False\<rparr>, held)
         else (m, held))
      else (m, held))"

definition translate_key :: "modifier_keys \<Rightarrow> u8 \<Rightarrow> u8" where
  "translate_key m sc =
     (if (l_shift m \<or> r_shift m) \<and> \<not> caps m then SHIFTCASE_SCANCODES ! unat sc
      else if \<not> (l_shift m \<or> r_shift m) \<and> caps m then CAPSLOCK_SCANCODES ! unat sc
      else LOWERCASE_SCANCODES ! unat sc)"

text \<open>The backspace branch; the flag says that the handler returns there.\<close>

definition key_backspace :: "tty \<Rightarrow> bool \<times> tty" where
  "key_backspace s =
     (let a = active_terminal_index s; t = term_of s a
      in if chars_in_buffer t = 0 then (True, s)
         else (let n = chars_in_buffer t - 1;
                   s1 = set_term a (\<lambda>t. t\<lparr>chars_in_buffer := n, buffer := (buffer t)[n := 0]\<rparr>) s
               in if pos_x t = 0 \<and> pos_y t = 0 then (True, s1)
                  else (let s2 = (if pos_x t = 0
                                  then set_term a (\<lambda>t. t\<lparr>pos_y := pos_y t - 1, pos_x := NUM_COLS - 1\<rparr>) s1
                                  else set_term a (\<lambda>t. t\<lparr>pos_x := pos_x t - 1\<rparr>) s1);
                            t2 = term_of s2 a;
                            s3 = s2\<lparr>vram := put_cell (video_start t2) (NUM_COLS * pos_y t2 + pos_x t2)
                                               (ch CHR '' '') ATTRIB (vram s2)\<rparr>
                        in (False, cursor_to (pos_x t2) (pos_y t2) s3))))"

text \<open>The last part: a character goes to the screen and into the buffer if there is room.\<close>

definition key_accept :: "u8 \<Rightarrow> tty \<Rightarrow> tty" where
  "key_accept pressed s =
     (let a = active_terminal_index s; n = chars_in_buffer (term_of s a)
      in if n < TERMINAL_BUFFER_SIZE - 1 \<or> pressed = 10 \<and> n < TERMINAL_BUFFER_SIZE
         then set_term a (\<lambda>t. t\<lparr>buffer := (buffer t)[chars_in_buffer t := pressed],
                               chars_in_buffer := chars_in_buffer t + 1\<rparr>)
                (terminal_putc pressed ATTRIB a s)
         else s)"

definition switch_request :: "modifier_keys \<Rightarrow> u8 \<Rightarrow> nat option" where
  "switch_request m sc =
     (if l_alt m \<or> r_alt m
      then (if sc = 0x3B then Some 0 else if sc = 0x3C then Some 1 else if sc = 0x3D then Some 2 else None)
      else None)"

definition handle_keypress :: "u8 \<Rightarrow> u8 \<Rightarrow> tty \<Rightarrow> tty \<times> nat option" where
  "handle_keypress sc nxt s0 =
     (let (m, held) = key_modifiers sc nxt (modifiers s0) (caps_held s0);
          s = s0\<lparr>modifiers := m, caps_held := held\<rparr>;
          (ret, s1) = (if sc = 0x0E then key_backspace s else (False, s))
      in if ret then (s1, None)
         else if sc > 0x3F then (s1, None)
         else (let pressed = translate_key m sc
               in if (l_ctrl m \<or> r_ctrl m) \<and> (pressed = ch CHR ''l'' \<or> pressed = ch CHR ''L'')
                  then (clear_terminal (active_terminal_index s1) s1, None)
                  else if switch_request m sc \<noteq> None then (s1, switch_request m sc)
                  else if pressed = 0 then (s1, None)
                  else if l_alt m \<or> r_alt m \<or> l_ctrl m \<or> r_ctrl m then (s1, None)
                  else (key_accept pressed s1, None)))"

section \<open>Reading and writing\<close>

text \<open>
  \<open>terminal_read\<close> caps the request at the buffer size and waits; \<open>before\<close> is the byte in front
  of the buffer, which the loop reads while the buffer is empty.
\<close>

definition read_cap :: "u32 \<Rightarrow> u32" where
  "read_cap num_bytes =
     (if sint num_bytes > int TERMINAL_BUFFER_SIZE then of_nat TERMINAL_BUFFER_SIZE else num_bytes)"

definition read_ready :: "u8 \<Rightarrow> terminal \<Rightarrow> u32 \<Rightarrow> bool" where
  "read_ready before t num \<longleftrightarrow>
     \<not> int (chars_in_buffer t) < sint num
     \<or> (if chars_in_buffer t = 0 then before else buffer t ! (chars_in_buffer t - 1)) = 10"

text \<open>The part after the wait: the bytes for the caller and the terminal.\<close>

definition read_take :: "terminal \<Rightarrow> u32 \<Rightarrow> u8 list \<times> terminal" where
  "read_take t num =
     (let chars = chars_in_buffer t;
          retval = (if unat num < chars then unat num else chars)
      in (take retval (buffer t),
          t\<lparr>chars_in_buffer := chars - retval,
            buffer := drop retval (buffer t) @ drop (TERMINAL_BUFFER_SIZE - retval) (buffer t)\<rparr>))"

text \<open>
  The waiting reader polls with interrupts on, so any number of keys can be pressed between two
  of its loads from the terminal: the count in the loop's test, the count again as an index, the
  byte there, and the final copy, which runs with interrupts off.  The reader stands before one
  of these points; \<open>bursts\<close> lists, for each point it comes to, the keys pressed before it.  The
  result is the bytes, the state and the bursts left.  A key press that asks for another
  terminal is carried out by \<open>sw\<close>.
\<close>

datatype read_point = At_count | At_index | At_byte nat | At_take

definition press :: "(nat \<Rightarrow> tty \<Rightarrow> tty) \<Rightarrow> u8 \<times> u8 \<Rightarrow> tty \<Rightarrow> tty" where
  "press sw key s =
     (case handle_keypress (fst key) (snd key) s of
        (s', None) \<Rightarrow> s' | (s', Some k) \<Rightarrow> sw k s')"

fun terminal_wait ::
    "(nat \<Rightarrow> tty \<Rightarrow> tty) \<Rightarrow> u8 \<Rightarrow> nat \<Rightarrow> u32 \<Rightarrow> read_point \<Rightarrow> (u8 \<times> u8) list list \<Rightarrow> tty
       \<Rightarrow> (u8 list \<times> tty \<times> (u8 \<times> u8) list list) option" where
  "terminal_wait sw before i num pc [] s = None"
| "terminal_wait sw before i num pc (keys # bursts) s =
     (let s1 = fold (press sw) keys s; t = term_of s1 i
      in case pc of
           At_count \<Rightarrow>
             terminal_wait sw before i num
               (if int (chars_in_buffer t) < sint num then At_index else At_take) bursts s1
         | At_index \<Rightarrow> terminal_wait sw before i num (At_byte (chars_in_buffer t)) bursts s1
         | At_byte c \<Rightarrow>
             terminal_wait sw before i num
               (if (if c = 0 then before else buffer t ! (c - 1)) = 10 then At_take else At_count)
               bursts s1
         | At_take \<Rightarrow> Some (fst (read_take t num), set_term i (\<lambda>t. snd (read_take t num)) s1, bursts))"

definition terminal_read ::
    "(nat \<Rightarrow> tty \<Rightarrow> tty) \<Rightarrow> u8 \<Rightarrow> nat \<Rightarrow> nat \<Rightarrow> bool \<Rightarrow> u32 \<Rightarrow> (u8 \<times> u8) list list \<Rightarrow> tty
       \<Rightarrow> (int \<times> u8 list \<times> tty \<times> (u8 \<times> u8) list list) option" where
  "terminal_read sw before i fd null num_bytes bursts s =
     (if fd = 1 \<or> null then Some (-1, [], s, bursts)
      else map_option (\<lambda>(bs, s', rest). (int (length bs), bs, s', rest))
             (terminal_wait sw before i (read_cap num_bytes) At_count bursts s))"

text \<open>\<open>terminal_write\<close> of the bytes \<open>bs\<close>, the first \<open>characters\<close> bytes at the caller's pointer.\<close>

definition terminal_write :: "nat \<Rightarrow> nat \<Rightarrow> u8 list option \<Rightarrow> tty \<Rightarrow> int \<times> tty" where
  "terminal_write i fd bs s =
     (if fd = 0 then (-1, s)
      else (case bs of None \<Rightarrow> (-1, s)
            | Some cs \<Rightarrow> (int (length cs), fold (\<lambda>c. terminal_putc c ATTRIB i) cs s)))"

definition terminal_open :: int where "terminal_open = 0"
definition terminal_close :: int where "terminal_close = -1"

section \<open>The screen as a list of cells\<close>

definition cell :: "mem \<Rightarrow> u32 \<Rightarrow> nat \<Rightarrow> u8 \<times> u8" where
  "cell m v k = (m (v + of_nat (2 * k)), m (v + of_nat (2 * k + 1)))"

definition screen :: "mem \<Rightarrow> u32 \<Rightarrow> (u8 \<times> u8) list" where
  "screen m v = map (cell m v) [0..<2000]"

lemma length_screen [simp]: "length (screen m v) = 2000"
  by (simp add: screen_def)

lemma nth_screen [simp]: "k < 2000 \<Longrightarrow> screen m v ! k = cell m v k"
  by (simp add: screen_def)

lemma addr_eq_iff:
  "a < 2 ^ 32 \<Longrightarrow> b < 2 ^ 32 \<Longrightarrow> (v + of_nat a = v + (of_nat b :: u32)) = (a = b)"
  by (simp add: of_nat_u32_eq_iff)

lemma put_cell_alt:
  "put_cell v i c attr m = store (store m (v + of_nat (2 * i)) c) (v + of_nat (2 * i + 1)) attr"
  by (simp add: put_cell_def add.assoc add.commute [of 1])

lemma cell_put_cell:
  "i < 2000 \<Longrightarrow> k < 2000 \<Longrightarrow>
     cell (put_cell v i c attr m) v k = (if k = i then (c, attr) else cell m v k)"
proof -
  assume ik: "i < 2000" "k < 2000"
  have e: "(v + of_nat (2 * k) = v + of_nat (2 * i + 1)) = False"
    "(v + of_nat (2 * k + 1) = v + of_nat (2 * i)) = False"
    "(v + of_nat (2 * k) = v + of_nat (2 * i)) = (k = i)"
    "(v + of_nat (2 * k + 1) = v + of_nat (2 * i + 1)) = (k = i)"
    using ik by (subst addr_eq_iff; simp; presburger?)+
  show ?thesis unfolding cell_def put_cell_alt store_apply e by simp
qed

lemma copy_cell_put:
  "i < 2000 \<Longrightarrow> j < 2000 \<Longrightarrow>
     copy_cell v i j m = put_cell v i (fst (cell m v j)) (snd (cell m v j)) m"
proof -
  assume ij: "i < 2000" "j < 2000"
  have "v + of_nat (2 * j) + 1 \<noteq> v + of_nat (2 * i)"
    using addr_eq_iff [of "2 * j + 1" "2 * i" v] ij by (simp add: add_ac) presburger
  then show ?thesis
    by (simp add: copy_cell_def put_cell_def cell_def store_apply add_ac)
qed

text \<open>Nothing outside the 4000 bytes of the screen changes.\<close>

definition off_screen :: "u32 \<Rightarrow> u32 \<Rightarrow> bool" where
  "off_screen v x \<longleftrightarrow> 4000 \<le> unat (x - v)"

lemma put_cell_off: "i < 2000 \<Longrightarrow> off_screen v x \<Longrightarrow> put_cell v i c attr m x = m x"
  unfolding put_cell_alt store_apply off_screen_def
  using offset_iff [of "2 * i" x v] offset_iff [of "2 * i + 1" x v] by auto

lemma fold_put_cell:
  "n \<le> 2000 \<Longrightarrow> k < 2000 \<Longrightarrow>
     cell (fold (\<lambda>i. put_cell v i c attr) [j..<n] m) v k =
       (if j \<le> k \<and> k < n then (c, attr) else cell m v k)"
proof (induction n)
  case (Suc n)
  then show ?case by (cases "j \<le> n") (auto simp: cell_put_cell)
qed simp

lemma fold_put_cell_off:
  "n \<le> 2000 \<Longrightarrow> off_screen v x \<Longrightarrow> fold (\<lambda>i. put_cell v i c attr) [j..<n] m x = m x"
proof (induction n)
  case (Suc n)
  then show ?case by (cases "j \<le> n") (auto simp: put_cell_off)
qed simp

lemma fold_copy_cell:
  "n \<le> 1920 \<Longrightarrow> k < 2000 \<Longrightarrow>
     cell (fold (\<lambda>i. copy_cell v i (i + NUM_COLS)) [0..<n] m) v k =
       (if k < n then cell m v (k + NUM_COLS) else cell m v k)"
proof (induction n arbitrary: k)
  case (Suc n)
  then show ?case by (auto simp: copy_cell_put cell_put_cell NUM_COLS_def)
qed simp

lemma fold_copy_cell_off:
  "n \<le> 1920 \<Longrightarrow> off_screen v x \<Longrightarrow> fold (\<lambda>i. copy_cell v i (i + NUM_COLS)) [0..<n] m x = m x"
proof (induction n)
  case (Suc n)
  then show ?case by (simp add: copy_cell_put put_cell_off NUM_COLS_def)
qed simp

text \<open>Scrolling drops the top line and adds a blank one at the bottom.\<close>

lemma screen_size: "NUM_COLS * NUM_ROWS = 2000" "NUM_COLS * (NUM_ROWS - Suc 0) = 1920"
  by (simp_all add: NUM_COLS_def NUM_ROWS_def)

lemma cell_scroll_up:
  assumes "k < 2000"
  shows "cell (scroll_up v m) v k = (if 1920 \<le> k then (32, ATTRIB) else cell m v (k + 80))"
proof -
  define m' where "m' = fold (\<lambda>i. copy_cell v i (i + NUM_COLS)) [0..<NUM_COLS * (NUM_ROWS - 1)] m"
  have "cell m' v k = (if k < NUM_COLS * (NUM_ROWS - 1) then cell m v (k + NUM_COLS) else cell m v k)"
    unfolding m'_def by (rule fold_copy_cell) (simp_all add: screen_size assms)
  moreover have "cell (scroll_up v m) v k =
      (if NUM_COLS * (NUM_ROWS - 1) \<le> k \<and> k < NUM_COLS * NUM_ROWS then (ch CHR '' '', ATTRIB) else cell m' v k)"
    unfolding scroll_up_def m'_def by (rule fold_put_cell) (simp_all add: screen_size assms)
  moreover have "NUM_COLS = 80" by (simp add: NUM_COLS_def)
  ultimately show ?thesis using assms screen_size by simp
qed

lemma screen_scroll_up: "screen (scroll_up v m) v = drop 80 (screen m v) @ replicate 80 (32, 7)"
  by (rule nth_equalityI) (simp_all add: cell_scroll_up nth_append ATTRIB_def add.commute)

lemma scroll_up_off:
  assumes "off_screen v x"
  shows "scroll_up v m x = m x"
proof -
  let ?m = "fold (\<lambda>i. copy_cell v i (i + NUM_COLS)) [0..<NUM_COLS * (NUM_ROWS - 1)] m"
  have "scroll_up v m x = ?m x"
    unfolding scroll_up_def by (rule fold_put_cell_off) (simp_all add: screen_size assms)
  also have "\<dots> = m x" by (rule fold_copy_cell_off) (simp_all add: screen_size assms)
  finally show ?thesis .
qed

lemma screen_put_cell: "i < 2000 \<Longrightarrow> screen (put_cell v i c attr m) v = (screen m v)[i := (c, attr)]"
  by (rule nth_equalityI) (simp_all add: cell_put_cell nth_list_update)

lemma screen_cong:
  assumes "\<And>x. \<not> off_screen v x \<Longrightarrow> m x = m' x"
  shows "screen m v = screen m' v"
proof -
  have "unat (v + of_nat n - v) = n" if "n < 4000" for n using that by simp
  then have "m (v + of_nat n) = m' (v + of_nat n)" if "n < 4000" for n
    using that by (intro assms) (simp add: off_screen_def)
  then show ?thesis by (simp add: screen_def cell_def del: of_nat_add of_nat_mult of_nat_Suc)
qed

section \<open>The terminals stay well formed\<close>

definition storage_of :: "nat \<Rightarrow> u32" where
  "storage_of i = 0xB9000 + 0x1000 * of_nat i"

definition term_ok :: "nat \<Rightarrow> nat \<Rightarrow> terminal \<Rightarrow> bool" where
  "term_ok a i t \<longleftrightarrow> length (buffer t) = TERMINAL_BUFFER_SIZE \<and> pos_x t < NUM_COLS
     \<and> pos_y t < NUM_ROWS \<and> chars_in_buffer t \<le> TERMINAL_BUFFER_SIZE
     \<and> storage_location t = storage_of i
     \<and> video_start t = (if i = a then VIDEO_BASE else storage_of i)"

definition tty_ok :: "tty \<Rightarrow> bool" where
  "tty_ok s \<longleftrightarrow> length (terminals s) = NUM_TERMINALS \<and> active_terminal_index s < NUM_TERMINALS
     \<and> (\<forall>i < NUM_TERMINALS. term_ok (active_terminal_index s) i (term_of s i))"

lemma less3: "(i :: nat) < 3 \<Longrightarrow> i = 0 \<or> i = 1 \<or> i = 2"
  by linarith

lemma tty_okD:
  assumes "tty_ok s" and "i < 3"
  shows "term_ok (active_terminal_index s) i (term_of s i)" and "i < length (terminals s)"
  using assms by (auto simp: tty_ok_def NUM_TERMINALS_def)

text \<open>The video pages of different terminals do not meet.\<close>

definition video_of :: "tty \<Rightarrow> nat \<Rightarrow> u32" where
  "video_of s i = (if i = active_terminal_index s then VIDEO_BASE else storage_of i)"

lemma video_start_of: "tty_ok s \<Longrightarrow> i < 3 \<Longrightarrow> video_start (term_of s i) = video_of s i"
  using tty_okD by (simp add: term_ok_def video_of_def)

definition video_pages :: "u32 set" where
  "video_pages = {0xB8000, 0xB9000, 0xBA000, 0xBB000}"

lemma video_pages_disj:
  "p \<in> video_pages \<Longrightarrow> q \<in> video_pages \<Longrightarrow> p \<noteq> q \<Longrightarrow> disj p 4000 q 4000"
  unfolding video_pages_def by (elim insertE emptyE; simp add: disj_def)

lemma storage_pages: "storage_of 0 = 0xB9000" "storage_of 1 = 0xBA000" "storage_of 2 = 0xBB000"
  by (simp_all add: storage_of_def)

lemma storage_of_page: "i < 3 \<Longrightarrow> storage_of i \<in> video_pages \<and> storage_of i \<noteq> VIDEO_BASE"
  using less3 [of i] storage_pages by (auto simp: video_pages_def VIDEO_BASE_def)

lemma storage_of_inj: "i < 3 \<Longrightarrow> j < 3 \<Longrightarrow> i \<noteq> j \<Longrightarrow> storage_of i \<noteq> storage_of j"
  by (drule less3, drule less3) (elim disjE; simp add: storage_of_def)

lemma video_disj:
  assumes "i < 3" and "j < 3" and "i \<noteq> j"
  shows "disj (video_of s i) 4000 (video_of s j) 4000"
proof (rule video_pages_disj)
  have "VIDEO_BASE \<in> video_pages" by (simp add: video_pages_def VIDEO_BASE_def)
  then show "video_of s i \<in> video_pages" "video_of s j \<in> video_pages" "video_of s i \<noteq> video_of s j"
    using storage_of_page [of i] storage_of_page [of j] storage_of_inj [of i j] assms
    by (auto simp: video_of_def)
qed

lemma video_off:
  assumes "i < 3" and "j < 3" and "i \<noteq> j" and "\<not> off_screen (video_of s j) x"
  shows "off_screen (video_of s i) x"
  using disj_outside [OF video_disj [OF assms(2,1) assms(3) [symmetric]], of x s] assms(4)
  by (simp add: off_screen_def not_le)

text \<open>What a terminal shows: cursor position and cells.\<close>

definition view :: "tty \<Rightarrow> nat \<Rightarrow> nat \<times> nat \<times> (u8 \<times> u8) list" where
  "view s i = (pos_x (term_of s i), pos_y (term_of s i), screen (vram s) (video_start (term_of s i)))"

text \<open>Printing on an abstract screen.\<close>

definition abs_putc ::
    "u8 \<Rightarrow> u8 \<Rightarrow> nat \<times> nat \<times> (u8 \<times> u8) list \<Rightarrow> nat \<times> nat \<times> (u8 \<times> u8) list" where
  "abs_putc c attr w =
     (let (x, y, cs) = w;
          (x1, y1, cs1) = (if newline_char c then (0, y + 1, cs)
                           else if x + 1 = 80 then (0, y + 1, cs[80 * y + x := (c, attr)])
                           else (x + 1, y, cs[80 * y + x := (c, attr)]))
      in if y1 = 25 then (x1, 24, drop 80 cs1 @ replicate 80 (32, 7)) else (x1, y1, cs1))"

lemma term_of_set_term [simp]:
  "i < length (terminals s) \<Longrightarrow> terminals (set_term i f s) ! j = (if j = i then f (terminals s ! i) else terminals s ! j)"
  by (simp add: set_term_def nth_list_update)

lemma set_term_simps [simp]:
  "vram (set_term i f s) = vram s" "active_terminal_index (set_term i f s) = active_terminal_index s"
  "length (terminals (set_term i f s)) = length (terminals s)"
  "modifiers (set_term i f s) = modifiers s" "caps_held (set_term i f s) = caps_held s"
  "ports (set_term i f s) = ports s"
  by (simp_all add: set_term_def)

lemma cursor_to_simps [simp]:
  "terminals (cursor_to x y s) = terminals s" "vram (cursor_to x y s) = vram s"
  "active_terminal_index (cursor_to x y s) = active_terminal_index s"
  "modifiers (cursor_to x y s) = modifiers s" "caps_held (cursor_to x y s) = caps_held s"
  by (simp_all add: cursor_to_def)

text \<open>Where a character leaves the cursor before scrolling, and the memory.\<close>

definition next_x :: "u8 \<Rightarrow> terminal \<Rightarrow> nat" where
  "next_x c t = (if newline_char c \<or> pos_x t + 1 \<ge> NUM_COLS then 0 else pos_x t + 1)"

definition next_y :: "u8 \<Rightarrow> terminal \<Rightarrow> nat" where
  "next_y c t = (if newline_char c \<or> pos_x t + 1 \<ge> NUM_COLS then pos_y t + 1 else pos_y t)"

definition placed :: "u8 \<Rightarrow> u8 \<Rightarrow> terminal \<Rightarrow> mem \<Rightarrow> mem" where
  "placed c attr t m = (if newline_char c then m
     else put_cell (video_start t) (NUM_COLS * pos_y t + pos_x t) c attr m)"

lemma pos_swap: "t\<lparr>pos_y := y, pos_x := x\<rparr> = t\<lparr>pos_x := x, pos_y := y\<rparr>"
  by (cases t) simp

lemma putc_place_eq:
  "putc_place c attr i s = s\<lparr>vram := placed c attr (term_of s i) (vram s),
     terminals := (terminals s)[i := (term_of s i)\<lparr>pos_x := next_x c (term_of s i),
                                                 pos_y := next_y c (term_of s i)\<rparr>]\<rparr>"
  by (simp add: putc_place_def Let_def placed_def next_x_def next_y_def set_term_def pos_swap)

lemma next_bounds:
  "pos_x t < NUM_COLS \<Longrightarrow> next_x c t < NUM_COLS" "pos_y t < NUM_ROWS \<Longrightarrow> next_y c t \<le> NUM_ROWS"
  by (auto simp: next_x_def next_y_def NUM_COLS_def)

text \<open>
  The effect of \<open>terminal_putc\<close>: on the terminal record only the position changes, in memory
  only the screen of the terminal.
\<close>

definition putc_result :: "u8 \<Rightarrow> u8 \<Rightarrow> terminal \<Rightarrow> mem \<Rightarrow> terminal \<times> mem" where
  "putc_result c attr t m =
     (let x = next_x c t; y = next_y c t; m1 = placed c attr t m
      in if y \<ge> NUM_ROWS then (t\<lparr>pos_x := x, pos_y := NUM_ROWS - 1\<rparr>, scroll_up (video_start t) m1)
         else (t\<lparr>pos_x := x, pos_y := y\<rparr>, m1))"

lemma terminal_putc_eq:
  assumes "i < length (terminals s)"
  shows "terminal_putc c attr i s =
    (let (t, m) = putc_result c attr (term_of s i) (vram s);
         s' = s\<lparr>vram := m, terminals := (terminals s)[i := t]\<rparr>
     in if i = active_terminal_index s then cursor_to (pos_x t) (pos_y t) s' else s')"
  using assms
  by (cases "NUM_ROWS \<le> next_y c (term_of s i)"; cases "i = active_terminal_index s")
    (simp_all add: terminal_putc_def putc_place_eq putc_result_def Let_def set_term_def)

lemma putc_result_ok:
  assumes "pos_x t < NUM_COLS" and "pos_y t < NUM_ROWS"
  shows "(pos_x (fst (putc_result c attr t m)), pos_y (fst (putc_result c attr t m)),
      screen (snd (putc_result c attr t m)) (video_start t))
    = abs_putc c attr (pos_x t, pos_y t, screen m (video_start t))"
    and "pos_x (fst (putc_result c attr t m)) < NUM_COLS"
    and "pos_y (fst (putc_result c attr t m)) < NUM_ROWS"
    and "off_screen (video_start t) x \<Longrightarrow> snd (putc_result c attr t m) x = m x"
    and "\<exists>x y. fst (putc_result c attr t m) = t\<lparr>pos_x := x, pos_y := y\<rparr>"
proof -
  have k: "NUM_COLS * pos_y t + pos_x t < 2000" using assms by (simp add: NUM_COLS_def NUM_ROWS_def)
  show "(pos_x (fst (putc_result c attr t m)), pos_y (fst (putc_result c attr t m)),
      screen (snd (putc_result c attr t m)) (video_start t))
    = abs_putc c attr (pos_x t, pos_y t, screen m (video_start t))"
    using assms k
    by (auto simp: putc_result_def abs_putc_def placed_def next_x_def next_y_def Let_def
        screen_scroll_up screen_put_cell NUM_COLS_def NUM_ROWS_def)
  show "pos_x (fst (putc_result c attr t m)) < NUM_COLS" "pos_y (fst (putc_result c attr t m)) < NUM_ROWS"
    using assms next_bounds by (auto simp: putc_result_def Let_def NUM_ROWS_def)
  show "off_screen (video_start t) x \<Longrightarrow> snd (putc_result c attr t m) x = m x"
    using k by (auto simp: putc_result_def Let_def placed_def scroll_up_off put_cell_off)
  show "\<exists>x y. fst (putc_result c attr t m) = t\<lparr>pos_x := x, pos_y := y\<rparr>"
    by (auto simp: putc_result_def Let_def)
qed

lemma putc_effect:
  assumes ok: "tty_ok s" and i: "i < 3"
  shows "view (terminal_putc c attr i s) i = abs_putc c attr (view s i)"
    and "j < 3 \<Longrightarrow> j \<noteq> i \<Longrightarrow> view (terminal_putc c attr i s) j = view s j"
    and "tty_ok (terminal_putc c attr i s)"
    and "\<exists>x y. terminals (terminal_putc c attr i s) = (terminals s)[i := (term_of s i)\<lparr>pos_x := x, pos_y := y\<rparr>]"
    and "active_terminal_index (terminal_putc c attr i s) = active_terminal_index s"
    and "modifiers (terminal_putc c attr i s) = modifiers s"
    and "caps_held (terminal_putc c attr i s) = caps_held s"
proof -
  let ?t = "term_of s i"
  let ?r = "putc_result c attr ?t (vram s)"
  let ?s = "terminal_putc c attr i s"
  have il: "i < length (terminals s)" using tty_okD [OF ok i] by blast
  have p: "pos_x ?t < NUM_COLS" "pos_y ?t < NUM_ROWS" using tty_okD [OF ok i] by (simp_all add: term_ok_def)
  note r = putc_result_ok [OF p, where c = c and attr = attr and m = "vram s"]
  have eq: "terminals ?s = (terminals s)[i := fst ?r]" "vram ?s = snd ?r"
    "active_terminal_index ?s = active_terminal_index s" "modifiers ?s = modifiers s"
    "caps_held ?s = caps_held s"
    by (simp_all add: terminal_putc_eq [OF il] Let_def case_prod_beta)
  obtain x y where xy: "fst ?r = ?t\<lparr>pos_x := x, pos_y := y\<rparr>" using r(5) by blast
  show "view ?s i = abs_putc c attr (view s i)"
    using r(1) il xy by (simp add: view_def eq)
  show "\<exists>x y. terminals ?s = (terminals s)[i := ?t\<lparr>pos_x := x, pos_y := y\<rparr>]"
    using xy eq by auto
  have "term_ok (active_terminal_index s) i (fst ?r)"
    using tty_okD(1) [OF ok i] r(2,3) xy by (simp add: term_ok_def)
  then show "tty_ok ?s"
    using ok il by (auto simp: tty_ok_def eq nth_list_update)
  show "active_terminal_index ?s = active_terminal_index s" "modifiers ?s = modifiers s"
    "caps_held ?s = caps_held s" by (simp_all add: eq)
  assume j: "j < 3" "j \<noteq> i"
  have "snd ?r x = vram s x" if "\<not> off_screen (video_of s j) x" for x
    using video_off [OF i j(1) j(2) [symmetric] that] r(4) [of x] video_start_of [OF ok i] by simp
  then have "screen (snd ?r) (video_of s j) = screen (vram s) (video_of s j)"
    by (intro screen_cong) blast
  then show "view ?s j = view s j" using j il by (simp add: view_def eq video_start_of [OF ok j(1)])
qed

end
