(* ===== verification/Terminal_Spec.thy ===== *)
theory Terminal_Spec
  imports Terminal CLib_Mem
begin

text \<open>
  What the terminals promise.  The screen of a terminal behaves as a list of 2000 cells with a
  cursor; the line buffer behaves as a line editor; a read hands out the line in order; a
  switch of the visible terminal moves screens between pages without changing what any
  terminal shows.
\<close>

section \<open>Switching the visible terminal\<close>

text \<open>
  The part of \<open>switch_terminal\<close> that moves the screens: the visible page is saved, the page of
  the next terminal is copied to the display, and the two records trade their start addresses.
\<close>

definition switch_screen :: "nat \<Rightarrow> tty \<Rightarrow> tty" where
  "switch_screen nxt s =
     (let a = active_terminal_index s;
          m1 = memcpy (vram s) (storage_location (term_of s a)) (video_start (term_of s a)) KB_4;
          m2 = memcpy m1 VIDEO_BASE (storage_location (term_of s nxt)) KB_4;
          s1 = cursor_to (pos_x (term_of s nxt)) (pos_y (term_of s nxt)) (s\<lparr>vram := m2\<rparr>);
          s2 = set_term a (\<lambda>t. t\<lparr>video_start := storage_location t\<rparr>) s1;
          s3 = set_term nxt (\<lambda>t. t\<lparr>video_start := VIDEO_BASE\<rparr>) s2
      in s3\<lparr>active_terminal_index := nxt\<rparr>)"

lemma unat_KB_4: "unat KB_4 = 4096"
  by (simp add: KB_4_def)

lemma pages_disj_4096:
  "p \<in> video_pages \<Longrightarrow> q \<in> video_pages \<Longrightarrow> p \<noteq> q \<Longrightarrow> disj p 4096 q 4096"
  unfolding video_pages_def by (elim insertE emptyE; simp add: disj_def)

lemma screen_of_rd:
  assumes "rd m v 4096 = rd m' v' 4096"
  shows "screen m v = screen m' v'"
proof -
  have "m (v + of_nat k) = m' (v' + of_nat k)" if "k < 4096" for k
    using arg_cong [OF assms, of "\<lambda>xs. xs ! k"] that by (simp del: of_nat_add)
  then show ?thesis by (simp add: screen_def cell_def del: of_nat_add of_nat_mult of_nat_Suc)
qed

text \<open>Copying one video page to another.\<close>

lemma page_copy:
  assumes "p \<in> video_pages" and "q \<in> video_pages" and "p \<noteq> q"
  shows "rd (memcpy m q p KB_4) q 4096 = rd m p 4096"
    and "r \<in> video_pages \<Longrightarrow> r \<noteq> q \<Longrightarrow> rd (memcpy m q p KB_4) r 4096 = rd m r 4096"
proof -
  have w: "memcpy m q p KB_4 = wr m q (rd m p 4096)"
    using memcpy_wr [of p KB_4 q m] pages_disj_4096 [OF assms] by (simp add: unat_KB_4)
  show "rd (memcpy m q p KB_4) q 4096 = rd m p 4096"
    using rd_wr_same [of "rd m p 4096" m q] by (simp add: w)
  show "r \<in> video_pages \<Longrightarrow> r \<noteq> q \<Longrightarrow> rd (memcpy m q p KB_4) r 4096 = rd m r 4096"
    using rd_wr_disj [of r 4096 q "rd m p 4096" m] pages_disj_4096 [of r q] assms(2) by (simp add: w)
qed

text \<open>The typed, not yet read part of a terminal's buffer.\<close>

definition line :: "tty \<Rightarrow> nat \<Rightarrow> u8 list" where
  "line s i = take (chars_in_buffer (term_of s i)) (buffer (term_of s i))"

lemma page_ids:
  "i < 3 \<Longrightarrow> storage_of i \<in> video_pages" "i < 3 \<Longrightarrow> storage_of i \<noteq> VIDEO_BASE"
  "i < 3 \<Longrightarrow> VIDEO_BASE \<noteq> storage_of i" "VIDEO_BASE \<in> video_pages"
  using storage_of_page [of i] by (auto simp: video_pages_def VIDEO_BASE_def)

lemma switch_effect:
  assumes ok: "tty_ok s" and n: "nxt < 3" "nxt \<noteq> active_terminal_index s"
  shows "i < 3 \<Longrightarrow> view (switch_screen nxt s) i = view s i"
    and "i < 3 \<Longrightarrow> line (switch_screen nxt s) i = line s i"
    and "tty_ok (switch_screen nxt s)"
    and "active_terminal_index (switch_screen nxt s) = nxt"
    and "modifiers (switch_screen nxt s) = modifiers s"
    and "caps_held (switch_screen nxt s) = caps_held s"
proof -
  define a where "a = active_terminal_index s"
  have a: "a < 3" "nxt \<noteq> a" using ok n by (simp_all add: tty_ok_def NUM_TERMINALS_def a_def)
  note tn = tty_okD [OF ok n(1)] and ta = tty_okD [OF ok a(1)]
  have va: "video_start (term_of s a) = VIDEO_BASE" "storage_location (term_of s a) = storage_of a"
    "storage_location (term_of s nxt) = storage_of nxt"
    using ta tn by (simp_all add: term_ok_def a_def)
  define m1 where "m1 = memcpy (vram s) (storage_of a) VIDEO_BASE KB_4"
  define m2 where "m2 = memcpy m1 VIDEO_BASE (storage_of nxt) KB_4"
  let ?s = "switch_screen nxt s"
  have eq: "active_terminal_index ?s = nxt" "vram ?s = m2" "modifiers ?s = modifiers s"
    "caps_held ?s = caps_held s" "length (terminals ?s) = length (terminals s)"
    by (simp_all add: switch_screen_def Let_def a_def [symmetric] va m1_def m2_def)
  have tm: "term_of ?s j = (if j = a then (term_of s a)\<lparr>video_start := storage_of a\<rparr>
      else if j = nxt then (term_of s nxt)\<lparr>video_start := VIDEO_BASE\<rparr> else term_of s j)" for j
    using ta(2) tn(2) a by (simp add: switch_screen_def Let_def a_def [symmetric] va)
  show "active_terminal_index ?s = nxt" "modifiers ?s = modifiers s" "caps_held ?s = caps_held s"
    by (simp_all add: eq)
  show "i < 3 \<Longrightarrow> line ?s i = line s i" by (simp add: line_def tm)
  show "tty_ok ?s"
    using ok n a by (auto simp: tty_ok_def eq tm term_ok_def a_def [symmetric] NUM_TERMINALS_def)
  assume i: "i < 3"
  have r1: "rd m1 (storage_of a) 4096 = rd (vram s) VIDEO_BASE 4096"
    and r1': "\<And>r. r \<in> video_pages \<Longrightarrow> r \<noteq> storage_of a \<Longrightarrow> rd m1 r 4096 = rd (vram s) r 4096"
    unfolding m1_def using a page_ids by (blast intro: page_copy)+
  have r2: "rd m2 VIDEO_BASE 4096 = rd m1 (storage_of nxt) 4096"
    and r2': "\<And>r. r \<in> video_pages \<Longrightarrow> r \<noteq> VIDEO_BASE \<Longrightarrow> rd m2 r 4096 = rd m1 r 4096"
    unfolding m2_def using n page_ids by (blast intro: page_copy)+
  have vi: "video_start (term_of s i) = (if i = a then VIDEO_BASE else storage_of i)"
    using tty_okD(1) [OF ok i] by (simp add: term_ok_def a_def)
  have "rd m2 (video_start (term_of ?s i)) 4096 = rd (vram s) (video_start (term_of s i)) 4096"
  proof -
    consider (act) "i = a" | (new) "i = nxt" "i \<noteq> a" | (other) "i \<noteq> a" "i \<noteq> nxt" by blast
    then show ?thesis
    proof cases
      case act
      have "rd m2 (storage_of a) 4096 = rd m1 (storage_of a) 4096"
        using a(1) by (intro r2' page_ids)
      then show ?thesis using act r1 by (simp add: tm va)
    next
      case new
      have "rd m1 (storage_of nxt) 4096 = rd (vram s) (storage_of nxt) 4096"
        using n(1) a by (intro r1' page_ids storage_of_inj)
      then show ?thesis using new r2 vi by (simp add: tm)
    next
      case other
      have "rd m2 (storage_of i) 4096 = rd m1 (storage_of i) 4096"
        using i by (intro r2' page_ids)
      also have "\<dots> = rd (vram s) (storage_of i) 4096"
        using i a(1) other(1) by (intro r1' page_ids storage_of_inj)
      finally show ?thesis using other by (simp add: tm vi)
    qed
  qed
  then have "screen m2 (video_start (term_of ?s i)) = screen (vram s) (video_start (term_of s i))"
    by (rule screen_of_rd)
  then show "view ?s i = view s i" by (simp add: view_def eq(2)) (simp add: tm)
qed

section \<open>Keys\<close>

text \<open>Nothing another terminal shows or holds changes.\<close>

definition others_same :: "nat \<Rightarrow> tty \<Rightarrow> tty \<Rightarrow> bool" where
  "others_same a s s' \<longleftrightarrow> active_terminal_index s' = active_terminal_index s \<and>
     (\<forall>j < 3. j \<noteq> a \<longrightarrow> view s' j = view s j \<and> line s' j = line s j)"

lemma others_sameI:
  assumes "tty_ok s" and "a < 3" and "active_terminal_index s' = active_terminal_index s"
    and t: "\<And>j. j < 3 \<Longrightarrow> j \<noteq> a \<Longrightarrow> term_of s' j = term_of s j"
    and m: "\<And>x. off_screen (video_of s a) x \<Longrightarrow> vram s' x = vram s x"
  shows "others_same a s s'"
proof -
  have "screen (vram s') (video_of s j) = screen (vram s) (video_of s j)" if "j < 3" "j \<noteq> a" for j
    using video_off [of a j s] that assms(2) by (intro screen_cong m) auto
  then show ?thesis
    using assms(1,3) t by (auto simp: others_same_def view_def line_def video_start_of)
qed

lemma others_same_refl: "active_terminal_index s' = active_terminal_index s \<Longrightarrow>
    terminals s' = terminals s \<Longrightarrow> vram s' = vram s \<Longrightarrow> others_same a s s'"
  by (simp add: others_same_def view_def line_def)

lemma others_same_trans: "others_same a s s' \<Longrightarrow> others_same a s' s'' \<Longrightarrow> others_same a s s''"
  by (simp add: others_same_def)

lemma tty_ok_upd:
  assumes "tty_ok s" and "term_ok (active_terminal_index s) i t" and "i < 3"
    and "terminals s' = (terminals s)[i := t]" and "active_terminal_index s' = active_terminal_index s"
  shows "tty_ok s'"
proof -
  have "term_ok (active_terminal_index s) j ((terminals s)[i := t] ! j)" if "j < 3" for j
    using assms(1-3) that by (cases "i = j") (auto simp: tty_ok_def NUM_TERMINALS_def)
  then show ?thesis using assms by (simp add: tty_ok_def NUM_TERMINALS_def)
qed

lemma active_less: "tty_ok s \<Longrightarrow> active_terminal_index s < 3"
  by (simp add: tty_ok_def NUM_TERMINALS_def)

lemma active_term:
  assumes "tty_ok s"
  shows "video_start (term_of s (active_terminal_index s)) = video_of s (active_terminal_index s)"
    and "active_terminal_index s < length (terminals s)"
    and "pos_x (term_of s (active_terminal_index s)) < NUM_COLS"
    and "pos_y (term_of s (active_terminal_index s)) < NUM_ROWS"
    and "length (buffer (term_of s (active_terminal_index s))) = TERMINAL_BUFFER_SIZE"
    and "chars_in_buffer (term_of s (active_terminal_index s)) \<le> TERMINAL_BUFFER_SIZE"
  using tty_okD [OF assms active_less [OF assms]] video_start_of [OF assms active_less [OF assms]]
  by (simp_all add: term_ok_def)

lemma active_ok: "tty_ok s \<Longrightarrow>
    term_ok (active_terminal_index s) (active_terminal_index s) (term_of s (active_terminal_index s))"
  using tty_okD(1) [OF _ active_less] by blast

text \<open>Clearing the visible terminal.\<close>

lemma clear_effect:
  assumes ok: "tty_ok s"
  shows "tty_ok (clear_terminal (active_terminal_index s) s)"
    and "others_same (active_terminal_index s) s (clear_terminal (active_terminal_index s) s)"
    and "line (clear_terminal (active_terminal_index s) s) (active_terminal_index s)
      = line s (active_terminal_index s)"
    and "view (clear_terminal (active_terminal_index s) s) (active_terminal_index s)
      = (0, 0, replicate 2000 (32, 7))"
    and "modifiers (clear_terminal (active_terminal_index s) s) = modifiers s"
    and "caps_held (clear_terminal (active_terminal_index s) s) = caps_held s"
proof -
  let ?a = "active_terminal_index s" and ?s = "clear_terminal (active_terminal_index s) s"
  let ?t = "(term_of s ?a)\<lparr>pos_x := 0, pos_y := 0\<rparr>"
  let ?m = "fold (\<lambda>k. put_cell (video_of s ?a) k (ch CHR '' '') ATTRIB) [0..<NUM_ROWS * NUM_COLS] (vram s)"
  note A = active_term [OF ok] active_less [OF ok]
  have eq: "terminals ?s = (terminals s)[?a := ?t]" "vram ?s = ?m" "active_terminal_index ?s = ?a"
    "modifiers ?s = modifiers s" "caps_held ?s = caps_held s"
    using A by (simp_all add: clear_terminal_def Let_def set_term_def)
  have size: "NUM_ROWS * NUM_COLS = 2000" by (simp add: NUM_ROWS_def NUM_COLS_def)
  show "modifiers ?s = modifiers s" "caps_held ?s = caps_held s" by (simp_all add: eq)
  show "tty_ok ?s"
    by (rule tty_ok_upd [OF ok _ A(7) eq(1) eq(3)])
      (use active_ok [OF ok] in \<open>simp add: term_ok_def NUM_COLS_def NUM_ROWS_def\<close>)
  show "line ?s ?a = line s ?a" using A by (simp add: line_def eq)
  show "others_same ?a s ?s"
    by (rule others_sameI [OF ok A(7) eq(3)]) (simp_all add: eq fold_put_cell_off size)
  have "screen ?m (video_of s ?a) = replicate 2000 (32, 7)"
    by (rule nth_equalityI) (simp_all add: fold_put_cell size ATTRIB_def)
  then show "view ?s ?a = (0, 0, replicate 2000 (32, 7))"
    using A by (simp add: view_def eq)
qed

text \<open>One printed character, as a change of the visible terminal.\<close>

lemma putc_others:
  assumes ok: "tty_ok s" and i: "i < 3"
  shows "others_same i s (terminal_putc c attr i s)" and "line (terminal_putc c attr i s) i = line s i"
proof -
  obtain x y where t: "terminals (terminal_putc c attr i s) = (terminals s)[i := (term_of s i)\<lparr>pos_x := x, pos_y := y\<rparr>]"
    using putc_effect(4) [OF ok i] by blast
  show "others_same i s (terminal_putc c attr i s)"
    using putc_effect(2,5) [OF ok i, where c = c and attr = attr] t
    by (auto simp: others_same_def line_def)
  show "line (terminal_putc c attr i s) i = line s i"
    using t tty_okD(2) [OF ok i] by (simp add: line_def)
qed

text \<open>Backspace takes the last character off the line, also where it cannot move the cursor.\<close>

lemma take_update_pred:
  "n \<le> length xs \<Longrightarrow> take (n - 1) (xs[n - 1 := x]) = butlast (take n xs)"
  by (simp add: butlast_take)

lemma backspace_effect:
  assumes ok: "tty_ok s"
  shows "tty_ok (snd (key_backspace s))"
    and "others_same (active_terminal_index s) s (snd (key_backspace s))"
    and "line (snd (key_backspace s)) (active_terminal_index s) = butlast (line s (active_terminal_index s))"
    and "modifiers (snd (key_backspace s)) = modifiers s"
    and "caps_held (snd (key_backspace s)) = caps_held s"
proof -
  let ?a = "active_terminal_index s" and ?s = "snd (key_backspace s)"
  let ?t = "term_of s ?a"
  let ?n = "chars_in_buffer ?t - 1"
  let ?c = "?t\<lparr>chars_in_buffer := ?n, buffer := (buffer ?t)[?n := 0]\<rparr>"
  note A = active_term [OF ok] active_less [OF ok]
  have shape: "\<exists>t m. terminals ?s = (terminals s)[?a := t] \<and> vram ?s = m \<and> term_ok ?a ?a t
      \<and> (\<forall>x. off_screen (video_of s ?a) x \<longrightarrow> m x = vram s x)
      \<and> take (chars_in_buffer t) (buffer t) = butlast (line s ?a)"
    and rest: "active_terminal_index ?s = ?a" "modifiers ?s = modifiers s" "caps_held ?s = caps_held s"
  proof -
    show "active_terminal_index ?s = ?a" "modifiers ?s = modifiers s" "caps_held ?s = caps_held s"
      by (simp_all add: key_backspace_def Let_def)
    show "\<exists>t m. terminals ?s = (terminals s)[?a := t] \<and> vram ?s = m \<and> term_ok ?a ?a t
      \<and> (\<forall>x. off_screen (video_of s ?a) x \<longrightarrow> m x = vram s x)
      \<and> take (chars_in_buffer t) (buffer t) = butlast (line s ?a)"
    proof (cases "chars_in_buffer ?t = 0")
      case True
      then show ?thesis using active_ok [OF ok]
        by (intro exI [of _ ?t] exI [of _ "vram s"]) (simp add: key_backspace_def line_def)
    next
      case False
      have lb: "take ?n ((buffer ?t)[?n := 0]) = butlast (line s ?a)"
        unfolding line_def using A by (intro take_update_pred) simp
      have okc: "term_ok ?a ?a ?c" using active_ok [OF ok] by (auto simp: term_ok_def)
      show ?thesis
      proof (cases "pos_x ?t = 0 \<and> pos_y ?t = 0")
        case True
        then have "terminals ?s = (terminals s)[?a := ?c] \<and> vram ?s = vram s"
          using False by (simp add: key_backspace_def Let_def set_term_def)
        then show ?thesis using okc lb by (intro exI [of _ ?c] exI [of _ "vram s"]) simp
      next
        case pos: False
        let ?d = "if pos_x ?t = 0 then ?c\<lparr>pos_y := pos_y ?t - 1, pos_x := NUM_COLS - 1\<rparr> else ?c\<lparr>pos_x := pos_x ?t - 1\<rparr>"
        let ?k = "NUM_COLS * pos_y ?d + pos_x ?d"
        let ?m = "put_cell (video_of s ?a) ?k (ch CHR '' '') ATTRIB (vram s)"
        have "terminals ?s = (terminals s)[?a := ?d]" "vram ?s = ?m"
          using False pos A by (auto simp: key_backspace_def Let_def set_term_def)
        moreover have d: "term_ok ?a ?a ?d"
          using okc pos A(3,4) by (auto simp: term_ok_def NUM_COLS_def)
        moreover have "?k < 2000"
          using d by (simp add: term_ok_def NUM_COLS_def NUM_ROWS_def)
        then have "\<forall>x. off_screen (video_of s ?a) x \<longrightarrow> ?m x = vram s x" by (simp add: put_cell_off)
        ultimately show ?thesis using lb by (intro exI [of _ ?d] exI [of _ ?m]) simp
      qed
    qed
  qed
  then obtain t where t: "terminals ?s = (terminals s)[?a := t]" "term_ok ?a ?a t"
      "\<And>x. off_screen (video_of s ?a) x \<Longrightarrow> vram ?s x = vram s x"
      "take (chars_in_buffer t) (buffer t) = butlast (line s ?a)" by blast
  show "modifiers ?s = modifiers s" "caps_held ?s = caps_held s" by (simp_all add: rest)
  show "tty_ok ?s" by (rule tty_ok_upd [OF ok t(2) A(7) t(1) rest(1)])
  show "others_same ?a s ?s"
    by (rule others_sameI [OF ok A(7) rest(1)]) (simp_all add: t(1,3))
  show "line ?s ?a = butlast (line s ?a)" using t(1,4) A(2) by (simp add: line_def)
qed

text \<open>A character goes to the end of the line if there is room, and to the screen.\<close>

lemma accept_effect:
  fixes c :: u8
  assumes ok: "tty_ok s"
  defines "a \<equiv> active_terminal_index s"
  defines "room \<equiv> length (line s a) < 127 \<or> c = 10 \<and> length (line s a) < 128"
  shows "tty_ok (key_accept c s)"
    and "others_same a s (key_accept c s)"
    and "line (key_accept c s) a = (if room then line s a @ [c] else line s a)"
    and "view (key_accept c s) a = (if room then abs_putc c 7 (view s a) else view s a)"
    and "modifiers (key_accept c s) = modifiers s"
    and "caps_held (key_accept c s) = caps_held s"
proof -
  let ?s = "key_accept c s"
  note A = active_term [OF ok, folded a_def] active_less [OF ok, folded a_def]
  have ll: "length (line s a) = chars_in_buffer (term_of s a)" using A by (simp add: line_def)
  have r: "room \<longleftrightarrow> (chars_in_buffer (term_of s a) < TERMINAL_BUFFER_SIZE - 1
      \<or> c = 10 \<and> chars_in_buffer (term_of s a) < TERMINAL_BUFFER_SIZE)"
    by (simp add: room_def ll TERMINAL_BUFFER_SIZE_def)
  show "modifiers ?s = modifiers s" "caps_held ?s = caps_held s"
    using putc_effect(6,7) [OF ok A(7)] by (simp_all add: key_accept_def Let_def a_def [symmetric])
  have "tty_ok ?s \<and> others_same a s ?s
      \<and> line ?s a = (if room then line s a @ [c] else line s a)
      \<and> view ?s a = (if room then abs_putc c 7 (view s a) else view s a)"
  proof (cases room)
    case False
    then have "\<not> (chars_in_buffer (term_of s a) < TERMINAL_BUFFER_SIZE - 1
      \<or> c = 10 \<and> chars_in_buffer (term_of s a) < TERMINAL_BUFFER_SIZE)" using r by blast
    then have "?s = s" unfolding key_accept_def Let_def a_def [symmetric] by (rule if_not_P)
    with False ok show ?thesis by (simp add: others_same_refl)
  next
    case True
    let ?p = "terminal_putc c ATTRIB a s"
    let ?n = "chars_in_buffer (term_of ?p a)"
    let ?t = "(term_of ?p a)\<lparr>buffer := (buffer (term_of ?p a))[?n := c], chars_in_buffer := ?n + 1\<rparr>"
    have pok: "tty_ok ?p" and pa: "active_terminal_index ?p = a"
      using putc_effect(3,5) [OF ok A(7)] by (simp_all add: a_def)
    note P = active_term [OF pok, unfolded pa] tty_okD [OF pok A(7), unfolded pa]
    have eq: "?s = ?p\<lparr>terminals := (terminals ?p)[a := ?t]\<rparr>"
      using True r by (simp add: key_accept_def Let_def a_def [symmetric] set_term_def)
    have lp: "line ?p a = line s a" by (rule putc_others [OF ok A(7)])
    have "?n = length (line ?p a)" using P(5,6) by (simp add: line_def)
    then have n: "?n = length (line s a)" "?n < 128"
      using True by (auto simp: lp room_def)
    have tok: "term_ok a a ?t"
      using P(7) n(2) by (simp add: term_ok_def TERMINAL_BUFFER_SIZE_def)
    have "tty_ok ?s" by (rule tty_ok_upd [OF pok _ A(7)]) (use tok in \<open>simp_all add: eq pa\<close>)
    moreover have "others_same a ?p ?s"
      by (rule others_sameI [OF pok A(7)]) (simp_all add: eq)
    then have "others_same a s ?s"
      using putc_others(1) [OF ok A(7)] others_same_trans by blast
    moreover have "line ?s a = line ?p a @ [c]"
      using n(2) P by (simp add: eq line_def take_Suc_conv_app_nth TERMINAL_BUFFER_SIZE_def)
    moreover have "view ?s a = abs_putc c 7 (view s a)"
      using putc_effect(1) [OF ok A(7), of c ATTRIB] P(2) by (simp add: eq view_def ATTRIB_def)
    ultimately show ?thesis using True lp by simp
  qed
  then show "tty_ok ?s" "others_same a s ?s"
    "line ?s a = (if room then line s a @ [c] else line s a)"
    "view ?s a = (if room then abs_putc c 7 (view s a) else view s a)" by blast+
qed

text \<open>The line editor: what one scancode does to the line of the visible terminal.\<close>

definition edit_line :: "modifier_keys \<Rightarrow> u8 \<Rightarrow> u8 list \<Rightarrow> u8 list" where
  "edit_line m sc ln =
     (if sc = 0x0E then butlast ln
      else if sc > 0x3F then ln
      else (let c = translate_key m sc
            in if c = 0 \<or> l_alt m \<or> r_alt m \<or> l_ctrl m \<or> r_ctrl m then ln
               else if length ln < 127 \<or> c = 10 \<and> length ln < 128 then ln @ [c] else ln))"

lemma silent_keys:
  "sc = 0x0E \<or> sc = 0x3B \<or> sc = 0x3C \<or> sc = 0x3D \<Longrightarrow> translate_key m sc = 0"
  by (auto simp: translate_key_def LOWERCASE_SCANCODES_def SHIFTCASE_SCANCODES_def CAPSLOCK_SCANCODES_def)

lemma tty_ok_modifiers: "tty_ok (s\<lparr>modifiers := m, caps_held := h\<rparr>) = tty_ok s"
  by (simp add: tty_ok_def)

text \<open>The part of the handler after the modifiers and the backspace key.\<close>

definition key_rest :: "u8 \<Rightarrow> tty \<Rightarrow> tty \<times> nat option" where
  "key_rest sc s1 =
     (let m = modifiers s1; pressed = translate_key m sc
      in if sc > 0x3F then (s1, None)
         else if (l_ctrl m \<or> r_ctrl m) \<and> (pressed = ch CHR ''l'' \<or> pressed = ch CHR ''L'')
         then (clear_terminal (active_terminal_index s1) s1, None)
         else if switch_request m sc \<noteq> None then (s1, switch_request m sc)
         else if pressed = 0 then (s1, None)
         else if l_alt m \<or> r_alt m \<or> l_ctrl m \<or> r_ctrl m then (s1, None)
         else (key_accept pressed s1, None))"

lemma handle_keypress_rest:
  "handle_keypress sc nxt s0 =
     (let (m, held) = key_modifiers sc nxt (modifiers s0) (caps_held s0);
          s = s0\<lparr>modifiers := m, caps_held := held\<rparr>
      in if sc = 0x0E then (if fst (key_backspace s) then (snd (key_backspace s), None)
                            else key_rest sc (snd (key_backspace s)))
         else key_rest sc s)"
proof -
  have "modifiers (snd (key_backspace s)) = modifiers s" for s
    by (simp add: key_backspace_def Let_def)
  then show ?thesis
    by (simp add: handle_keypress_def key_rest_def Let_def case_prod_beta)
qed

lemma switch_request_key: "switch_request m sc = Some k \<Longrightarrow> k < 3 \<and> translate_key m sc = 0 \<and> (l_alt m \<or> r_alt m)"
  using silent_keys by (auto simp: switch_request_def split: if_splits)

lemma key_rest_effect:
  fixes sc :: u8
  assumes ok: "tty_ok s"
  defines "a \<equiv> active_terminal_index s"
  defines "s' \<equiv> fst (key_rest sc s)"
  shows "tty_ok s'" and "others_same a s s'" and "modifiers s' = modifiers s"
    and "line s' a = (if sc = 0x0E then line s a else edit_line (modifiers s) sc (line s a))"
proof -
  let ?m = "modifiers s" and ?c = "translate_key (modifiers s) sc"
  note C = clear_effect [OF ok, folded a_def]
  note K = accept_effect [OF ok, of ?c, folded a_def]
  have sil: "sc = 0x0E \<Longrightarrow> ?c = 0" using silent_keys by blast
  have id: "others_same a s s" by (rule others_same_refl) simp_all
  show "tty_ok s'" "others_same a s s'" "modifiers s' = modifiers s"
    using ok C(1,2,5) K(1,2,5) id by (simp_all add: s'_def key_rest_def Let_def a_def)
  show "line s' a = (if sc = 0x0E then line s a else edit_line ?m sc (line s a))"
  proof (cases "sc > 0x3F")
    case True
    then show ?thesis by (auto simp: s'_def key_rest_def edit_line_def)
  next
    case False
    consider (clear) "l_ctrl ?m \<or> r_ctrl ?m" "?c = ch CHR ''l'' \<or> ?c = ch CHR ''L''"
      | (other) "\<not> ((l_ctrl ?m \<or> r_ctrl ?m) \<and> (?c = ch CHR ''l'' \<or> ?c = ch CHR ''L''))" by blast
    then show ?thesis
    proof cases
      case clear
      then have "s' = clear_terminal a s" using False by (auto simp: s'_def key_rest_def Let_def a_def)
      then show ?thesis using clear C(3) by (auto simp: edit_line_def Let_def)
    next
      case other
      show ?thesis
      proof (cases "switch_request ?m sc")
        case (Some k)
        then have "s' = s" using False other by (auto simp: s'_def key_rest_def Let_def)
        then show ?thesis using switch_request_key [OF Some] by (auto simp: edit_line_def)
      next
        case None
        show ?thesis
        proof (cases "?c = 0 \<or> l_alt ?m \<or> r_alt ?m \<or> l_ctrl ?m \<or> r_ctrl ?m")
          case True
          then have "s' = s" using False other None by (auto simp: s'_def key_rest_def Let_def)
          then show ?thesis using True by (auto simp: edit_line_def Let_def)
        next
          case acc: False
          then have "s' = key_accept ?c s"
            using False None by (auto simp: s'_def key_rest_def Let_def)
          then show ?thesis using acc False sil K(3) by (auto simp: edit_line_def Let_def)
        qed
      qed
    qed
  qed
qed

lemma handle_keypress_effect:
  fixes sc nxt :: u8
  assumes ok: "tty_ok s"
  defines "a \<equiv> active_terminal_index s"
  defines "s' \<equiv> fst (handle_keypress sc nxt s)"
  shows "tty_ok s'" and "others_same a s s'"
    and "modifiers s' = fst (key_modifiers sc nxt (modifiers s) (caps_held s))"
    and "line s' a = edit_line (modifiers s') sc (line s a)"
proof -
  obtain m h where mh: "key_modifiers sc nxt (modifiers s) (caps_held s) = (m, h)" by fastforce
  define s0 where "s0 = s\<lparr>modifiers := m, caps_held := h\<rparr>"
  have ok0: "tty_ok s0" and a0: "active_terminal_index s0 = a" and m0: "modifiers s0 = m"
    using ok by (simp_all add: s0_def tty_ok_modifiers a_def)
  have fr0: "others_same a s s0" by (rule others_same_refl) (simp_all add: s0_def)
  have l0: "line s0 a = line s a" by (simp add: line_def s0_def)
  note B = backspace_effect [OF ok0, unfolded a0]
  note R0 = key_rest_effect [OF ok0, of sc, unfolded a0]
  have ab: "active_terminal_index (snd (key_backspace s0)) = a"
    using B(2) a0 by (simp add: others_same_def)
  note RB = key_rest_effect [OF B(1), of sc, unfolded ab]
  have s': "s' = (if sc = 0x0E then (if fst (key_backspace s0) then snd (key_backspace s0)
                            else fst (key_rest sc (snd (key_backspace s0)))) else fst (key_rest sc s0))"
    by (simp add: s'_def handle_keypress_rest mh s0_def [symmetric])
  show "tty_ok s'" using B(1) R0(1) RB(1) unfolding s' by presburger
  have t: "others_same a s x" if "others_same a s0 x" for x
    using fr0 that by (rule others_same_trans)
  show "others_same a s s'"
    using t [OF B(2)] t [OF R0(2)] others_same_trans [OF t [OF B(2)] RB(2)] unfolding s' by presburger
  show m': "modifiers s' = fst (key_modifiers sc nxt (modifiers s) (caps_held s))"
    using R0(3) RB(3) B(4) unfolding mh fst_conv by (cases "sc = 0x0E") (simp_all add: s' m0)
  show "line s' a = edit_line (modifiers s') sc (line s a)"
    using R0(4) RB(4) B(3) l0 m0 unfolding m' mh fst_conv
    by (cases "sc = 0x0E") (simp_all add: s' edit_line_def)
qed

section \<open>Reading a line\<close>

lemma read_effect:
  fixes num :: u32
  assumes ok: "tty_ok s" and i: "i < 3"
  defines "s' \<equiv> set_term i (\<lambda>t. snd (read_take t num)) s"
  shows "fst (read_take (term_of s i) num) = take (unat num) (line s i)"
    and "line s' i = drop (unat num) (line s i)" and "tty_ok s'" and "others_same i s s'"
proof -
  let ?t = "term_of s i"
  note A = tty_okD [OF ok i]
  have len: "length (buffer ?t) = TERMINAL_BUFFER_SIZE" "chars_in_buffer ?t \<le> TERMINAL_BUFFER_SIZE"
    using A(1) by (simp_all add: term_ok_def)
  show "fst (read_take ?t num) = take (unat num) (line s i)"
    using len by (simp add: read_take_def line_def Let_def min_def)
  show "line s' i = drop (unat num) (line s i)"
    using len A(2) by (auto simp: s'_def line_def read_take_def Let_def drop_take)
  show "tty_ok s'"
    by (rule tty_ok_upd [OF ok _ i, of "snd (read_take ?t num)"])
      (use A(1) len in \<open>auto simp: s'_def set_term_def term_ok_def read_take_def Let_def\<close>)
  show "others_same i s s'"
    by (rule others_sameI [OF ok i]) (use A(2) in \<open>simp_all add: s'_def set_term_def\<close>)
qed

definition plain_modifiers :: modifier_keys where
  "plain_modifiers = \<lparr>caps = False, l_shift = False, r_shift = False, l_ctrl = False,
     r_ctrl = False, l_alt = False, r_alt = False\<rparr>"

text \<open>A key that types a character: it has one in the table of unshifted keys.\<close>

definition types_char :: "u8 \<Rightarrow> bool" where
  "types_char sc \<longleftrightarrow> sc \<le> 0x3F \<and> LOWERCASE_SCANCODES ! unat sc \<noteq> 0"

lemma types_char_plain:
  assumes "types_char sc"
  shows "sc \<notin> {0x0E, 0x1D, 0x2A, 0x36, 0x38, 0x3A}" and "\<not> sc > 0x3F"
    and "key_modifiers sc nxt m h = (m, h)"
proof -
  show ne: "sc \<notin> {0x0E, 0x1D, 0x2A, 0x36, 0x38, 0x3A}"
    using assms by (auto simp: types_char_def LOWERCASE_SCANCODES_def)
  show le: "\<not> sc > 0x3F" using assms by (simp add: types_char_def not_less)
  have hi: "sc \<notin> {0x9D, 0xAA, 0xB6, 0xB8, 0xBA, 0xE0}" using le by auto
  show "key_modifiers sc nxt m h = (m, h)" using ne hi by (simp add: key_modifiers_def)
qed

lemma enter_types: "types_char 0x1C" "LOWERCASE_SCANCODES ! unat (0x1C :: u8) = 10"
  by (simp_all add: types_char_def LOWERCASE_SCANCODES_def)

lemma plain_press:
  fixes sc nxt :: u8 and sw :: "nat \<Rightarrow> tty \<Rightarrow> tty"
  assumes ok: "tty_ok s" and m: "modifiers s = plain_modifiers" and k: "types_char sc"
  defines "a \<equiv> active_terminal_index s" and "c \<equiv> LOWERCASE_SCANCODES ! unat sc"
    and "s' \<equiv> press sw (sc, nxt) s"
  shows "tty_ok s'" and "modifiers s' = plain_modifiers" and "active_terminal_index s' = a"
    and "length (line s a) < 127 \<or> c = 10 \<and> length (line s a) < 128 \<Longrightarrow> line s' a = line s a @ [c]"
proof -
  note H = handle_keypress_effect [OF ok, of sc nxt, folded a_def]
  note T = types_char_plain [OF k]
  have "switch_request (modifiers s) sc = None" by (simp add: switch_request_def m plain_modifiers_def)
  then have "snd (handle_keypress sc nxt s) = None"
    using T(1) by (simp add: handle_keypress_def Let_def T(3))
  then have s': "s' = fst (handle_keypress sc nxt s)"
    by (simp add: s'_def press_def case_prod_beta)
  show "tty_ok s'" "modifiers s' = plain_modifiers" "active_terminal_index s' = a"
    using H(1,2,3) by (simp_all add: s' T(3) m others_same_def a_def)
  then have ed: "line s' a = edit_line plain_modifiers sc (line s a)" using H(4) by (simp add: s')
  have "translate_key plain_modifiers sc = c" "c \<noteq> 0"
    using k by (simp_all add: translate_key_def plain_modifiers_def c_def types_char_def)
  moreover have "sc \<noteq> 0x0E" using T(1) by simp
  ultimately show "length (line s a) < 127 \<or> c = 10 \<and> length (line s a) < 128 \<Longrightarrow> line s' a = line s a @ [c]"
    using T(2) unfolding ed edit_line_def by (auto simp: Let_def plain_modifiers_def)
qed

lemma ready_iff:
  assumes ok: "tty_ok s" and i: "i < 3" and n: "0 \<le> sint num"
  shows "read_ready before (term_of s i) num \<longleftrightarrow>
    unat num \<le> length (line s i) \<or> (if line s i = [] then before else last (line s i)) = 10"
proof -
  have len: "length (buffer (term_of s i)) = TERMINAL_BUFFER_SIZE"
    "chars_in_buffer (term_of s i) \<le> TERMINAL_BUFFER_SIZE"
    using tty_okD(1) [OF ok i] by (simp_all add: term_ok_def)
  then have "length (line s i) = chars_in_buffer (term_of s i)"
    "line s i \<noteq> [] \<Longrightarrow> last (line s i) = buffer (term_of s i) ! (chars_in_buffer (term_of s i) - 1)"
    by (auto simp: line_def last_conv_nth)
  moreover have "\<not> int (chars_in_buffer (term_of s i)) < sint num \<longleftrightarrow> unat num \<le> chars_in_buffer (term_of s i)"
    unfolding sint_nonneg_u32 [OF n] not_less by (rule of_nat_le_iff)
  ultimately show ?thesis
    unfolding read_ready_def by (cases "line s i = []") auto
qed

abbreviation unshifted :: "u8 \<Rightarrow> u8" where
  "unshifted sc \<equiv> LOWERCASE_SCANCODES ! unat sc"

text \<open>
  The visible terminal after the first \<open>k\<close> of the keys \<open>keys\<close>, typed on an empty line.
\<close>

abbreviation plain_key :: "u8 \<Rightarrow> u8 \<times> u8" where
  "plain_key sc \<equiv> (sc, 0)"

definition typed :: "u8 list \<Rightarrow> nat \<Rightarrow> nat \<Rightarrow> tty \<Rightarrow> bool" where
  "typed keys i k s \<longleftrightarrow> tty_ok s \<and> active_terminal_index s = i \<and> modifiers s = plain_modifiers
     \<and> k \<le> length keys \<and> line s i = map unshifted (take k keys)"

text \<open>A line of characters, ended by Enter.\<close>

definition line_keys :: "u8 list \<Rightarrow> bool" where
  "line_keys keys \<longleftrightarrow> (\<exists>scs. keys = scs @ [0x1C] \<and> length scs \<le> 127
     \<and> (\<forall>sc \<in> set scs. types_char sc \<and> unshifted sc \<noteq> 10))"

lemma line_keys_nth:
  assumes "line_keys keys" and "k < length keys"
  shows "types_char (keys ! k)" and "unshifted (keys ! k) = 10 \<longleftrightarrow> Suc k = length keys"
    and "k < 127 \<or> k = 127 \<and> unshifted (keys ! k) = 10"
  using assms enter_types nth_mem by (fastforce simp: line_keys_def nth_append less_Suc_eq)+

lemma typed_press:
  assumes "line_keys keys" and "typed keys i k s" and "k < length keys"
  shows "typed keys i (Suc k) (press sw (plain_key (keys ! k)) s)"
proof -
  have s: "tty_ok s" "active_terminal_index s = i" "modifiers s = plain_modifiers"
    "line s i = map unshifted (take k keys)" using assms(2) by (simp_all add: typed_def)
  note P = plain_press [OF s(1,3) line_keys_nth(1) [OF assms(1,3)], where nxt = 0 and sw = sw, unfolded s(2)]
  have "length (line s i) = k" using s(4) assms(3) by simp
  then have "line (press sw (plain_key (keys ! k)) s) i = map unshifted (take (Suc k) keys)"
    using P(4) line_keys_nth(3) [OF assms(1,3)] s(4) assms(3) by (auto simp: take_Suc_conv_app_nth)
  then show ?thesis using P assms(3) by (simp add: typed_def)
qed

lemma typed_burst:
  assumes "line_keys keys"
  shows "typed keys i k s \<Longrightarrow> drop k keys = burst @ later \<Longrightarrow>
    typed keys i (k + length burst) (fold (press sw) (map plain_key burst) s)"
proof (induction burst arbitrary: k s)
  case (Cons sc burst)
  have k: "k < length keys" using Cons.prems(2) by (cases "k < length keys") simp_all
  then have "keys ! k = sc" "drop (Suc k) keys = burst @ later"
    using Cons.prems(2) by (simp_all add: Cons_nth_drop_Suc [symmetric])
  then show ?case
    using Cons.IH [of "Suc k" "press sw (plain_key sc) s"] typed_press [OF assms Cons.prems(1) k, of sw] by simp
qed simp

text \<open>What the reader loads at each of its points.\<close>

lemma line_loads:
  assumes "tty_ok s" and "i < 3"
  shows "chars_in_buffer (term_of s i) = length (line s i)"
    and "c < length (line s i) \<Longrightarrow> buffer (term_of s i) ! c = line s i ! c"
proof -
  have len: "length (buffer (term_of s i)) = TERMINAL_BUFFER_SIZE"
    "chars_in_buffer (term_of s i) \<le> TERMINAL_BUFFER_SIZE"
    using tty_okD(1) [OF assms] by (simp_all add: term_ok_def)
  then show "chars_in_buffer (term_of s i) = length (line s i)"
    and "c < length (line s i) \<Longrightarrow> buffer (term_of s i) ! c = line s i ! c"
    by (simp_all add: line_def)
qed

lemma typed_loads:
  assumes "typed keys i k s"
  shows "chars_in_buffer (term_of s i) = k"
    and "c < k \<Longrightarrow> buffer (term_of s i) ! c = unshifted (keys ! c)"
proof -
  have s: "tty_ok s" "i < 3" "line s i = map unshifted (take k keys)" "k \<le> length keys"
    using assms active_less by (auto simp: typed_def)
  show "chars_in_buffer (term_of s i) = k" using line_loads(1) [OF s(1,2)] s(3,4) by simp
  show "c < k \<Longrightarrow> buffer (term_of s i) ! c = unshifted (keys ! c)"
    using line_loads(2) [OF s(1,2), of c] s(3,4) by simp
qed

text \<open>
  Where the reader may stand when \<open>k\<close> keys are typed: the index it has loaded is the length of
  the line, and it goes on to the copy only with enough characters or the whole line.
\<close>

fun point_ok :: "u8 list \<Rightarrow> u32 \<Rightarrow> nat \<Rightarrow> read_point \<Rightarrow> bool" where
  "point_ok keys num k (At_byte c) \<longleftrightarrow> c = k"
| "point_ok keys num k At_take \<longleftrightarrow> unat num \<le> k \<or> k = length keys"
| "point_ok keys num k _ \<longleftrightarrow> True"

text \<open>
  The result of the read: the first bytes of the typed text, the rest of what is typed so far
  left in the line, and the keys not consumed.
\<close>

definition read_result ::
    "u8 list \<Rightarrow> u32 \<Rightarrow> nat \<Rightarrow> (u8 \<times> u8) list \<Rightarrow> (u8 list \<times> tty \<times> (u8 \<times> u8) list list) option \<Rightarrow> bool" where
  "read_result keys num i later r \<longleftrightarrow> (\<exists>s' k rest.
     r = Some (take (unat num) (map unshifted keys), s', rest) \<and> tty_ok s' \<and> k \<le> length keys
     \<and> (unat num \<le> k \<or> k = length keys) \<and> line s' i = drop (unat num) (map unshifted (take k keys))
     \<and> concat rest = map plain_key (drop k keys) @ later)"

lemma take_typed:
  assumes t: "typed keys i k s" and p: "point_ok keys num k At_take"
    and rest: "concat rest = map plain_key (drop k keys) @ later"
  shows "read_result keys num i later
    (Some (fst (read_take (term_of s i) num), set_term i (\<lambda>t. snd (read_take t num)) s, rest))"
proof -
  have s: "tty_ok s" "i < 3" "line s i = map unshifted (take k keys)" "k \<le> length keys"
    using t active_less by (auto simp: typed_def)
  note R = read_effect [OF s(1,2), of num]
  have "take (unat num) (line s i) = take (unat num) (map unshifted keys)"
    using p s(3) by (auto simp: take_map min_def)
  then show ?thesis unfolding read_result_def using R s(3,4) p rest by fastforce
qed

lemma wait_step:
  fixes sw :: "nat \<Rightarrow> tty \<Rightarrow> tty"
  assumes t: "line_keys keys" "typed keys i k s" "drop k keys = burst @ ks" and p: "point_ok keys num k pc"
    and num: "0 \<le> sint num" and before: "before \<noteq> 10" and pc: "pc \<noteq> At_take"
  defines "s' \<equiv> fold (press sw) (map plain_key burst) s" and "k' \<equiv> k + length burst"
  obtains pc' where "point_ok keys num k' pc'" "typed keys i k' s'" "drop k' keys = ks"
    "terminal_wait sw before i num pc (map plain_key burst # bursts) s = terminal_wait sw before i num pc' bursts s'"
    "pc = At_count \<longrightarrow> pc' \<in> {At_index, At_take}" "pc = At_index \<longrightarrow> pc' = At_byte k'"
    "k = length keys \<and> pc = At_byte k \<longrightarrow> pc' = At_take"
proof -
  have t': "typed keys i k' s'" unfolding s'_def k'_def by (rule typed_burst [OF t])
  have "drop k' keys = drop (length burst) (drop k keys)" by (simp add: k'_def add.commute)
  then have d: "drop k' keys = ks" using t(3) by simp
  note L = typed_loads [OF t']
  show thesis
  proof (cases pc)
    case At_count
    have "int k' < sint num \<longleftrightarrow> \<not> unat num \<le> k'"
      unfolding sint_nonneg_u32 [OF num] not_le by (rule of_nat_less_iff)
    then show thesis
      using that [of "if int k' < sint num then At_index else At_take"] t' d L(1) At_count
      by (simp add: s'_def Let_def split: if_splits)
  next
    case At_index
    then show thesis using that [of "At_byte k'"] t' d L(1) by (simp add: s'_def Let_def)
  next
    case (At_byte c)
    then have c: "c = k" using p by simp
    have len: "k \<le> length keys" "keys \<noteq> []" using t(1,2) by (auto simp: typed_def line_keys_def)
    have "(if c = 0 then before else buffer (term_of s' i) ! (c - 1)) = 10 \<longleftrightarrow> k = length keys"
    proof (cases k)
      case 0
      then show ?thesis using before len c by simp
    next
      case (Suc j)
      then show ?thesis
        using L(2) [of j] line_keys_nth(2) [OF t(1), of j] len c by (simp add: k'_def)
    qed
    moreover have "point_ok keys num k' (if k = length keys then At_take else At_count)"
      unfolding k'_def using t(3) by (cases "k = length keys") simp_all
    ultimately show thesis
      using that [of "if k = length keys then At_take else At_count"] t' d At_byte c
      by (simp add: s'_def k'_def Let_def split: if_splits)
  next
    case At_take
    then show thesis using pc by simp
  qed
qed

lemma wait_take:
  assumes t: "line_keys keys" "typed keys i k s" "drop k keys = burst @ ks" and p: "point_ok keys num k At_take"
    and rest: "concat rest = map plain_key ks @ later"
  shows "read_result keys num i later
    (terminal_wait sw before i num At_take (map plain_key burst # rest) s)"
proof -
  let ?k = "k + length burst"
  have "drop ?k keys = drop (length burst) (drop k keys)" by (simp add: add.commute)
  then have d: "drop ?k keys = ks" using t(3) by simp
  have t': "typed keys i ?k (fold (press sw) (map plain_key burst) s)" by (rule typed_burst [OF t])
  then have "point_ok keys num ?k At_take" using p t(2) by (auto simp: typed_def)
  then show ?thesis using take_typed [OF t', of num rest later] rest d by (simp add: Let_def)
qed

text \<open>Once the whole line is typed, four points without a further key are enough.\<close>

lemma replicate_4: "replicate 4 x = [x, x, x, x]"
  by (simp add: numeral_eq_Suc)

lemma wait_quiet:
  assumes "line_keys keys" and "0 \<le> sint num" and "before \<noteq> 10"
    and "typed keys i (length keys) s" and "point_ok keys num (length keys) pc"
  shows "read_result keys num i (concat later)
    (terminal_wait sw before i num pc (replicate 4 [] @ later) s)"
proof -
  let ?n = "length keys"
  have take: "read_result keys num i (concat bs) (terminal_wait sw before i num At_take ([] # bs) s)"
    if "typed keys i ?n s" for bs s
    using wait_take [OF assms(1) that, of "[]" "[]" num bs "concat bs" sw before] by simp
  have step: "\<exists>pc' s'. terminal_wait sw before i num pc ([] # bs) s = terminal_wait sw before i num pc' bs s'
      \<and> typed keys i ?n s' \<and> (pc = At_byte ?n \<longrightarrow> pc' = At_take)
      \<and> (pc = At_index \<longrightarrow> pc' = At_byte ?n) \<and> (pc = At_count \<longrightarrow> pc' \<in> {At_index, At_take})"
    if "typed keys i ?n s" "pc \<in> {At_byte ?n, At_index, At_count}" for pc bs s
    by (rule wait_step [OF assms(1) that(1), of "[]" "[]" num pc before sw bs])
      (use assms(2,3) that(2) in auto)
  have byte: "read_result keys num i (concat bs) (terminal_wait sw before i num (At_byte ?n) ([] # [] # bs) s)"
    if "typed keys i ?n s" for bs s
    using step [OF that, of "At_byte ?n" "[] # bs"] take by auto
  have index: "read_result keys num i (concat bs) (terminal_wait sw before i num At_index ([] # [] # [] # bs) s)"
    if "typed keys i ?n s" for bs s
    using step [OF that, of At_index "[] # [] # bs"] byte by auto
  have count: "read_result keys num i (concat bs) (terminal_wait sw before i num At_count ([] # [] # [] # [] # bs) s)"
    if "typed keys i ?n s" for bs s
    using step [OF that, of At_count "[] # [] # [] # bs"] index take [of _ "[] # [] # bs"] by auto
  show ?thesis
    using count [OF assms(4)] index [OF assms(4), of "[] # later"] byte [OF assms(4), of "[] # [] # later"]
      take [OF assms(4), of "[] # [] # [] # later"] assms(5)
    by (cases pc) (simp_all add: replicate_4)
qed

lemma wait_typed:
  assumes "line_keys keys" and "0 \<le> sint num" and "before \<noteq> 10"
  shows "typed keys i k s \<Longrightarrow> concat bursts = drop k keys \<Longrightarrow> point_ok keys num k pc \<Longrightarrow>
    read_result keys num i (concat later)
      (terminal_wait sw before i num pc (map (map plain_key) bursts @ replicate 4 [] @ later) s)"
proof (induction bursts arbitrary: k s pc)
  case Nil
  then have "k = length keys" by (simp add: typed_def)
  then show ?case using wait_quiet [OF assms] Nil.prems by simp
next
  case (Cons burst bursts)
  have d: "drop k keys = burst @ concat bursts" using Cons.prems(2) by simp
  show ?case
  proof (cases "pc = At_take")
    case True
    have "concat (map (map plain_key) bursts @ replicate 4 [] @ later)
        = map plain_key (concat bursts) @ concat later"
      by (simp add: map_concat replicate_4)
    then show ?thesis using wait_take [OF assms(1) Cons.prems(1) d] Cons.prems(3) True by simp
  next
    case False
    show ?thesis
      by (rule wait_step [OF assms(1) Cons.prems(1) d Cons.prems(3) assms(2,3) False, of sw
            "map (map plain_key) bursts @ replicate 4 [] @ later"])
        (use Cons.IH in \<open>simp add: \<open>drop k keys = burst @ concat bursts\<close>\<close>)
  qed
qed

section \<open>The terminals' contract\<close>

lemma write_fold:
  assumes "tty_ok s" and "i < 3"
  defines "p \<equiv> \<lambda>cs. fold (\<lambda>c. terminal_putc c ATTRIB i) cs s"
  shows "tty_ok (p cs) \<and> others_same i s (p cs) \<and> line (p cs) i = line s i
    \<and> view (p cs) i = fold (\<lambda>c. abs_putc c ATTRIB) cs (view s i)"
proof (induction cs rule: rev_induct)
  case Nil
  then show ?case using assms(1) by (simp add: p_def others_same_refl)
next
  case (snoc c cs)
  then have ok: "tty_ok (p cs)" by blast
  have "p (cs @ [c]) = terminal_putc c ATTRIB i (p cs)" by (simp add: p_def)
  then show ?case
    using snoc putc_effect(1,3) [OF ok assms(2)] putc_others [OF ok assms(2)] others_same_trans by fastforce
qed

text \<open>A machine just after start, for the witnesses.\<close>

definition demo_tty :: tty where
  "demo_tty = \<lparr>terminals = [init_terminal VIDEO_BASE terminal0_storage,
       init_terminal terminal1_storage terminal1_storage, init_terminal terminal2_storage terminal2_storage],
     active_terminal_index = 0, vram = (\<lambda>_. 0), modifiers = plain_modifiers, caps_held = False, ports = []\<rparr>"

lemma init_term_ok:
  "storage_location t = storage_of i \<Longrightarrow> video_start t = (if i = a then VIDEO_BASE else storage_of i) \<Longrightarrow>
     t = init_terminal v st \<Longrightarrow> term_ok a i t"
  by (simp add: term_ok_def init_terminal_def NUM_COLS_def NUM_ROWS_def)

lemma init_records_ok:
  assumes "terminals s = [init_terminal VIDEO_BASE terminal0_storage,
       init_terminal terminal1_storage terminal1_storage, init_terminal terminal2_storage terminal2_storage]"
    and "active_terminal_index s = 0"
  shows "tty_ok s" and "i < 3 \<Longrightarrow> line s i = []"
    and "i < 3 \<Longrightarrow> view s i = (0, 0, screen (vram s) (if i = 0 then VIDEO_BASE else storage_of i))"
proof -
  have t: "\<exists>v. term_of s i = init_terminal v (storage_of i) \<and> v = (if i = 0 then VIDEO_BASE else storage_of i)"
    if "i < 3" for i
    using less3 [OF that] assms(1)
    by (auto simp: storage_of_def terminal0_storage_def terminal1_storage_def terminal2_storage_def)
  have sel: "storage_location (init_terminal v st) = st" "video_start (init_terminal v st) = v"
    "chars_in_buffer (init_terminal v st) = 0" "pos_x (init_terminal v st) = 0" "pos_y (init_terminal v st) = 0"
    for v st by (simp_all add: init_terminal_def)
  have "term_ok 0 i (term_of s i)" if "i < 3" for i
    using t [OF that] by (auto simp: sel intro: init_term_ok)
  then show "tty_ok s" using assms by (simp add: tty_ok_def NUM_TERMINALS_def)
  show "i < 3 \<Longrightarrow> line s i = []" using t by (force simp: line_def sel)
  show "i < 3 \<Longrightarrow> view s i = (0, 0, screen (vram s) (if i = 0 then VIDEO_BASE else storage_of i))"
    using t by (force simp: view_def sel)
qed

lemma demo_ok: "tty_ok demo_tty" "modifiers demo_tty = plain_modifiers" "active_terminal_index demo_tty = 0"
  "line demo_tty 0 = []"
proof -
  have d: "terminals demo_tty = [init_terminal VIDEO_BASE terminal0_storage,
       init_terminal terminal1_storage terminal1_storage, init_terminal terminal2_storage terminal2_storage]"
    "active_terminal_index demo_tty = 0" by (simp_all add: demo_tty_def)
  show "tty_ok demo_tty" by (rule init_records_ok(1) [OF d])
  show "line demo_tty 0 = []" by (rule init_records_ok(2) [OF d]) simp
qed (simp_all add: demo_tty_def)



text \<open>
  C20. The keyboard handler is a line editor for the visible terminal: whatever key arrives, the
  terminal's line changes as \<open>edit_line\<close> says under the modifiers the key leaves (a character
  is appended while there are fewer than 127, Enter also as the 128th, backspace removes the
  last, everything else leaves the line alone), the other terminals keep their screens and
  lines, and all positions, lengths and page addresses stay within bounds.
\<close>

theorem keyboard_edits_line:
  assumes "tty_ok s"
  defines "a \<equiv> active_terminal_index s"
  shows "\<forall>sc nxt. (let s' = fst (handle_keypress sc nxt s)
    in line s' a = edit_line (modifiers s') sc (line s a)
       \<and> modifiers s' = fst (key_modifiers sc nxt (modifiers s) (caps_held s))
       \<and> others_same a s s' \<and> tty_ok s')"
  using handle_keypress_effect [OF assms(1), folded a_def] by (simp add: Let_def)

lemma keyboard_edits_line_witness:
  "line (fst (handle_keypress 0x1E 0 demo_tty)) 0 = [97]"
  using keyboard_edits_line [OF demo_ok(1), THEN spec [of _ "0x1E"], THEN spec [of _ 0]]
  by (simp add: Let_def demo_ok edit_line_def translate_key_def key_modifiers_def plain_modifiers_def
      LOWERCASE_SCANCODES_def)

text \<open>
  Keys behind Enter hide it: when more is typed before the reader looks, it sees no newline and
  waits on, whatever number of times it polls.
\<close>

lemma newline_hidden:
  assumes ok: "tty_ok s" "i < 3" and line: "line s i \<noteq> []" "last (line s i) \<noteq> 10"
    and num: "int (length (line s i)) < sint num"
    and pc: "pc \<in> {At_count, At_index, At_byte (length (line s i))}"
  shows "terminal_wait sw before i num pc (replicate n []) s = None"
  using pc
proof (induction n arbitrary: pc)
  case (Suc n)
  note L = line_loads [OF ok]
  have "buffer (term_of s i) ! (length (line s i) - 1) \<noteq> 10"
    using L(2) [of "length (line s i) - 1"] line by (simp add: last_conv_nth)
  then show ?case
    using Suc.prems Suc.IH [of At_count] Suc.IH [of At_index] Suc.IH [of "At_byte (length (line s i))"]
      L(1) line(1) num by (auto simp: Let_def)
qed simp

lemma key_hides_newline:
  assumes "tty_ok s" and "modifiers s = plain_modifiers" and "line s (active_terminal_index s) = []"
    and "\<forall>sc \<in> set scs. types_char sc \<and> unshifted sc \<noteq> 10" and "length scs \<le> 125"
    and "types_char sc" and "unshifted sc \<noteq> 10" and "int (length scs + 2) < sint num"
  shows "terminal_wait sw before (active_terminal_index s) num At_count
    (map plain_key (scs @ [0x1C, sc]) # replicate n []) s = None"
proof -
  let ?keys = "scs @ [0x1C :: u8]" and ?i = "active_terminal_index s"
  let ?s1 = "fold (press sw) (map plain_key ?keys) s"
  let ?s2 = "press sw (plain_key sc) ?s1"
  have lk: "line_keys ?keys" using assms(4,5) by (auto simp: line_keys_def)
  have "typed ?keys ?i 0 s" using assms(1-3) by (simp add: typed_def)
  from typed_burst [OF lk this, of ?keys "[]" sw]
  have t: "tty_ok ?s1" "active_terminal_index ?s1 = ?i" "modifiers ?s1 = plain_modifiers"
    "line ?s1 ?i = map unshifted ?keys"
    by (simp_all add: typed_def)
  note P = plain_press [OF t(1,3) assms(6), where nxt = 0 and sw = sw, unfolded t(2)]
  have l: "line ?s2 ?i = map unshifted ?keys @ [unshifted sc]"
    using P(4) assms(5) unfolding t(4) by simp
  have i: "?i < 3" using active_less [OF assms(1)] .
  have n: "int (length (line ?s2 ?i)) < sint num" using assms(8) unfolding l by simp
  have ne: "line ?s2 ?i \<noteq> []" "last (line ?s2 ?i) \<noteq> 10" unfolding l using assms(7) by simp_all
  have "terminal_wait sw before ?i num At_index (replicate n []) ?s2 = None"
    by (rule newline_hidden [OF P(1) i ne n]) simp
  then show ?thesis using n line_loads(1) [OF P(1) i] by (simp add: Let_def)
qed

text \<open>
  C21. A typed line is what the program reads, however the polling of the reader falls between
  the key presses: when the visible terminal has an empty line, keys that type characters are
  pressed and then Enter, any number of them between two loads of the reader (\<open>bursts\<close>), and no
  further key before the reader has come to four more of its points (once round its loop and the
  copy), \<open>terminal_read\<close> returns, and returns exactly the typed characters and the newline, cut
  after as many bytes as were asked for (never more than 128).  The characters typed by then
  beyond those returned stay in the line, and the keys after them are not consumed.  The byte in
  front of the buffer, which the loop reads while the line is empty, must not happen to be a
  newline.  Without the quiet after Enter the newline is missed (\<open>key_hides_newline\<close>).
\<close>

theorem typed_line_is_read:
  assumes "tty_ok s" and "modifiers s = plain_modifiers" and "line s (active_terminal_index s) = []"
    and "\<forall>sc \<in> set scs. types_char sc \<and> unshifted sc \<noteq> 10" and "length scs \<le> 127"
    and "0 < sint n" and "before \<noteq> 10" and "concat bursts = scs @ [0x1C]"
  defines "whole \<equiv> map unshifted scs @ [10]"
  defines "bs \<equiv> take (min (unat n) 128) whole"
  shows "\<exists>s' k rest. terminal_read sw before (active_terminal_index s) 0 False n
        (map (map (\<lambda>sc. (sc, 0))) bursts @ replicate 4 [] @ later) s
      = Some (int (length bs), bs, s', rest)
    \<and> tty_ok s' \<and> length bs \<le> k \<and> k \<le> length whole
    \<and> line s' (active_terminal_index s) = drop (length bs) (take k whole)
    \<and> concat rest = map (\<lambda>sc. (sc, 0)) (drop k (scs @ [0x1C])) @ concat later"
proof -
  let ?n = "read_cap n" and ?keys = "scs @ [0x1C :: u8]"
  have sn: "sint n = int (unat n)" by (rule sint_nonneg_u32) (use assms(6) in simp)
  have "unat ?n = min (unat n) 128 \<and> 0 \<le> sint ?n"
  proof (cases "128 < sint n")
    case True
    then have "128 < unat n" using sn by linarith
    with True show ?thesis
      by (simp_all add: read_cap_def TERMINAL_BUFFER_SIZE_def)
  next
    case False
    then have "unat n \<le> 128" using sn by linarith
    with False assms(6) show ?thesis
      by (simp_all add: read_cap_def TERMINAL_BUFFER_SIZE_def)
  qed
  then have n: "unat ?n = min (unat n) 128" "0 \<le> sint ?n" by blast+
  have lk: "line_keys ?keys" using assms(4,5) by (auto simp: line_keys_def)
  have ty: "typed ?keys (active_terminal_index s) 0 s" using assms(1-3) by (simp add: typed_def)
  have whole: "map unshifted ?keys = whole" by (simp only: whole_def map_append list.map enter_types(2))
  obtain s' k rest where r: "terminal_wait sw before (active_terminal_index s) ?n At_count
        (map (map plain_key) bursts @ replicate 4 [] @ later) s = Some (bs, s', rest)"
    "tty_ok s'" "k \<le> length ?keys" "unat ?n \<le> k \<or> k = length ?keys"
    "line s' (active_terminal_index s) = drop (unat ?n) (map unshifted (take k ?keys))"
    "concat rest = map plain_key (drop k ?keys) @ concat later"
    using wait_typed [OF lk n(2) assms(7) ty, of bursts At_count later sw] assms(8)
    unfolding read_result_def whole n(1) bs_def by auto
  have "length bs = min (unat ?n) (length ?keys)" by (simp add: bs_def whole_def n(1))
  then have "length bs \<le> k" "drop (unat ?n) (take k whole) = drop (length bs) (take k whole)"
    using r(3,4) by (auto simp: min_def whole_def)
  moreover have "map unshifted (take k ?keys) = take k whole" unfolding whole [symmetric] by (rule take_map [symmetric])
  moreover have "length ?keys = length whole" by (simp add: whole_def)
  ultimately show ?thesis using r by (auto simp: terminal_read_def)
qed

text \<open>
  Two keys pressed before the first look, Enter before a later one, the next key after the copy.
\<close>

lemma typed_line_is_read_witness:
  "\<exists>s' rest. terminal_read switch_screen 0 0 0 False 10
       [[(0x26, 0), (0x1F, 0)], [], [(0x1C, 0)], [], [], [], [], [(0x26, 0)]] demo_tty
     = Some (3, [108, 115, 10], s', rest) \<and> line s' 0 = [] \<and> concat rest = [(0x26, 0)]"
proof -
  have t: "\<forall>sc \<in> set [0x26, 0x1F]. types_char sc \<and> unshifted sc \<noteq> 10"
    "map unshifted [0x26, 0x1F] = [108, 115]"
    by (simp_all add: types_char_def LOWERCASE_SCANCODES_def)
  have u: "unat (10 :: u32) = 10" by simp
  have bs: "take (min (unat (10 :: u32)) 128) (map unshifted [0x26, 0x1F] @ [10]) = [108, 115, 10]"
    unfolding u t(2) by simp
  obtain s' k rest where "terminal_read switch_screen 0 0 0 False 10
       (map (map plain_key) [[0x26, 0x1F], [], [0x1C]] @ replicate 4 [] @ [[plain_key 0x26]]) demo_tty
     = Some (int (length [108, 115, 10 :: u8]), [108, 115, 10], s', rest)"
    "length [108, 115, 10 :: u8] \<le> k" "k \<le> length (map unshifted [0x26, 0x1F] @ [10])"
    "line s' 0 = drop (length [108, 115, 10 :: u8]) (take k (map unshifted [0x26, 0x1F] @ [10]))"
    "concat rest = map plain_key (drop k ([0x26, 0x1F] @ [0x1C])) @ concat [[plain_key 0x26]]"
    using typed_line_is_read [OF demo_ok(1,2) _ t(1), of 10 0 "[[0x26, 0x1F], [], [0x1C]]" switch_screen "[[plain_key 0x26]]"]
      demo_ok(3,4) unfolding bs by auto
  then show ?thesis unfolding replicate_4 by auto
qed

text \<open>
  C22. Switching the visible terminal keeps what every terminal shows: all three cursors, screens
  and lines are the same before and after, although the visible page is saved and the next
  terminal's page is copied to the display; and the records stay well formed.
\<close>

theorem switch_keeps_screens:
  assumes "tty_ok s" and "nxt < 3" and "nxt \<noteq> active_terminal_index s"
  shows "(\<forall>i < 3. view (switch_screen nxt s) i = view s i \<and> line (switch_screen nxt s) i = line s i)
    \<and> tty_ok (switch_screen nxt s) \<and> active_terminal_index (switch_screen nxt s) = nxt"
  using switch_effect [OF assms] by blast

lemma switch_keeps_screens_witness:
  "view (switch_screen 2 demo_tty) 1 = view demo_tty 1 \<and> active_terminal_index (switch_screen 2 demo_tty) = 2"
  using switch_keeps_screens [OF demo_ok(1), of 2] by (simp add: demo_ok)


text \<open>The clearing loop of \<open>init_terminals\<close>.\<close>

lemma fold_store_0:
  "fold (\<lambda>k m. store m (v + of_nat k) 0) [a..<b] m x
     = (if \<exists>k. a \<le> k \<and> k < b \<and> x = v + of_nat k then 0 else m x)"
proof (induction b)
  case (Suc b)
  then show ?case by (cases "a \<le> b") (auto simp: store_apply less_Suc_eq)
qed simp

text \<open>
  \<open>init_terminals\<close> sets up well-formed records with empty lines and the cursor at the top
  left, but shows whatever video memory held before: the loop meant to clear the pages adds the
  base address twice, and none of the bytes it clears belongs to a video page.
\<close>

theorem init_terminals_keeps_pages:
  "tty_ok (init_terminals s) \<and>
   (\<forall>i < 3. line (init_terminals s) i = [] \<and>
      view (init_terminals s) i = (0, 0, screen (vram s) (if i = 0 then VIDEO_BASE else storage_of i)))"
proof -
  let ?s = "init_terminals s"
  have d: "terminals ?s = [init_terminal VIDEO_BASE terminal0_storage,
       init_terminal terminal1_storage terminal1_storage, init_terminal terminal2_storage terminal2_storage]"
    "active_terminal_index ?s = 0" by (simp_all add: init_terminals_def)
  define a b where "a = unat VIDEO_BASE" and "b = unat (terminal2_storage + KB_4)"
  have ab: "a = 0xB8000" "b = 0xBC000"
    by (simp_all add: a_def b_def VIDEO_BASE_def terminal2_storage_def KB_4_def)
  have v: "vram ?s = fold (\<lambda>k m. store m (VIDEO_BASE + of_nat k) 0) [a..<b] (vram s)"
    by (simp add: init_terminals_def a_def b_def)
  have "screen (vram ?s) p = screen (vram s) p" if "p \<in> video_pages" for p
  proof (rule screen_cong)
    fix x assume "\<not> off_screen p x"
    then have x: "unat (x - p) < 4000" by (simp add: off_screen_def)
    have "x \<noteq> VIDEO_BASE + of_nat k" if "a \<le> k" "k < b" for k
    proof
      assume "x = VIDEO_BASE + of_nat k"
      then have "unat x = 0xB8000 + k"
        using that ab unat_plus_of_nat [of VIDEO_BASE k] by (simp add: VIDEO_BASE_def)
      moreover have "unat x = unat p + unat (x - p)"
        using unat_plus_of_nat [of p "unat (x - p)"] x \<open>p \<in> video_pages\<close>
        by (auto simp: video_pages_def)
      ultimately show False using that ab x \<open>p \<in> video_pages\<close> by (auto simp: video_pages_def)
    qed
    then show "vram ?s x = vram s x" unfolding v fold_store_0 by auto
  qed
  then have "screen (vram ?s) (if i = 0 then VIDEO_BASE else storage_of i)
      = screen (vram s) (if i = 0 then VIDEO_BASE else storage_of i)" if "i < 3" for i
    using page_ids(1) [OF that] page_ids(4) by simp
  then show ?thesis using init_records_ok [OF d] by simp
qed

lemma init_terminals_keeps_pages_witness:
  "view (init_terminals demo_tty) 2 = (0, 0, screen (vram demo_tty) 0xBB000)"
  using init_terminals_keeps_pages [of demo_tty] by (simp add: storage_pages)

end
