(* ===== verification/Console.thy ===== *)
theory Console
  imports CLib Terminal_Spec
begin

text \<open>
  The console routines of the kernel library, \<^verbatim>\<open>mp3/student-distrib/lib.c\<close>: \<open>putc\<close>, \<open>puts\<close> and
  \<open>printf\<close>, which walks its format in memory and takes its arguments from the stack.  The words on the
  stack after the format are a list (\<open>None\<close> when the format asks for more than there are), the arrays
  \<open>conv_buf\<close> of the conversions stand at an address that is a parameter, and strings are read from the
  kernel's memory; characters go to the visible terminal.
\<close>

section \<open>Characters and strings\<close>

definition putc :: "u8 \<Rightarrow> tty \<Rightarrow> tty" where
  "putc c s = terminal_putc c ATTRIB (active_terminal_index s) s"

partial_function (option) puts_loop :: "mem \<Rightarrow> u32 \<Rightarrow> u32 \<Rightarrow> tty \<Rightarrow> (u32 \<times> tty) option" where
  "puts_loop m a index s =
     (if m (a + index) \<noteq> 0 then puts_loop m a (index + 1) (putc (m (a + index)) s) else Some (index, s))"

definition puts :: "mem \<Rightarrow> u32 \<Rightarrow> tty \<Rightarrow> (int \<times> tty) option" where
  "puts m a s = map_option (\<lambda>(index, s). (sint index, s)) (puts_loop m a 0 s)"

section \<open>The conversions of \<open>printf\<close>\<close>

type_synonym console = "mem \<times> tty"

definition print_at :: "u32 \<Rightarrow> tty \<Rightarrow> mem \<Rightarrow> console option" where
  "print_at a s m = map_option (\<lambda>(_, s). (m, s)) (puts m a s)"

function zero_fill :: "mem \<Rightarrow> u32 \<Rightarrow> int \<Rightarrow> mem" where
  "zero_fill m conv_buf i = (if i < 8 then zero_fill (store m (conv_buf + of_int i) (ch CHR ''0'')) conv_buf (i + 1) else m)"
  by pat_completeness auto
termination by (relation "measure (\<lambda>(m, c, i). nat (8 - i))") auto

declare zero_fill.simps [simp del]

definition print_hex :: "bool \<Rightarrow> u32 \<Rightarrow> u32 \<Rightarrow> console \<Rightarrow> console option" where
  "print_hex alternate conv_buf value = (\<lambda>(m, s).
     if \<not> alternate then Option.bind (itoa m value conv_buf 16) (print_at conv_buf s)
     else Option.bind (itoa m value (conv_buf + 8) 16) (\<lambda>m1.
            Option.bind (c_strlen m1 (conv_buf + 8)) (\<lambda>starting_index.
              print_at (conv_buf + starting_index) s (zero_fill m1 conv_buf (sint starting_index)))))"

definition print_unsigned :: "u32 \<Rightarrow> u32 \<Rightarrow> console \<Rightarrow> console option" where
  "print_unsigned conv_buf value = (\<lambda>(m, s). Option.bind (itoa m value conv_buf 10) (print_at conv_buf s))"

definition print_signed :: "u32 \<Rightarrow> u32 \<Rightarrow> console \<Rightarrow> console option" where
  "print_signed conv_buf value = (\<lambda>(m, s).
     Option.bind (if sint value < 0 then itoa (store m conv_buf (ch CHR ''-'')) (- value) (conv_buf + 1) 10
                  else itoa m value conv_buf 10)
       (print_at conv_buf s))"

text \<open>After a \<open>%\<close>: where in the format the conversion ends, the arguments that are left, the console.\<close>

partial_function (option) conversion ::
    "u32 \<Rightarrow> bool \<Rightarrow> u32 \<Rightarrow> u32 list \<Rightarrow> console \<Rightarrow> (u32 \<times> u32 list \<times> console) option" where
  "conversion conv_buf alternate buf esp k =
     (let (m, s) = k; c = m buf
      in if c = ch CHR ''%'' then Some (buf, esp, m, putc (ch CHR ''%'') s)
         else if c = ch CHR ''#'' then conversion conv_buf True (buf + 1) esp k
         else if c \<notin> set (chars ''xudcs'') then Some (buf, esp, k)
         else (case esp of
                 [] \<Rightarrow> None
               | v # esp1 \<Rightarrow>
                   map_option (\<lambda>k. (buf, esp1, k))
                     (if c = ch CHR ''x'' then print_hex alternate conv_buf v k
                      else if c = ch CHR ''u'' then print_unsigned conv_buf v k
                      else if c = ch CHR ''d'' then print_signed conv_buf v k
                      else if c = ch CHR ''c'' then Some (m, putc (ucast v) s)
                      else print_at v s m)))"

partial_function (option) printf_loop :: "u32 \<Rightarrow> u32 \<Rightarrow> u32 list \<Rightarrow> console \<Rightarrow> (u32 \<times> console) option" where
  "printf_loop conv_buf buf esp k =
     (let (m, s) = k
      in if m buf = 0 then Some (buf, k)
         else if m buf = ch CHR ''%'' then
           Option.bind (conversion conv_buf False (buf + 1) esp k) (\<lambda>(buf, esp, k). printf_loop conv_buf (buf + 1) esp k)
         else printf_loop conv_buf (buf + 1) esp (m, putc (m buf) s))"

definition printf :: "u32 \<Rightarrow> u32 \<Rightarrow> u32 list \<Rightarrow> console \<Rightarrow> (int \<times> console) option" where
  "printf conv_buf format esp k = map_option (\<lambda>(buf, k). (sint (buf - format), k)) (printf_loop conv_buf format esp k)"

section \<open>What a format says\<close>

text \<open>The directives, how they are written, and what they print.\<close>

datatype directive = Plain u8 | Percent | Hex | Hex8 | Unsigned | Signed | Character | Text

fun spelling :: "directive \<Rightarrow> u8 list" where
  "spelling (Plain c) = [c]"
| "spelling Percent = chars ''%%''"
| "spelling Hex = chars ''%x''"
| "spelling Hex8 = chars ''%#x''"
| "spelling Unsigned = chars ''%u''"
| "spelling Signed = chars ''%d''"
| "spelling Character = chars ''%c''"
| "spelling Text = chars ''%s''"

definition numeral_text :: "nat \<Rightarrow> nat \<Rightarrow> u8 list" where
  "numeral_text b n = map digit_char (digits b n)"

definition padded_hex :: "nat \<Rightarrow> u8 list" where
  "padded_hex n = replicate (8 - length (numeral_text 16 n)) (ch CHR ''0'') @ numeral_text 16 n"

definition signed_text :: "int \<Rightarrow> u8 list" where
  "signed_text k = (if k < 0 then ch CHR ''-'' # numeral_text 10 (nat (- k)) else numeral_text 10 (nat k))"

fun printed :: "(u32 \<Rightarrow> u8 list) \<Rightarrow> directive list \<Rightarrow> u32 list \<Rightarrow> u8 list" where
  "printed str (Plain c # ds) vs = c # printed str ds vs"
| "printed str (Percent # ds) vs = ch CHR ''%'' # printed str ds vs"
| "printed str (Hex # ds) (v # vs) = numeral_text 16 (unat v) @ printed str ds vs"
| "printed str (Hex8 # ds) (v # vs) = padded_hex (unat v) @ printed str ds vs"
| "printed str (Unsigned # ds) (v # vs) = numeral_text 10 (unat v) @ printed str ds vs"
| "printed str (Signed # ds) (v # vs) = signed_text (sint v) @ printed str ds vs"
| "printed str (Character # ds) (v # vs) = ucast v # printed str ds vs"
| "printed str (Text # ds) (v # vs) = str v @ printed str ds vs"
| "printed str _ _ = []"

text \<open>How many arguments are taken, and which of them are strings.\<close>

fun takes :: "directive \<Rightarrow> bool" where
  "takes (Plain c) = False" | "takes Percent = False" | "takes _ = True"

fun texts :: "directive list \<Rightarrow> u32 list \<Rightarrow> u32 set" where
  "texts (d # ds) (v # vs) = (if takes d then (if d = Text then {v} else {}) \<union> texts ds vs else texts ds (v # vs))"
| "texts _ _ = {}"

definition plain_ok :: "directive \<Rightarrow> bool" where
  "plain_ok d \<longleftrightarrow> (\<forall>c. d = Plain c \<longrightarrow> c \<noteq> 0 \<and> c \<noteq> ch CHR ''%'')"

text \<open>The bytes of a string and its NUL are not in \<open>conv_buf\<close>; memory changes only there.\<close>

definition apart :: "u32 \<Rightarrow> u32 \<Rightarrow> nat \<Rightarrow> bool" where
  "apart conv_buf a n \<longleftrightarrow> (\<forall>i \<le> n. 64 \<le> unat (a + of_nat i - conv_buf))"

definition only_conv :: "u32 \<Rightarrow> mem \<Rightarrow> mem \<Rightarrow> bool" where
  "only_conv conv_buf m m' \<longleftrightarrow> (\<forall>x. 64 \<le> unat (x - conv_buf) \<longrightarrow> m' x = m x)"

section \<open>Strings\<close>

lemma is_cstr_Nil: "is_cstr m a [] = (m a = 0)"
  by (simp add: is_cstr_def)

lemma is_cstr_Cons: "is_cstr m a (c # cs) \<Longrightarrow> m a = c \<and> c \<noteq> 0 \<and> is_cstr m (a + 1) cs"
  by (auto simp: is_cstr_def rd_Suc add.assoc)

lemma is_cstr_append: "is_cstr m a (cs @ ds) \<Longrightarrow> is_cstr m (a + of_nat (length cs)) ds"
proof (induction cs arbitrary: a)
  case (Cons c cs)
  then show ?case using is_cstr_Cons [of m a c "cs @ ds"] Cons.IH [of "a + 1"] by (simp add: add.assoc)
qed simp

lemma is_cstr_conv:
  assumes "is_cstr m a cs" and "apart conv_buf a (length cs)" and "only_conv conv_buf m m'"
  shows "is_cstr m' a cs"
proof -
  have e: "m' (a + of_nat i) = m (a + of_nat i)" if "i \<le> length cs" for i
    using assms(2,3) that by (simp add: apart_def only_conv_def)
  then have "rd m' a (length cs) = rd m a (length cs)" by (intro rd_cong) simp
  then show ?thesis using assms(1) e [of "length cs"] by (simp add: is_cstr_def)
qed

lemma puts_loop_fold:
  "is_cstr m (a + i) cs \<Longrightarrow> puts_loop m a i s = Some (i + of_nat (length cs), fold putc cs s)"
proof (induction cs arbitrary: i s)
  case Nil
  then show ?case by (subst puts_loop.simps) (simp add: is_cstr_Nil)
next
  case (Cons c cs)
  note c = is_cstr_Cons [OF Cons.prems]
  then have "puts_loop m a (i + 1) (putc c s) = Some (i + 1 + of_nat (length cs), fold putc cs (putc c s))"
    by (intro Cons.IH) (simp add: add.assoc)
  then show ?case using c by (subst puts_loop.simps) (simp add: add.assoc)
qed

lemma puts_fold: "is_cstr m a cs \<Longrightarrow> puts m a s = Some (sint (of_nat (length cs) :: u32), fold putc cs s)"
  using puts_loop_fold [of m a 0 cs s] by (simp add: puts_def)

lemma print_at_fold: "is_cstr m a cs \<Longrightarrow> print_at a s m = Some (m, fold putc cs s)"
  by (simp add: print_at_def puts_fold)

section \<open>Numbers\<close>

lemma length_digits_pow: "2 \<le> b \<Longrightarrow> n < b ^ Suc k \<Longrightarrow> length (digits b n) \<le> Suc k"
proof (induction k arbitrary: n)
  case 0
  then show ?case by (subst digits.simps) auto
next
  case (Suc k)
  have "n div b < b ^ Suc k" using Suc.prems by (intro less_mult_imp_div_less) (simp add: mult.commute)
  then have "length (digits b (n div b)) \<le> Suc k" by (rule Suc.IH [OF Suc.prems(1)])
  then show ?case by (subst digits.simps) auto
qed

lemma numeral_text_len: "length (numeral_text 16 (unat (v :: u32))) \<le> 8" "length (numeral_text 10 (unat v)) \<le> 10"
  using length_digits_pow [of 16 "unat v" 7] length_digits_pow [of 10 "unat v" 9] unat_u32_less [of v]
  by (simp_all add: numeral_text_def)

lemma numeral_text_char: "2 \<le> b \<Longrightarrow> b \<le> 36 \<Longrightarrow> 0 \<notin> set (numeral_text b n)"
  using digits_bound [of b _ n] digit_char_ok by (fastforce simp: numeral_text_def)

text \<open>Writing inside \<open>conv_buf\<close>.\<close>

lemma only_conv_refl: "only_conv c m m"
  by (simp add: only_conv_def)

lemma only_conv_trans: "only_conv c m m1 \<Longrightarrow> only_conv c m1 m2 \<Longrightarrow> only_conv c m m2"
  by (simp add: only_conv_def)

lemma beyond: "64 \<le> unat (x - c :: u32) \<Longrightarrow> k \<le> 64 \<Longrightarrow> unat (x - (c + of_nat k)) = unat (x - c) - k"
proof -
  assume a: "64 \<le> unat (x - c)" "k \<le> 64"
  have k: "unat (of_nat k :: u32) = k" using a(2) by simp
  then have "(of_nat k :: u32) \<le> x - c" using a by (simp add: word_le_nat_alt)
  then show ?thesis using unat_sub [of "of_nat k" "x - c"] k by (simp add: diff_diff_eq)
qed

lemma only_conv_wr: "k + length xs \<le> 64 \<Longrightarrow> only_conv c m (wr m (c + of_nat k) xs)"
  unfolding only_conv_def
proof (intro allI impI)
  fix x assume h: "k + length xs \<le> 64" "64 \<le> unat (x - c)"
  then have "\<not> unat (x - (c + of_nat k)) < length xs" using beyond [of x c k] by linarith
  then show "wr m (c + of_nat k) xs x = m x" using h(1) by (subst wr_apply) auto
qed

lemma before:
  assumes "i < k" "k + n \<le> 2 ^ 32" shows "\<not> unat (c + of_nat i - (c + of_nat k) :: u32) < n"
proof
  let ?j = "unat (c + of_nat i - (c + of_nat k) :: u32)"
  assume n: "?j < n"
  have "c + of_nat i = c + of_nat k + of_nat ?j" by simp
  then have "(of_nat i :: u32) = of_nat (k + ?j)" by (simp add: add.assoc)
  then have "i = k + ?j" using n assms by (subst (asm) of_nat_u32_eq_iff) auto
  then show False using assms(1) by simp
qed

lemma is_cstr_wr: "0 \<notin> set xs \<Longrightarrow> length xs < 2 ^ 31 \<Longrightarrow> is_cstr (wr m a (xs @ [0])) a xs"
  using rd_wr_same [of "xs @ [0]" m a] by (simp add: is_cstr_alt)

lemma itoa_text:
  assumes "r = 10 \<or> r = 16" and "k \<le> 32"
  shows "\<exists>m'. itoa m v (c + of_nat k) r = Some m' \<and> is_cstr m' (c + of_nat k) (numeral_text (unat r) (unat v)) \<and> only_conv c m m' \<and>
    (\<forall>i < k. m' (c + of_nat i) = m (c + of_nat i))"
proof -
  let ?t = "numeral_text (unat r) (unat v)"
  have r: "2 \<le> unat r" "unat r \<le> 36" using assms by auto
  have l: "length ?t \<le> 10" using assms(1) numeral_text_len [of v] by auto
  have "itoa m v (c + of_nat k) r = Some (wr m (c + of_nat k) (?t @ [0]))"
    unfolding numeral_text_def by (rule itoa_digits [OF r])
  moreover have "is_cstr (wr m (c + of_nat k) (?t @ [0])) (c + of_nat k) ?t"
    using numeral_text_char [OF r] l by (intro is_cstr_wr) auto
  moreover have "only_conv c m (wr m (c + of_nat k) (?t @ [0]))" using l assms(2) by (intro only_conv_wr) simp
  moreover have "wr m (c + of_nat k) (?t @ [0]) (c + of_nat i) = m (c + of_nat i)" if "i < k" for i
    using before [OF that, of "Suc (length ?t)" c] l assms(2) by (subst wr_apply) auto
  ultimately show ?thesis by blast
qed

lemma unat_neg: "sint (v :: u32) < 0 \<Longrightarrow> unat (- v) = nat (- sint v)"
proof -
  assume n: "sint v < 0"
  have "- v = of_int (- sint v)" by simp
  then have "uint (- v) = (- sint v) mod 2 ^ 32" by (simp only: uint_word_of_int) simp
  also have "\<dots> = - sint v" using n sint_ge [of v] by simp
  finally show ?thesis by (metis unat_eq_nat_uint)
qed

lemma unat_pos: "0 \<le> sint (v :: u32) \<Longrightarrow> unat v = nat (sint v)"
  by (simp add: sint_nonneg_u32)

text \<open>Each conversion prints its text and keeps memory but for \<open>conv_buf\<close>.\<close>

definition shows_text :: "u32 \<Rightarrow> console \<Rightarrow> u8 list \<Rightarrow> console option \<Rightarrow> bool" where
  "shows_text c k t r \<longleftrightarrow> (\<exists>m'. r = Some (m', fold putc t (snd k)) \<and> only_conv c (fst k) m')"

lemma shows_at:
  assumes "is_cstr m' a t" and "only_conv c m m'" shows "shows_text c (m, s) t (print_at a s m')"
  using assms by (simp add: shows_text_def print_at_fold)

lemma unsigned_shows: "shows_text c (m, s) (numeral_text 10 (unat v)) (print_unsigned c v (m, s))"
  using itoa_text [of 10 0 m v c] shows_at by (auto simp: print_unsigned_def)

lemma hex_shows: "shows_text c (m, s) (numeral_text 16 (unat v)) (print_hex False c v (m, s))"
  using itoa_text [of 16 0 m v c] shows_at by (auto simp: print_hex_def)

lemma signed_shows: "shows_text c (m, s) (signed_text (sint v)) (print_signed c v (m, s))"
proof (cases "sint v < 0")
  case False
  then show ?thesis
    using itoa_text [of 10 0 m v c] shows_at by (auto simp: print_signed_def signed_text_def unat_pos)
next
  case True
  let ?m = "store m c (ch CHR ''-'')" and ?t = "numeral_text 10 (unat (- v))"
  obtain m' where m: "itoa ?m (- v) (c + 1) 10 = Some m'" "is_cstr m' (c + 1) ?t" "only_conv c ?m m'" "m' c = ch CHR ''-''"
    using itoa_text [of 10 1 ?m "- v" c] by (auto simp: store_apply)
  have "only_conv c m ?m" by (auto simp: only_conv_def store_apply)
  then have o: "only_conv c m m'" using m(3) only_conv_trans by blast
  have "length ?t \<le> 10" by (rule numeral_text_len(2))
  then have "is_cstr m' c (ch CHR ''-'' # ?t)"
    using m(2,4) by (auto simp: is_cstr_def rd_Suc add.assoc)
  from shows_at [OF this o] show ?thesis
    using m(1) True by (simp add: print_signed_def signed_text_def unat_neg)
qed

lemma zero_fill_wr: "n \<le> 8 \<Longrightarrow> zero_fill m c (int n) = wr m (c + of_nat n) (replicate (8 - n) (ch CHR ''0''))"
proof (induction "8 - n" arbitrary: n m)
  case 0
  then show ?case by (subst zero_fill.simps) simp
next
  case (Suc k)
  then have n: "n < 8" "8 - n = Suc (8 - Suc n)" "k = 8 - Suc n" by simp_all
  have "zero_fill m c (int n) = zero_fill (store m (c + of_nat n) (ch CHR ''0'')) c (int (Suc n))"
    using n(1) by (subst zero_fill.simps) (simp add: add.commute)
  also have "\<dots> = wr (store m (c + of_nat n) (ch CHR ''0'')) (c + of_nat (Suc n)) (replicate (8 - Suc n) (ch CHR ''0''))"
    using n by (intro Suc.hyps(1)) simp_all
  also have "\<dots> = wr m (c + of_nat n) (replicate (8 - n) (ch CHR ''0''))"
    unfolding n(2) by (simp add: ac_simps)
  finally show ?case .
qed

lemma is_cstr_rep:
  "(\<And>i. i < n \<Longrightarrow> m (a + of_nat i) = x) \<Longrightarrow> x \<noteq> 0 \<Longrightarrow> is_cstr m (a + of_nat n) t \<Longrightarrow> n + length t < 2 ^ 32 \<Longrightarrow>
   is_cstr m a (replicate n x @ t)"
proof (induction n arbitrary: a)
  case (Suc n)
  have "is_cstr m (a + 1) (replicate n x @ t)"
    using Suc.prems Suc.prems(1) [of "Suc _"] by (intro Suc.IH) (auto simp: add.assoc)
  then show ?case using Suc.prems(1) [of 0] Suc.prems(2,4) by (auto simp: is_cstr_def rd_Suc add.assoc)
qed simp

lemma hex8_shows: "shows_text c (m, s) (padded_hex (unat v)) (print_hex True c v (m, s))"
proof -
  let ?t = "numeral_text 16 (unat v)"
  define n where "n = length ?t"
  have n: "n \<le> 8" using numeral_text_len by (simp add: n_def)
  obtain m1 where m: "itoa m v (c + 8) 16 = Some m1" "is_cstr m1 (c + 8) ?t" "only_conv c m m1"
    using itoa_text [of 16 8 m v c] by auto
  define m2 where "m2 = wr m1 (c + of_nat n) (replicate (8 - n) (ch CHR ''0''))"
  have z: "zero_fill m1 c (int n) = m2" using zero_fill_wr [OF n, of m1 c] by (simp add: m2_def)
  have i: "m2 (c + of_nat n + of_nat i) = ch CHR ''0''" if "i < 8 - n" for i
    using that n by (simp add: m2_def wr_apply)
  have k: "m2 (c + 8 + of_nat i) = m1 (c + 8 + of_nat i)" if "i \<le> n" for i
  proof -
    have e: "c + 8 + of_nat i - (c + of_nat n) = of_nat (8 + i - n)" using n by (simp add: of_nat_diff)
    have "unat (c + 8 + of_nat i - (c + of_nat n)) = 8 + i - n" unfolding e using that by (intro unat_of_nat_u32) simp
    then show ?thesis using n unfolding m2_def by (subst wr_apply) auto
  qed
  have "is_cstr m2 (c + 8) ?t"
    using m(2) k rd_cong [of n m2 "c + 8" m1] by (auto simp: is_cstr_def n_def)
  then have t: "is_cstr m2 (c + of_nat n) (replicate (8 - n) (ch CHR ''0'') @ ?t)"
    using i n by (intro is_cstr_rep) (auto simp: add.assoc of_nat_diff n_def)
  have "only_conv c m m2"
    using only_conv_trans [OF m(3)] only_conv_wr [of n "replicate (8 - n) (ch CHR ''0'')" c m1] n by (simp add: m2_def)
  from shows_at [OF t this] show ?thesis
    using m(1,2) n by (simp add: print_hex_def n_def [symmetric] z padded_hex_def sint_of_nat_u32)
qed

section \<open>The format\<close>

lemma spelling_start:
  "d \<noteq> Plain c \<Longrightarrow> \<exists>cs. spelling d = ch CHR ''%'' # cs \<and> cs \<noteq> [] \<or> (\<exists>c. d = Plain c)"
  by (cases d) simp_all

text \<open>What a directive prints of its argument.\<close>

fun argument_text :: "(u32 \<Rightarrow> u8 list) \<Rightarrow> directive \<Rightarrow> u32 \<Rightarrow> u8 list" where
  "argument_text str Hex v = numeral_text 16 (unat v)"
| "argument_text str Hex8 v = padded_hex (unat v)"
| "argument_text str Unsigned v = numeral_text 10 (unat v)"
| "argument_text str Signed v = signed_text (sint v)"
| "argument_text str Character v = [ucast v]"
| "argument_text str Text v = str v"
| "argument_text str _ v = []"

lemma printed_takes: "takes d \<Longrightarrow> printed str (d # ds) (v # vs) = argument_text str d v @ printed str ds vs"
  by (cases d) simp_all

lemma conversion_step:
  assumes f: "is_cstr m (buf + 1) (tl (spelling d) @ rest)" and d: "takes d"
    and t: "d = Text \<Longrightarrow> is_cstr m v (str v)"
  shows "\<exists>m'. conversion c False (buf + 1) (v # vs) (m, s) =
      Some (buf + of_nat (length (spelling d)) - 1, vs, m', fold putc (argument_text str d v) s) \<and> only_conv c m m'"
proof -
  have one: "m (buf + 1) = x" "m (buf + 2) = y" if "is_cstr m (buf + 1) (x # y # zs)" for x y zs
    using is_cstr_Cons [OF that] is_cstr_Cons [of m "buf + 1 + 1" y zs] by (simp_all add: add.assoc)
  have first: "m (buf + 1) = x" if "is_cstr m (buf + 1) (x # zs)" for x zs
    using is_cstr_Cons [OF that] by simp
  show ?thesis
  proof (cases d)
    case Hex
    then have "m (buf + 1) = 120" using f first by simp
    then show ?thesis
      using hex_shows [of c m s v] by (subst conversion.simps) (auto simp: Hex shows_text_def)
  next
    case Hex8
    then have m: "m (buf + 1) = 35" "m (buf + 2) = 120" using f one by simp_all
    have "conversion c True (buf + 2) (v # vs) (m, s) = map_option (\<lambda>k. (buf + 2, vs, k)) (print_hex True c v (m, s))"
      using m(2) by (subst conversion.simps) simp
    moreover have "conversion c False (buf + 1) (v # vs) (m, s) = conversion c True (buf + 2) (v # vs) (m, s)"
      using m(1) by (subst conversion.simps) (simp add: add.assoc)
    ultimately show ?thesis
      using hex8_shows [of c m s v] by (auto simp: Hex8 shows_text_def add.assoc)
  next
    case Unsigned
    then have "m (buf + 1) = 117" using f first by simp
    then show ?thesis
      using unsigned_shows [of c m s v] by (subst conversion.simps) (auto simp: Unsigned shows_text_def)
  next
    case Signed
    then have "m (buf + 1) = 100" using f first by simp
    then show ?thesis
      using signed_shows [of c m s v] by (subst conversion.simps) (auto simp: Signed shows_text_def)
  next
    case Character
    then have "m (buf + 1) = 99" using f first by simp
    then show ?thesis by (subst conversion.simps) (auto simp: Character only_conv_refl)
  next
    case Text
    then have "m (buf + 1) = 115" using f first by simp
    then show ?thesis
      using print_at_fold [OF t [OF Text], of s] by (subst conversion.simps) (auto simp: Text only_conv_refl)
  qed (use d in simp_all)
qed

text \<open>The strings the format takes are kept apart from \<open>conv_buf\<close>.\<close>

definition strings_ok :: "u32 \<Rightarrow> (u32 \<Rightarrow> u8 list) \<Rightarrow> u32 set \<Rightarrow> mem \<Rightarrow> bool" where
  "strings_ok c str vs m \<longleftrightarrow> (\<forall>v \<in> vs. is_cstr m v (str v) \<and> apart c v (length (str v)))"

lemma strings_ok_conv: "strings_ok c str vs m \<Longrightarrow> only_conv c m m' \<Longrightarrow> strings_ok c str vs m'"
  using is_cstr_conv by (auto simp: strings_ok_def)

lemma apart_step: "apart c a (k + n) \<Longrightarrow> apart c (a + of_nat k) n"
  unfolding apart_def
proof (intro allI impI)
  fix i assume "\<forall>i \<le> k + n. 64 \<le> unat (a + of_nat i - c)" "i \<le> n"
  then have "64 \<le> unat (a + of_nat (k + i) - c)" by (metis add_left_mono)
  then show "64 \<le> unat (a + of_nat k + of_nat i - c)" by (simp add: add.assoc)
qed

definition format_text :: "directive list \<Rightarrow> u8 list" where
  "format_text ds = concat (map spelling ds)"

lemma printf_loop_prints:
  assumes "is_cstr m buf (format_text ds)" and "apart c buf (length (format_text ds))"
    and "\<forall>d \<in> set ds. plain_ok d" and "length (filter takes ds) \<le> length vs" and "strings_ok c str (texts ds vs) m"
  shows "\<exists>m'. printf_loop c buf vs (m, s) = Some (buf + of_nat (length (format_text ds)), m', fold putc (printed str ds vs) s) \<and>
    only_conv c m m'"
  using assms
proof (induction ds arbitrary: buf vs m s)
  case Nil
  then show ?case by (subst printf_loop.simps) (auto simp: format_text_def is_cstr_Nil only_conv_refl)
next
  case (Cons d ds)
  let ?n = "length (spelling d)"
  have f: "is_cstr m buf (spelling d @ format_text ds)" using Cons.prems(1) by (simp add: format_text_def)
  have rest: "is_cstr m (buf + of_nat ?n) (format_text ds)" by (rule is_cstr_append [OF f])
  have a: "apart c (buf + of_nat ?n) (length (format_text ds))"
    using apart_step [of c buf ?n] Cons.prems(2) by (simp add: format_text_def)
  have p: "\<forall>d \<in> set ds. plain_ok d" using Cons.prems(3) by simp
  show ?case
  proof (cases "takes d")
    case True
    then obtain v vs1 where vs: "vs = v # vs1" using Cons.prems(4) by (cases vs) auto
    have pc: "spelling d = 37 # tl (spelling d)" using True by (cases d) simp_all
    then have b: "m buf = 37" "is_cstr m (buf + 1) (tl (spelling d) @ format_text ds)"
      using is_cstr_Cons [of m buf 37 "tl (spelling d) @ format_text ds"] f by (metis append_Cons)+
    have t: "d = Text \<Longrightarrow> is_cstr m v (str v)" and st: "strings_ok c str (texts ds vs1) m"
      using Cons.prems(5) True by (auto simp: vs strings_ok_def)
    obtain m1 where c1: "conversion c False (buf + 1) (v # vs1) (m, s) =
        Some (buf + of_nat ?n - 1, vs1, m1, fold putc (argument_text str d v) s)" and o: "only_conv c m m1"
      using conversion_step [where str = str, OF b(2) True t] by blast
    have le: "length (filter takes ds) \<le> length vs1" using Cons.prems(4) True by (simp add: vs)
    obtain m2 where l: "printf_loop c (buf + of_nat ?n) vs1 (m1, fold putc (argument_text str d v) s) =
        Some (buf + of_nat ?n + of_nat (length (format_text ds)), m2, fold putc (printed str ds vs1) (fold putc (argument_text str d v) s))"
      and o2: "only_conv c m1 m2"
      using Cons.IH [OF is_cstr_conv [OF rest a o] a p le strings_ok_conv [OF st o]] by blast
    have "printf_loop c buf vs (m, s) = printf_loop c (buf + of_nat ?n) vs1 (m1, fold putc (argument_text str d v) s)"
      unfolding vs using b(1) c1 by (subst printf_loop.simps) simp
    then show ?thesis
      using l o2 o only_conv_trans printed_takes [OF True] by (auto simp: format_text_def vs add.assoc)
  next
    case False
    have st: "strings_ok c str (texts ds vs) m"
      using Cons.prems(5) False by (cases vs) (auto simp: strings_ok_def)
    have le: "length (filter takes ds) \<le> length vs" using Cons.prems(4) False by simp
    note ih = Cons.IH [OF rest a p le st]
    consider ch where "d = Plain ch" | "d = Percent" using False by (cases d) simp_all
    then show ?thesis
    proof cases
      case 1
      then have b: "m buf = ch" "ch \<noteq> 0" "ch \<noteq> 37" using is_cstr_Cons [of m buf ch] f Cons.prems(3) by (auto simp: plain_ok_def)
      have "printf_loop c buf vs (m, s) = printf_loop c (buf + 1) vs (m, putc ch s)"
        using b by (subst printf_loop.simps) simp
      then show ?thesis using ih [of "putc ch s"] by (auto simp: 1 format_text_def add.assoc)
    next
      case 2
      then have b: "m buf = 37" "m (buf + 1) = 37"
        using is_cstr_Cons [of m buf 37 "37 # format_text ds"] is_cstr_Cons [of m "buf + 1" 37] f by auto
      have "conversion c False (buf + 1) vs (m, s) = Some (buf + 1, vs, m, putc 37 s)"
        using b(2) by (subst conversion.simps) simp
      then have "printf_loop c buf vs (m, s) = printf_loop c (buf + 2) vs (m, putc 37 s)"
        using b(1) by (subst printf_loop.simps) (simp add: add.assoc)
      then show ?thesis using ih [of "putc 37 s"] by (auto simp: 2 format_text_def add.assoc)
    qed
  qed
qed

section \<open>The screen\<close>

lemma fold_putc:
  assumes "tty_ok s"
  defines "a \<equiv> active_terminal_index s"
  shows "fold putc cs s = fold (\<lambda>c. terminal_putc c ATTRIB a) cs s"
proof (induction cs rule: rev_induct)
  case (snoc c cs)
  have "others_same a s (fold (\<lambda>c. terminal_putc c ATTRIB a) cs s)"
    using write_fold [OF assms(1) active_less [OF assms(1)], of cs] by (simp add: a_def)
  then have "active_terminal_index (fold (\<lambda>c. terminal_putc c ATTRIB a) cs s) = a" by (simp add: others_same_def a_def)
  then show ?case using snoc by (simp add: putc_def)
qed simp

lemma printf_shows:
  assumes "is_cstr m format (format_text ds)" and "length (format_text ds) < 2 ^ 31" and "apart c format (length (format_text ds))"
    and "\<forall>d \<in> set ds. plain_ok d" and "length (filter takes ds) \<le> length vs" and "strings_ok c str (texts ds vs) m"
  shows "\<exists>m'. printf c format vs (m, s) = Some (int (length (format_text ds)), m', fold putc (printed str ds vs) s) \<and> only_conv c m m'"
proof -
  obtain m' where "printf_loop c format vs (m, s) = Some (format + of_nat (length (format_text ds)), m', fold putc (printed str ds vs) s)"
    and o: "only_conv c m m'"
    using printf_loop_prints [OF assms(1,3,4,5,6)] by blast
  then show ?thesis using assms(2) by (simp add: printf_def sint_of_nat_u32)
qed

text \<open>A \<open>%\<close> as the last character of a format makes \<open>printf\<close> go on past the terminating NUL.\<close>

lemma trailing_percent:
  assumes "m buf = ch CHR ''%''" and "m (buf + 1) = 0"
  shows "printf_loop c buf vs (m, s) = printf_loop c (buf + 2) vs (m, s)"
proof -
  have "conversion c False (buf + 1) vs (m, s) = Some (buf + 1, vs, m, s)"
    using assms(2) by (subst conversion.simps) simp
  then show ?thesis using assms(1) by (subst printf_loop.simps) (simp add: add.assoc)
qed

text \<open>
  C7. \<open>printf\<close> prints what its format says: for a format made of plain characters and the directives
  the code knows, kept apart from its scratch array, with an argument for each, it ends, returns the
  length of the format, and the visible terminal's screen becomes what printing plain characters,
  numerals without leading zeros (or padded to eight digits), signs, and strings one after the other
  gives; no other terminal changes, and no memory outside the scratch array.
\<close>

theorem printf_prints:
  assumes "tty_ok s" and "is_cstr m format (format_text ds)" and "length (format_text ds) < 2 ^ 31"
    and "apart c format (length (format_text ds))" and "\<forall>d \<in> set ds. plain_ok d"
    and "length (filter takes ds) \<le> length vs" and "strings_ok c str (texts ds vs) m"
  defines "a \<equiv> active_terminal_index s"
  shows "\<exists>m' s'. printf c format vs (m, s) = Some (int (length (format_text ds)), m', s')
    \<and> view s' a = fold (\<lambda>c. abs_putc c ATTRIB) (printed str ds vs) (view s a)
    \<and> others_same a s s' \<and> tty_ok s' \<and> (\<forall>x. 64 \<le> unat (x - c) \<longrightarrow> m' x = m x)"
  using printf_shows [OF assms(2-7), of s] write_fold [OF assms(1) active_less [OF assms(1)], of "printed str ds vs"]
  by (auto simp: fold_putc [OF assms(1)] a_def only_conv_def)

text \<open>The format \<open>"%d:%#x\n"\<close> with a number of each kind.\<close>

lemma digits_eval: "digits 10 42 = [4, 2]" "digits 16 255 = [15, 15]"
  by (simp_all add: digits.simps [of 10] digits.simps [of 16])

definition demo_format :: "directive list" where
  "demo_format = [Signed, Plain (ch CHR '':''), Hex8, Plain 10]"

definition demo_mem :: mem where
  "demo_mem = wr (\<lambda>_. 0) 100 (chars ''%d:%#x'' @ [10, 0])"

lemma demo_text: "format_text demo_format = chars ''%d:%#x'' @ [10]"
  by (simp add: format_text_def demo_format_def)

lemma demo_cstr: "is_cstr demo_mem 100 (format_text demo_format)"
proof -
  have "demo_mem = wr (\<lambda>_. 0) 100 (format_text demo_format @ [0])" by (simp only: demo_mem_def demo_text append.assoc append.simps)
  moreover have "0 \<notin> set (format_text demo_format)" "length (format_text demo_format) < 2 ^ 31" by (simp_all add: demo_text)
  ultimately show ?thesis using is_cstr_wr by metis
qed

lemma demo_apart: "apart 0 100 (length (format_text demo_format))"
  using unat_plus_of_nat [of 100] by (simp add: apart_def demo_text)

lemma digit_chars: "digit_char 2 = 50" "digit_char 4 = 52" "digit_char 15 = 70"
  by (simp_all add: digit_char_def itoa_lookup_def)

lemma demo_numerals: "numeral_text 10 42 = [52, 50]" "numeral_text 16 255 = [70, 70]"
  by (simp_all add: numeral_text_def digits_eval digit_chars)

lemma demo_zeros: "replicate 6 (48 :: u8) = [48, 48, 48, 48, 48, 48]"
  by (simp add: numeral_eq_Suc)

lemma demo_printed: "printed (\<lambda>_. []) demo_format [- 42, 255] = chars ''-42:000000FF'' @ [10]"
  by (simp add: demo_format_def signed_text_def padded_hex_def demo_numerals demo_zeros)

lemma demo_arguments: "\<forall>d \<in> set demo_format. plain_ok d" "length (filter takes demo_format) \<le> length [- 42, 255 :: u32]"
  "texts demo_format [- 42, 255] = {}"
  by (simp_all add: demo_format_def plain_ok_def)

theorem printf_prints_witness:
  "\<exists>m' s'. printf 0 100 [- 42, 255] (demo_mem, demo_tty) = Some (7, m', s')
    \<and> view s' 0 = fold (\<lambda>c. abs_putc c ATTRIB) (chars ''-42:000000FF'' @ [10]) (view demo_tty 0)"
proof -
  have l: "length (format_text demo_format) < 2 ^ 31" "int (length (format_text demo_format)) = 7" by (simp_all add: demo_text)
  have t: "strings_ok 0 (\<lambda>_. []) (texts demo_format [- 42, 255]) demo_mem" unfolding demo_arguments(3) by (simp add: strings_ok_def)
  from printf_prints [OF demo_ok(1) demo_cstr l(1) demo_apart demo_arguments(1,2) t]
  show ?thesis unfolding demo_printed l(2) demo_ok(3) by blast
qed

end
