(* ===== verification/Exceptions.thy ===== *)
theory Exceptions
  imports Console
begin

text \<open>
  Descriptors and exceptions: the interrupt descriptor table and the descriptors that \<open>entry\<close> builds
  (\<^verbatim>\<open>x86_desc.h\<close>, \<^verbatim>\<open>x86_desc.S\<close>, \<^verbatim>\<open>syscall_handler.h\<close>), and the exception handlers of
  \<^verbatim>\<open>exception_handler.c\<close>, all under \<^verbatim>\<open>mp3/student-distrib\<close>.  The addresses of the handlers and of the
  string literals are the linker's choice and parameters.
\<close>

section \<open>Interrupt descriptors\<close>

definition KERNEL_CS :: u16 where "KERNEL_CS = 0x0010"
definition KERNEL_DS :: u16 where "KERNEL_DS = 0x0018"
definition USER_CS :: u16 where "USER_CS = 0x0023"
definition USER_DS :: u16 where "USER_DS = 0x002B"
definition KERNEL_TSS :: u16 where "KERNEL_TSS = 0x0030"
definition KERNEL_LDT :: u16 where "KERNEL_LDT = 0x0038"
definition TSS_SIZE :: u32 where "TSS_SIZE = 104"
definition NUM_VEC :: nat where "NUM_VEC = 256"
definition SYSTEM_TRAP :: nat where "SYSTEM_TRAP = 0x80"

record idt_desc =
  offset_15_00 :: u16
  seg_selector :: u16
  reserved4 :: u8
  reserved3 :: bool
  reserved2 :: bool
  reserved1 :: bool
  gate_size :: bool
  reserved0 :: bool
  gate_dpl :: "2 word"
  gate_present :: bool
  offset_31_16 :: u16

text \<open>The fields in the words \<open>val\<close> of the union, as the compiler packs them.\<close>

definition idt_fields :: "u32 \<Rightarrow> u32 \<Rightarrow> idt_desc" where
  "idt_fields v0 v1 = \<lparr>offset_15_00 = ucast v0, seg_selector = ucast (drop_bit 16 v0), reserved4 = ucast v1,
     reserved3 = bit v1 8, reserved2 = bit v1 9, reserved1 = bit v1 10, gate_size = bit v1 11, reserved0 = bit v1 12,
     gate_dpl = ucast (drop_bit 13 v1), gate_present = bit v1 15, offset_31_16 = ucast (drop_bit 16 v1)\<rparr>"

text \<open>Every entry of the table in \<^verbatim>\<open>x86_desc.S\<close> is \<open>.quad 0x00008E0000100000\<close>.\<close>

definition idt_start :: "idt_desc list" where
  "idt_start = replicate NUM_VEC (idt_fields 0x00100000 0x00008E00)"

definition SET_IDT_ENTRY :: "u32 \<Rightarrow> idt_desc \<Rightarrow> idt_desc" where
  "SET_IDT_ENTRY handler str =
     str\<lparr>offset_31_16 := ucast (drop_bit 16 (handler AND 0xFFFF0000)), offset_15_00 := ucast (handler AND 0xFFFF)\<rparr>"

definition set_entry :: "nat \<Rightarrow> u32 \<Rightarrow> idt_desc list \<Rightarrow> idt_desc list" where
  "set_entry i handler idt = idt[i := SET_IDT_ENTRY handler (idt ! i)]"

text \<open>What the processor reads in an entry: the address of the handler and the type of the gate.\<close>

definition gate_offset :: "idt_desc \<Rightarrow> u32" where
  "gate_offset d = push_bit 16 (ucast (offset_31_16 d)) OR ucast (offset_15_00 d)"

definition interrupt_gate :: "idt_desc \<Rightarrow> bool" where
  "interrupt_gate d \<longleftrightarrow> gate_present d \<and> gate_size d \<and> reserved1 d \<and> reserved2 d \<and> \<not> reserved3 d \<and> \<not> reserved0 d"

definition trap_gate :: "idt_desc \<Rightarrow> bool" where
  "trap_gate d \<longleftrightarrow> gate_present d \<and> gate_size d \<and> reserved1 d \<and> reserved2 d \<and> reserved3 d \<and> \<not> reserved0 d"

section \<open>Segment descriptors\<close>

record seg_desc =
  seg_lim_15_00 :: u16
  base_15_00 :: u16
  base_23_16 :: u8
  seg_type :: "4 word"
  seg_sys :: bool
  seg_dpl :: "2 word"
  seg_present :: bool
  seg_lim_19_16 :: "4 word"
  seg_avail :: bool
  seg_reserved :: bool
  seg_opsize :: bool
  seg_granularity :: bool
  base_31_24 :: u8

text \<open>\<open>SET_LDT_PARAMS\<close> and \<open>SET_TSS_PARAMS\<close> are the same text.\<close>

definition SET_SEG_PARAMS :: "u32 \<Rightarrow> u32 \<Rightarrow> seg_desc \<Rightarrow> seg_desc" where
  "SET_SEG_PARAMS addr lim str =
     str\<lparr>base_31_24 := ucast (drop_bit 24 (addr AND 0xFF000000)), base_23_16 := ucast (drop_bit 16 (addr AND 0x00FF0000)),
         base_15_00 := ucast (addr AND 0x0000FFFF), seg_lim_19_16 := ucast (drop_bit 16 (lim AND 0x000F0000)),
         seg_lim_15_00 := ucast (lim AND 0x0000FFFF)\<rparr>"

definition seg_base :: "seg_desc \<Rightarrow> u32" where
  "seg_base d = push_bit 24 (ucast (base_31_24 d)) OR (push_bit 16 (ucast (base_23_16 d)) OR ucast (base_15_00 d))"

definition seg_limit :: "seg_desc \<Rightarrow> u32" where
  "seg_limit d = push_bit 16 (ucast (seg_lim_19_16 d)) OR ucast (seg_lim_15_00 d)"

section \<open>Exception handlers\<close>

text \<open>The machine as the handlers see it.  After \<open>stop\<close> nothing happens any more.\<close>

record panic_state =
  pmem :: mem
  ptty :: tty
  pint_flag :: bool
  phalted :: bool

definition stop :: "panic_state \<Rightarrow> panic_state" where
  "stop s = s\<lparr>pint_flag := False, phalted := True\<rparr>"

definition panic_text :: "string \<Rightarrow> string" where
  "panic_text msg = ''Kernel Panic:'' @ CHR 0x0A # msg"

definition panic :: "(string \<Rightarrow> u32) \<Rightarrow> u32 \<Rightarrow> string \<Rightarrow> u32 list \<Rightarrow> panic_state \<Rightarrow> panic_state option" where
  "panic lit conv_buf msg esp s =
     map_option (\<lambda>(_, m, t). stop (s\<lparr>pmem := m, ptty := t\<rparr>))
       (printf conv_buf (lit (panic_text msg)) esp (pmem s, blue_screen (ptty s)))"

datatype handler =
    Generic_error | Divide_by_zero | Debug_exception | Nmi | Breakpoint | Overflow | Bound_exception | Invalid_opcode
  | Fpu_missing | Double_fault | Coprocessor_segment_overrun | Invalid_tss | Segment_missing | Stack_exception
  | General_protection | Page_fault | Fp_error | Alignment_check | Machine_check
  | System_call | Rtc_handler | Key_handler | Scheduler_handler

text \<open>
  The handlers of \<^verbatim>\<open>exception_handler.c\<close>.  They are plain C functions: for the page fault handler
  \<open>ret\<close> is the word on top of the stack when it is entered, which \<open>__builtin_return_address(0)\<close> yields.
\<close>

type_synonym exception_handler = "(string \<Rightarrow> u32) \<Rightarrow> u32 \<Rightarrow> panic_state \<Rightarrow> panic_state option"

definition handle_generic_error :: exception_handler where
  "handle_generic_error lit conv_buf = panic lit conv_buf ''Undefined Exception'' []"

definition handle_divide_by_zero :: exception_handler where
  "handle_divide_by_zero lit conv_buf = panic lit conv_buf ''Division by 0'' []"

definition handle_debug_exception :: exception_handler where
  "handle_debug_exception lit conv_buf = panic lit conv_buf ''Debug Exception'' []"

definition handle_nmi :: exception_handler where
  "handle_nmi lit conv_buf = panic lit conv_buf ''Non-Maskable Interrupt'' []"

definition handle_breakpoint :: exception_handler where
  "handle_breakpoint lit conv_buf = panic lit conv_buf ''Breakpoint (INT3)'' []"

definition handle_overflow :: exception_handler where
  "handle_overflow lit conv_buf = panic lit conv_buf ''Overflow with EFLAGS[OF] Set'' []"

definition handle_bound_exception :: exception_handler where
  "handle_bound_exception lit conv_buf = panic lit conv_buf ''Debug Exception'' []"

definition handle_invalid_opcode :: exception_handler where
  "handle_invalid_opcode lit conv_buf = panic lit conv_buf ''Invalid Opcode'' []"

definition handle_fpu_missing :: exception_handler where
  "handle_fpu_missing lit conv_buf = panic lit conv_buf ''Floating Point Unit Missing'' []"

definition handle_double_fault :: exception_handler where
  "handle_double_fault lit conv_buf = panic lit conv_buf ''Double Fault'' []"

definition handle_coprocessor_segment_overrun :: exception_handler where
  "handle_coprocessor_segment_overrun lit conv_buf = panic lit conv_buf ''Coprocessor Segment Overrun'' []"

definition handle_invalid_tss :: exception_handler where
  "handle_invalid_tss lit conv_buf = panic lit conv_buf ''Invalid TSS'' []"

definition handle_segment_missing :: exception_handler where
  "handle_segment_missing lit conv_buf = panic lit conv_buf ''Segment Not Present'' []"

definition handle_stack_exception :: exception_handler where
  "handle_stack_exception lit conv_buf = panic lit conv_buf ''Stack Exception'' []"

definition handle_general_protection :: exception_handler where
  "handle_general_protection lit conv_buf = panic lit conv_buf ''General Protection Exception'' []"

definition handle_page_fault :: "u32 \<Rightarrow> exception_handler" where
  "handle_page_fault ret lit conv_buf = panic lit conv_buf (''Page Fault'' @ CHR 0x0A # ''Exception Code: %x'') [ret]"

definition handle_fp_error :: exception_handler where
  "handle_fp_error lit conv_buf = panic lit conv_buf ''Floating Point Error'' []"

definition handle_alignment_check :: exception_handler where
  "handle_alignment_check lit conv_buf = panic lit conv_buf ''Alignment Check'' []"

definition handle_machine_check :: exception_handler where
  "handle_machine_check lit conv_buf = panic lit conv_buf ''Machine Check Exception'' []"

text \<open>The code behind a label.\<close>

fun handle_exception :: "handler \<Rightarrow> u32 \<Rightarrow> exception_handler" where
  "handle_exception Generic_error ret = handle_generic_error"
| "handle_exception Divide_by_zero ret = handle_divide_by_zero"
| "handle_exception Debug_exception ret = handle_debug_exception"
| "handle_exception Nmi ret = handle_nmi"
| "handle_exception Breakpoint ret = handle_breakpoint"
| "handle_exception Overflow ret = handle_overflow"
| "handle_exception Bound_exception ret = handle_bound_exception"
| "handle_exception Invalid_opcode ret = handle_invalid_opcode"
| "handle_exception Fpu_missing ret = handle_fpu_missing"
| "handle_exception Double_fault ret = handle_double_fault"
| "handle_exception Coprocessor_segment_overrun ret = handle_coprocessor_segment_overrun"
| "handle_exception Invalid_tss ret = handle_invalid_tss"
| "handle_exception Segment_missing ret = handle_segment_missing"
| "handle_exception Stack_exception ret = handle_stack_exception"
| "handle_exception General_protection ret = handle_general_protection"
| "handle_exception Page_fault ret = handle_page_fault ret"
| "handle_exception Fp_error ret = handle_fp_error"
| "handle_exception Alignment_check ret = handle_alignment_check"
| "handle_exception Machine_check ret = handle_machine_check"
| "handle_exception _ ret = (\<lambda>lit conv_buf s. None)"

lemmas handler_defs =
  handle_generic_error_def handle_divide_by_zero_def handle_debug_exception_def handle_nmi_def
  handle_breakpoint_def handle_overflow_def handle_bound_exception_def handle_invalid_opcode_def
  handle_fpu_missing_def handle_double_fault_def handle_coprocessor_segment_overrun_def handle_invalid_tss_def
  handle_segment_missing_def handle_stack_exception_def handle_general_protection_def handle_page_fault_def
  handle_fp_error_def handle_alignment_check_def handle_machine_check_def

text \<open>What each says, for the statements.\<close>

fun message :: "handler \<Rightarrow> string" where
  "message Generic_error = ''Undefined Exception''"
| "message Divide_by_zero = ''Division by 0''"
| "message Debug_exception = ''Debug Exception''"
| "message Nmi = ''Non-Maskable Interrupt''"
| "message Breakpoint = ''Breakpoint (INT3)''"
| "message Overflow = ''Overflow with EFLAGS[OF] Set''"
| "message Bound_exception = ''Debug Exception''"
| "message Invalid_opcode = ''Invalid Opcode''"
| "message Fpu_missing = ''Floating Point Unit Missing''"
| "message Double_fault = ''Double Fault''"
| "message Coprocessor_segment_overrun = ''Coprocessor Segment Overrun''"
| "message Invalid_tss = ''Invalid TSS''"
| "message Segment_missing = ''Segment Not Present''"
| "message Stack_exception = ''Stack Exception''"
| "message General_protection = ''General Protection Exception''"
| "message Page_fault = ''Page Fault'' @ CHR 0x0A # ''Exception Code: %x''"
| "message Fp_error = ''Floating Point Error''"
| "message Alignment_check = ''Alignment Check''"
| "message Machine_check = ''Machine Check Exception''"
| "message _ = []"

definition an_exception :: "handler \<Rightarrow> bool" where
  "an_exception h \<longleftrightarrow> h \<notin> {System_call, Rtc_handler, Key_handler, Scheduler_handler}"

lemma handle_exception_panics:
  "an_exception h \<Longrightarrow> handle_exception h ret lit c s = panic lit c (message h) (if h = Page_fault then [ret] else []) s"
  by (cases h) (simp_all add: handler_defs an_exception_def)

section \<open>The table\<close>

definition exception_handlers :: "handler list" where
  "exception_handlers =
     [Divide_by_zero, Debug_exception, Nmi, Breakpoint, Overflow, Bound_exception, Invalid_opcode, Fpu_missing,
      Double_fault, Coprocessor_segment_overrun, Invalid_tss, Segment_missing, Stack_exception, General_protection,
      Page_fault, Generic_error, Fp_error, Alignment_check, Machine_check]"

definition setup_exception_handlers :: "(handler \<Rightarrow> u32) \<Rightarrow> idt_desc list \<Rightarrow> idt_desc list" where
  "setup_exception_handlers addr idt =
     fold (\<lambda>i. set_entry i (addr Generic_error)) [19..<NUM_VEC]
       (fold (\<lambda>i. set_entry i (addr (exception_handlers ! i))) [0..<19] idt)"

definition setup_system_handler :: "(handler \<Rightarrow> u32) \<Rightarrow> idt_desc list \<Rightarrow> idt_desc list" where
  "setup_system_handler addr idt =
     (let idt1 = set_entry SYSTEM_TRAP (addr System_call) idt
      in idt1[SYSTEM_TRAP := (idt1 ! SYSTEM_TRAP)\<lparr>gate_dpl := 3, reserved3 := True, seg_selector := KERNEL_CS\<rparr>])"

definition setup_interrupt_handlers :: "(handler \<Rightarrow> u32) \<Rightarrow> idt_desc list \<Rightarrow> idt_desc list" where
  "setup_interrupt_handlers addr idt =
     set_entry 0x20 (addr Scheduler_handler) (set_entry 0x21 (addr Key_handler) (set_entry 0x28 (addr Rtc_handler) idt))"

definition idt_setup :: "(handler \<Rightarrow> u32) \<Rightarrow> idt_desc list" where
  "idt_setup addr = setup_interrupt_handlers addr (setup_system_handler addr (setup_exception_handlers addr idt_start))"

section \<open>Gates\<close>

lemma ones_mask: "(65535 :: 'a::len word) = mask 16" "(255 :: 'a::len word) = mask 8" "(15 :: 'a::len word) = mask 4"
  "(0xFFFFF :: 'a::len word) = mask 20" "(65535 :: int) = mask 16" "(255 :: int) = mask 8" "(15 :: int) = mask 4" "(0xFFFFF :: int) = mask 20"
  by (simp_all add: mask_eq_exp_minus_1)

lemma bit_ones:
  "bit (65535 :: 'a::len word) n = (n < LENGTH('a) \<and> n < 16)" "bit (255 :: 'a::len word) n = (n < LENGTH('a) \<and> n < 8)"
  "bit (15 :: 'a::len word) n = (n < LENGTH('a) \<and> n < 4)" "bit (0xFFFFF :: 'a::len word) n = (n < LENGTH('a) \<and> n < 20)"
  "bit (65535 :: int) n = (n < 16)" "bit (255 :: int) n = (n < 8)" "bit (15 :: int) n = (n < 4)" "bit (0xFFFFF :: int) n = (n < 20)"
  by (simp_all only: ones_mask bit_mask_iff) auto

lemma gate_offset_set: "gate_offset (SET_IDT_ENTRY handler d) = handler"
  by (rule bit_word_eqI) (auto simp: gate_offset_def SET_IDT_ENTRY_def bit_simps bit_ones)

lemma seg_params_read: "seg_base (SET_SEG_PARAMS addr lim d) = addr"
proof (rule bit_word_eqI)
  fix n assume "n < LENGTH(32)"
  then show "bit (seg_base (SET_SEG_PARAMS addr lim d)) n = bit addr n"
    by (cases "n < 24") (auto simp: seg_base_def SET_SEG_PARAMS_def bit_simps bit_ones)
qed

lemma seg_params_limit: "seg_limit (SET_SEG_PARAMS addr lim d) = lim AND 0xFFFFF"
  by (rule bit_word_eqI) (auto simp: seg_limit_def SET_SEG_PARAMS_def bit_simps bit_ones)

section \<open>The table after start-up\<close>

text \<open>Which handler each vector leads to.\<close>

definition vector_handler :: "nat \<Rightarrow> handler" where
  "vector_handler i =
     (if i < 19 then exception_handlers ! i else if i = 0x20 then Scheduler_handler else if i = 0x21 then Key_handler
      else if i = 0x28 then Rtc_handler else if i = 0x80 then System_call else Generic_error)"

lemma length_set_entry [simp]: "length (set_entry i h idt) = length idt"
  by (simp add: set_entry_def)

lemma nth_set_entry: "i < length idt \<Longrightarrow> set_entry i h idt ! j = (if i = j then SET_IDT_ENTRY h (idt ! i) else idt ! j)"
  by (simp add: set_entry_def nth_list_update)

lemma length_fold_set [simp]: "length (fold (\<lambda>i. set_entry i (f i)) is idt) = length idt"
  by (induction "is" arbitrary: idt) simp_all

lemma nth_fold_set:
  "set is \<subseteq> {..<length idt} \<Longrightarrow> distinct is \<Longrightarrow>
   fold (\<lambda>i. set_entry i (f i)) is idt ! j = (if j \<in> set is then SET_IDT_ENTRY (f j) (idt ! j) else idt ! j)"
  by (induction "is" arbitrary: idt) (auto simp: nth_set_entry)

lemma SET_IDT_ENTRY_again: "SET_IDT_ENTRY h (SET_IDT_ENTRY h' d) = SET_IDT_ENTRY h d"
  by (simp add: SET_IDT_ENTRY_def)

definition start_gate :: idt_desc where
  "start_gate = idt_fields 0x00100000 0x00008E00"

lemma start_gate_fields: "seg_selector start_gate = KERNEL_CS" "gate_dpl start_gate = 0" "gate_present start_gate"
  "interrupt_gate start_gate"
  by (simp_all add: start_gate_def idt_fields_def interrupt_gate_def KERNEL_CS_def bit_simps)

lemma upt_bounds: "set [a..<b] = {a..<b}" "distinct [a..<b]"
  by simp_all

lemma exceptions_table:
  assumes "i < 256"
  shows "setup_exception_handlers addr idt_start ! i = SET_IDT_ENTRY (addr (if i < 19 then exception_handlers ! i else Generic_error)) start_gate"
proof -
  define t1 where "t1 = fold (\<lambda>i. set_entry i (addr (exception_handlers ! i))) [0..<19] idt_start"
  have s: "idt_start ! i = start_gate" "length idt_start = 256" using assms by (simp_all add: idt_start_def start_gate_def NUM_VEC_def)
  have l: "length t1 = 256" unfolding t1_def length_fold_set s(2) ..
  have t: "t1 ! i = (if i \<in> {0..<19} then SET_IDT_ENTRY (addr (exception_handlers ! i)) (idt_start ! i) else idt_start ! i)"
    unfolding t1_def upt_bounds(1) [symmetric] by (rule nth_fold_set) (use s(2) upt_bounds in auto)
  have "setup_exception_handlers addr idt_start ! i = (if i \<in> {19..<256} then SET_IDT_ENTRY (addr Generic_error) (t1 ! i) else t1 ! i)"
    unfolding setup_exception_handlers_def t1_def [symmetric] NUM_VEC_def upt_bounds(1) [symmetric]
    by (rule nth_fold_set) (use l upt_bounds in auto)
  then show ?thesis using assms t s(1) by (cases "i < 19") simp_all
qed

lemma length_exceptions: "length (setup_exception_handlers addr idt_start) = 256"
  by (simp add: setup_exception_handlers_def idt_start_def NUM_VEC_def)

lemma system_handler_nth:
  assumes "length idt = 256"
  shows "setup_system_handler addr idt ! i = (if i = SYSTEM_TRAP
      then (SET_IDT_ENTRY (addr System_call) (idt ! SYSTEM_TRAP))\<lparr>gate_dpl := 3, reserved3 := True, seg_selector := KERNEL_CS\<rparr>
      else idt ! i)" and "length (setup_system_handler addr idt) = 256"
  using assms by (simp_all add: setup_system_handler_def Let_def nth_set_entry SYSTEM_TRAP_def)

lemma interrupt_handlers_nth:
  assumes "length idt = 256"
  shows "setup_interrupt_handlers addr idt ! i =
    (if i = 0x20 then SET_IDT_ENTRY (addr Scheduler_handler) (idt ! 0x20) else if i = 0x21 then SET_IDT_ENTRY (addr Key_handler) (idt ! 0x21)
     else if i = 0x28 then SET_IDT_ENTRY (addr Rtc_handler) (idt ! 0x28) else idt ! i)"
  using assms by (simp add: setup_interrupt_handlers_def nth_set_entry)

lemma idt_setup_nth:
  assumes "i < 256"
  shows "idt_setup addr ! i = (let d = SET_IDT_ENTRY (addr (vector_handler i)) start_gate
     in if i = SYSTEM_TRAP then d\<lparr>gate_dpl := 3, reserved3 := True, seg_selector := KERNEL_CS\<rparr> else d)"
proof -
  note t = exceptions_table [of _ addr] and s = system_handler_nth [OF length_exceptions, of addr addr]
  note n = interrupt_handlers_nth [OF s(2), of addr] and a = SET_IDT_ENTRY_again
  consider "i = 0x20" | "i = 0x21" | "i = 0x28" | "i = SYSTEM_TRAP" | "i \<notin> {0x20, 0x21, 0x28, SYSTEM_TRAP}" by blast
  then show ?thesis
  proof cases
    case 5
    then have "idt_setup addr ! i = SET_IDT_ENTRY (addr (if i < 19 then exception_handlers ! i else Generic_error)) start_gate"
      unfolding idt_setup_def n s(1) using t [OF assms] by simp
    moreover have "vector_handler i = (if i < 19 then exception_handlers ! i else Generic_error)"
      using 5 by (simp add: vector_handler_def SYSTEM_TRAP_def)
    ultimately show ?thesis using 5 by (simp add: Let_def)
  qed (simp_all add: idt_setup_def n s(1) t a vector_handler_def SYSTEM_TRAP_def Let_def)
qed

lemma gates:
  assumes "i < 256"
  shows "gate_offset (idt_setup addr ! i) = addr (vector_handler i)" "seg_selector (idt_setup addr ! i) = KERNEL_CS"
    "gate_dpl (idt_setup addr ! i) = (if i = SYSTEM_TRAP then 3 else 0)"
    "trap_gate (idt_setup addr ! i) = (i = SYSTEM_TRAP)" "interrupt_gate (idt_setup addr ! i) = (i \<noteq> SYSTEM_TRAP)"
proof -
  have o: "gate_offset (d\<lparr>gate_dpl := 3, reserved3 := True, seg_selector := KERNEL_CS\<rparr>) = gate_offset d" for d
    by (simp add: gate_offset_def)
  have e: "seg_selector (SET_IDT_ENTRY h d) = seg_selector d" "gate_dpl (SET_IDT_ENTRY h d) = gate_dpl d"
    "interrupt_gate (SET_IDT_ENTRY h d) = interrupt_gate d" "trap_gate (SET_IDT_ENTRY h d) = trap_gate d" for h d
    by (simp_all add: SET_IDT_ENTRY_def interrupt_gate_def trap_gate_def)
  have t: "trap_gate start_gate = False" "trap_gate (d\<lparr>gate_dpl := 3, reserved3 := True, seg_selector := KERNEL_CS\<rparr>) = (interrupt_gate d \<or> trap_gate d)"
    "interrupt_gate (d\<lparr>gate_dpl := 3, reserved3 := True, seg_selector := KERNEL_CS\<rparr>) = False" for d
    using start_gate_fields(4) by (auto simp: interrupt_gate_def trap_gate_def)
  show "gate_offset (idt_setup addr ! i) = addr (vector_handler i)" "seg_selector (idt_setup addr ! i) = KERNEL_CS"
    "gate_dpl (idt_setup addr ! i) = (if i = SYSTEM_TRAP then 3 else 0)"
    "trap_gate (idt_setup addr ! i) = (i = SYSTEM_TRAP)" "interrupt_gate (idt_setup addr ! i) = (i \<noteq> SYSTEM_TRAP)"
    by (simp_all add: idt_setup_nth [OF assms] Let_def gate_offset_set o e t start_gate_fields)
qed

section \<open>What an exception shows\<close>

lemma blue_effect:
  assumes ok: "tty_ok s"
  defines "a \<equiv> active_terminal_index s"
  shows "tty_ok (blue_screen s)" and "others_same a s (blue_screen s)"
    and "view (blue_screen s) a = (0, 0, replicate 2000 (32, BLUE_SCREEN_BACKGROUND_ATTRIB))"
    and "active_terminal_index (blue_screen s) = a"
proof -
  let ?s = "blue_screen s"
  let ?t = "(term_of s a)\<lparr>pos_x := 0, pos_y := 0\<rparr>"
  let ?m = "fold (\<lambda>k. put_cell (video_of s a) k (ch CHR '' '') BLUE_SCREEN_BACKGROUND_ATTRIB) [0..<NUM_ROWS * NUM_COLS] (vram s)"
  note A = active_term [OF ok, folded a_def] active_less [OF ok, folded a_def]
  have eq: "terminals ?s = (terminals s)[a := ?t]" "vram ?s = ?m" "active_terminal_index ?s = a"
    using A by (simp_all add: blue_screen_def Let_def set_term_def a_def)
  have size: "NUM_ROWS * NUM_COLS = 2000" by (simp add: NUM_ROWS_def NUM_COLS_def)
  show "active_terminal_index (blue_screen s) = a" by (rule eq(3))
  show "tty_ok ?s"
    by (rule tty_ok_upd [OF ok _ A(7) eq(1) eq(3) [unfolded a_def]])
      (use active_ok [OF ok] in \<open>simp add: term_ok_def NUM_COLS_def NUM_ROWS_def a_def\<close>)
  show "others_same a s ?s"
    by (rule others_sameI [OF ok A(7) eq(3) [unfolded a_def]]) (simp_all add: eq fold_put_cell_off size)
  have "screen ?m (video_of s a) = replicate 2000 (32, BLUE_SCREEN_BACKGROUND_ATTRIB)"
    by (rule nth_equalityI) (simp_all add: fold_put_cell size)
  then show "view ?s a = (0, 0, replicate 2000 (32, BLUE_SCREEN_BACKGROUND_ATTRIB))"
    using A by (simp add: view_def eq)
qed

text \<open>The message without its directive, and the text that appears.\<close>

definition message_format :: "handler \<Rightarrow> directive list" where
  "message_format h =
     (if h = Page_fault then map (\<lambda>c. Plain (of_char c)) (panic_text (''Page Fault'' @ CHR 0x0A # ''Exception Code: '')) @ [Hex]
      else map (\<lambda>c. Plain (of_char c)) (panic_text (message h)))"

definition message_shown :: "handler \<Rightarrow> u32 \<Rightarrow> u8 list" where
  "message_shown h ret =
     (if h = Page_fault then chars (panic_text (''Page Fault'' @ CHR 0x0A # ''Exception Code: '')) @ numeral_text 16 (unat ret)
      else chars (panic_text (message h)))"

lemma plain_text: "format_text (map (\<lambda>c. Plain (of_char c)) cs @ ds) = chars cs @ format_text ds"
  by (induction cs) (simp_all add: format_text_def)

lemma plain_printed: "printed str (map (\<lambda>c. Plain (of_char c)) cs @ ds) vs = chars cs @ printed str ds vs"
  by (induction cs) simp_all

lemma message_text: "format_text (message_format h) = chars (panic_text (message h))"
  using plain_text [of "panic_text (message h)" "[]"] plain_text [of _ "[Hex]"]
  by (simp add: message_format_def format_text_def panic_text_def)

lemma message_printed: "printed str (message_format h) (if h = Page_fault then [ret] else []) = message_shown h ret"
  using plain_printed [of str "panic_text (message h)" "[]"] plain_printed [of str _ "[Hex]"]
  by (simp add: message_format_def message_shown_def)

lemma plain_chars: "(\<forall>c \<in> set cs. of_char c \<noteq> (0 :: u8) \<and> of_char c \<noteq> ch CHR ''%'') \<Longrightarrow>
    \<forall>d \<in> set (map (\<lambda>c. Plain (of_char c)) cs). plain_ok d"
  by (auto simp: plain_ok_def)

lemma message_plain: "\<forall>d \<in> set (message_format h). plain_ok d"
proof -
  have "\<forall>c \<in> set (panic_text (''Page Fault'' @ CHR 0x0A # ''Exception Code: '')). of_char c \<noteq> (0 :: u8) \<and> of_char c \<noteq> ch CHR ''%''"
    by (simp add: panic_text_def)
  moreover have "h \<noteq> Page_fault \<Longrightarrow> \<forall>c \<in> set (panic_text (message h)). of_char c \<noteq> (0 :: u8) \<and> of_char c \<noteq> ch CHR ''%''"
    by (cases h) (simp_all add: panic_text_def)
  moreover have "plain_ok Hex" by (simp add: plain_ok_def)
  ultimately show ?thesis using plain_chars unfolding message_format_def by (cases "h = Page_fault") auto
qed

lemma message_takes:
  "length (filter takes (message_format h)) \<le> length (if h = Page_fault then [ret] else [])"
  "texts (message_format h) (if h = Page_fault then [ret] else []) = {}"
proof -
  have "filter takes (map (\<lambda>c. Plain (of_char c)) cs @ ds) = filter takes ds" for cs ds by (induction cs) simp_all
  from this [of _ "[Hex]"] this [of _ "[]"]
  show "length (filter takes (message_format h)) \<le> length (if h = Page_fault then [ret] else [])"
    by (simp add: message_format_def)
  have t: "texts (map (\<lambda>c. Plain (of_char c)) cs @ ds) (v # vs) = texts ds (v # vs)" for cs ds v vs by (induction cs) simp_all
  have "texts ds [] = {}" for ds by (cases ds) simp_all
  then show "texts (message_format h) (if h = Page_fault then [ret] else []) = {}"
    using t [of _ "[Hex]"] by (simp add: message_format_def)
qed

lemma message_short: "length (panic_text (message h)) < 100"
  by (cases h) (simp_all add: panic_text_def)

lemma exception_shows:
  assumes h: "an_exception h" and ok: "tty_ok (ptty s)" and lit: "is_cstr (pmem s) (lit (panic_text (message h))) (chars (panic_text (message h)))"
    and a: "apart c (lit (panic_text (message h))) (length (panic_text (message h)))"
  shows "\<exists>s'. handle_exception h ret lit c s = Some s' \<and> phalted s' \<and> \<not> pint_flag s' \<and>
    view (ptty s') (active_terminal_index (ptty s)) =
      fold (\<lambda>c. abs_putc c ATTRIB) (message_shown h ret) (0, 0, replicate 2000 (32, BLUE_SCREEN_BACKGROUND_ATTRIB)) \<and>
    others_same (active_terminal_index (ptty s)) (ptty s) (ptty s')"
proof -
  let ?a = "active_terminal_index (ptty s)" and ?t = "blue_screen (ptty s)" and ?vs = "if h = Page_fault then [ret] else []"
  note b = blue_effect [OF ok]
  have l: "is_cstr (pmem s) (lit (panic_text (message h))) (format_text (message_format h))"
    "length (format_text (message_format h)) < 2 ^ 31" "apart c (lit (panic_text (message h))) (length (format_text (message_format h)))"
    using lit a message_short [of h] by (simp_all add: message_text)
  have so: "strings_ok c (\<lambda>_. []) (texts (message_format h) ?vs) (pmem s)" unfolding message_takes(2) by (simp add: strings_ok_def)
  obtain m' where p: "printf c (lit (panic_text (message h))) ?vs (pmem s, ?t) =
      Some (int (length (format_text (message_format h))), m', fold putc (message_shown h ret) ?t)"
    using printf_shows [OF l message_plain message_takes(1) so] unfolding message_printed by blast
  note w = write_fold [OF b(1) active_less [OF ok], of "message_shown h ret"]
  have "fold putc (message_shown h ret) ?t = fold (\<lambda>c. terminal_putc c ATTRIB ?a) (message_shown h ret) ?t"
    using fold_putc [OF b(1)] by (simp add: b(4))
  then show ?thesis
    using p w b(3) others_same_trans [OF b(2)] by (simp add: handle_exception_panics [OF h] panic_def stop_def)
qed

text \<open>
  The exceptions of the processor by vector, written out from the architecture and not from the
  table above: the handler that is due and what it has to say.  Vectors 15 and 19 to 31 are reserved.
\<close>

definition x86_exceptions :: "(handler \<times> string) list" where
  "x86_exceptions =
     [(Divide_by_zero, ''Division by 0''),
      (Debug_exception, ''Debug Exception''),
      (Nmi, ''Non-Maskable Interrupt''),
      (Breakpoint, ''Breakpoint (INT3)''),
      (Overflow, ''Overflow with EFLAGS[OF] Set''),
      (Bound_exception, ''Bound Exception''),
      (Invalid_opcode, ''Invalid Opcode''),
      (Fpu_missing, ''Floating Point Unit Missing''),
      (Double_fault, ''Double Fault''),
      (Coprocessor_segment_overrun, ''Coprocessor Segment Overrun''),
      (Invalid_tss, ''Invalid TSS''),
      (Segment_missing, ''Segment Not Present''),
      (Stack_exception, ''Stack Exception''),
      (General_protection, ''General Protection Exception''),
      (Page_fault, ''Page Fault'' @ CHR 0x0A # ''Exception Code: ''),
      (Generic_error, ''Undefined Exception''),
      (Fp_error, ''Floating Point Error''),
      (Alignment_check, ''Alignment Check''),
      (Machine_check, ''Machine Check Exception'')]
     @ replicate 13 (Generic_error, ''Undefined Exception'')"

text \<open>
  The text on the screen after exception \<open>i\<close>, with the word \<open>ret\<close> on top of the stack in
  hexadecimal after a page fault, and the literal the handler prints from.
\<close>

definition due_handler :: "nat \<Rightarrow> handler" where
  "due_handler i = fst (x86_exceptions ! i)"

definition due_text :: "nat \<Rightarrow> u32 \<Rightarrow> u8 list" where
  "due_text i ret = chars (''Kernel Panic:'' @ CHR 0x0A # snd (x86_exceptions ! i))
     @ (if i = 14 then numeral_text 16 (unat ret) else [])"

definition due_literal :: "nat \<Rightarrow> string" where
  "due_literal i = ''Kernel Panic:'' @ CHR 0x0A # snd (x86_exceptions ! i) @ (if i = 14 then ''%x'' else [])"

definition the_vectors :: "nat list" where
  "the_vectors = [0, 1, 2, 3, 4, 5, 6, 7, 8, 9, 10, 11, 12, 13, 14, 15, 16, 17, 18,
     19, 20, 21, 22, 23, 24, 25, 26, 27, 28, 29, 30, 31]"

lemma the_vectors_iff: "i < 32 \<longleftrightarrow> i \<in> set the_vectors"
  unfolding the_vectors_def by simp presburger

lemma registered_due: "\<forall>i \<in> set the_vectors. vector_handler i = due_handler i \<and> an_exception (due_handler i)"
  by (simp add: the_vectors_def vector_handler_def exception_handlers_def due_handler_def x86_exceptions_def
      an_exception_def SYSTEM_TRAP_def)

lemma message_due: "\<forall>i \<in> set the_vectors. i \<noteq> 5 \<longrightarrow> panic_text (message (due_handler i)) = due_literal i"
  by (simp add: the_vectors_def due_handler_def due_literal_def x86_exceptions_def panic_text_def)

lemma shown_due: "\<forall>i \<in> set the_vectors. i \<noteq> 5 \<longrightarrow> message_shown (due_handler i) ret = due_text i ret"
  by (simp add: the_vectors_def due_handler_def due_text_def x86_exceptions_def message_shown_def panic_text_def)

text \<open>The bound exception has its handler, but the handler announces a debug exception.\<close>

lemma bound_exception_text: "due_handler 5 = Bound_exception" "message Bound_exception = message Debug_exception"
  "message Bound_exception \<noteq> snd (x86_exceptions ! 5)"
  by (simp_all add: due_handler_def x86_exceptions_def)



end
