(* ===== verification/Vfs.thy ===== *)
theory Vfs
  imports Rtc_Dev
begin

text \<open>
  The read-only file system, \<^verbatim>\<open>mp3/student-distrib/vfs.c\<close> with the types of
  \<^verbatim>\<open>vfs.h\<close> and \<^verbatim>\<open>pcb.h\<close>: the boot block, the inodes and the data blocks of the image at
  \<open>fs_ptr\<close>, directory lookup, \<open>read_data\<close>, and the file operations on the file array of the
  current process.  The image is a reader \<open>fs\<close> of the bytes from \<open>fs_ptr\<close> on; a file name is
  a reader too, \<open>None\<close> standing for a null pointer.  A routine that fills a buffer returns the
  bytes it stores from the buffer's start on.
\<close>

type_synonym image = "u32 \<Rightarrow> u8"

section \<open>The image\<close>

definition le32 :: "image \<Rightarrow> u32 \<Rightarrow> u32" where
  "le32 fs a = ucast (fs a) OR push_bit 8 (ucast (fs (a + 1)))
     OR push_bit 16 (ucast (fs (a + 2))) OR push_bit 24 (ucast (fs (a + 3)))"

record dentry =
  dname :: "u8 list"
  filetype :: u32
  dinode :: u32

definition FILENAME_LEN :: u32 where "FILENAME_LEN = 32"
definition NUM_FILES :: u32 where "NUM_FILES = 63"
definition NUM_B_IN_FOUR_KB :: u32 where "NUM_B_IN_FOUR_KB = 4096"

definition boot_inode_count :: "image \<Rightarrow> u32" where
  "boot_inode_count fs = le32 fs 4"

definition boot_data_count :: "image \<Rightarrow> u32" where
  "boot_data_count fs = le32 fs 8"

definition direntry_at :: "u32 \<Rightarrow> u32" where
  "direntry_at index = 64 + 64 * index"

definition direntry :: "image \<Rightarrow> u32 \<Rightarrow> dentry" where
  "direntry fs index =
     \<lparr>dname = rd fs (direntry_at index) 32,
      filetype = le32 fs (direntry_at index + 32),
      dinode = le32 fs (direntry_at index + 36)\<rparr>"

definition inode_at :: "u32 \<Rightarrow> u32" where
  "inode_at inode = NUM_B_IN_FOUR_KB * (inode + 1)"

definition inode_length :: "image \<Rightarrow> u32 \<Rightarrow> u32" where
  "inode_length fs inode = le32 fs (inode_at inode)"

definition inode_block_num :: "image \<Rightarrow> u32 \<Rightarrow> u32 \<Rightarrow> u32" where
  "inode_block_num fs inode i = le32 fs (inode_at inode + 4 + 4 * i)"

definition data_block_at :: "image \<Rightarrow> u32 \<Rightarrow> u32" where
  "data_block_at fs num = NUM_B_IN_FOUR_KB * (boot_inode_count fs + num + 1)"

section \<open>Directory lookup\<close>

text \<open>\<open>read_dentry_by_index\<close>: the return value and the entry stored, if any.\<close>

definition read_dentry_by_index :: "image \<Rightarrow> u32 \<Rightarrow> int \<times> dentry option" where
  "read_dentry_by_index fs index =
     (if index \<ge> NUM_FILES then (-1, None) else (0, Some (direntry fs index)))"

function dentry_search :: "image \<Rightarrow> (u32 \<Rightarrow> u8) \<Rightarrow> u32 \<Rightarrow> int \<times> dentry option" where
  "dentry_search fs fname index =
     (if index < NUM_FILES
      then (if strncmp fname (\<lambda>i. fs (direntry_at index + i)) FILENAME_LEN = 0
            then (0, snd (read_dentry_by_index fs index))
            else dentry_search fs fname (index + 1))
      else (-1, None))"
  by pat_completeness auto
termination
  by (relation "measure (\<lambda>(fs, fname, index). unat NUM_FILES - unat index)")
    (auto intro: word_loop_measure)

declare dentry_search.simps [simp del]

definition read_dentry_by_name :: "image \<Rightarrow> (u32 \<Rightarrow> u8) option \<Rightarrow> int \<times> dentry option" where
  "read_dentry_by_name fs fname =
     (case fname of None \<Rightarrow> (-1, None)
      | Some s \<Rightarrow> if s 0 = 0 then (-1, None) else dentry_search fs s 0)"

section \<open>Reading file data\<close>

text \<open>The inner copy loop: the bytes copied, \<open>count\<close> and \<open>offset\<close> after it.\<close>

function copy_block ::
    "image \<Rightarrow> u32 \<Rightarrow> u32 \<Rightarrow> u32 \<Rightarrow> u32 \<Rightarrow> u32 \<Rightarrow> u32 \<Rightarrow> u8 list \<times> u32 \<times> u32" where
  "copy_block fs block flen n count idx offset =
     (if count < n \<and> idx < NUM_B_IN_FOUR_KB \<and> offset < flen
      then (let (bs, c, off) = copy_block fs block flen n (count + 1) (idx + 1) (offset + 1)
            in (fs (block + idx) # bs, c, off))
      else ([], count, offset))"
  by pat_completeness auto
termination
  by (relation "measure (\<lambda>(fs, block, flen, n, count, idx, offset). unat n - unat count)")
    (auto intro: word_loop_measure)

declare copy_block.simps [simp del]

lemma copy_block_progress:
  "unat n - unat (fst (snd (copy_block fs block flen n count idx offset))) \<le> unat n - unat count"
proof (induction fs block flen n count idx offset rule: copy_block.induct)
  case (1 fs block flen n count idx offset)
  then show ?case using unat_inc [of count n]
    by (subst copy_block.simps) (auto simp: Let_def case_prod_beta)
qed

lemma copy_block_advances:
  assumes "count < n" and "idx < NUM_B_IN_FOUR_KB" and "offset < flen"
  shows "unat n - unat (fst (snd (copy_block fs block flen n count idx offset))) < unat n - unat count"
proof -
  have "fst (snd (copy_block fs block flen n count idx offset)) =
    fst (snd (copy_block fs block flen n (count + 1) (idx + 1) (offset + 1)))"
    using assms by (subst copy_block.simps) (simp add: Let_def case_prod_beta)
  then show ?thesis
    using copy_block_progress [of n fs block flen "count + 1" "idx + 1" "offset + 1"]
      word_loop_measure [OF assms(1)] by simp
qed

text \<open>One round of the outer loop, on the data block that entry \<open>i\<close> of the inode names.\<close>

definition block_round ::
    "image \<Rightarrow> u32 \<Rightarrow> u32 \<Rightarrow> u32 \<Rightarrow> u32 \<Rightarrow> u32 \<Rightarrow> u32 \<Rightarrow> u8 list \<times> u32 \<times> u32" where
  "block_round fs inode n count i idx offset =
     copy_block fs (data_block_at fs (inode_block_num fs inode i)) (inode_length fs inode)
       n count idx offset"

text \<open>
  The outer loop: \<open>i\<close> is \<open>index_in_inode\<close>, \<open>idx\<close> is \<open>index_in_data_block\<close>.  The block number
  is compared as a signed number.  The result is the return value and the bytes stored.
\<close>

function read_loop ::
    "image \<Rightarrow> u32 \<Rightarrow> u32 \<Rightarrow> u32 \<Rightarrow> u32 \<Rightarrow> u32 \<Rightarrow> u32 \<Rightarrow> int \<times> u8 list" where
  "read_loop fs inode n count i idx offset =
     (if sint (inode_block_num fs inode i) \<ge> sint (boot_data_count fs) then (-1, [])
      else (case block_round fs inode n count i idx offset of (copied, c, off) \<Rightarrow>
              if c \<ge> n \<or> off \<ge> inode_length fs inode then (sint c, copied)
              else map_prod id ((@) copied) (read_loop fs inode n c (i + 1) 0 off)))"
  by pat_completeness auto
termination
proof (relation "measure (\<lambda>(fs, inode, n, count, i, idx, offset).
    2 * (unat n - unat count) + (if idx < NUM_B_IN_FOUR_KB then 0 else 1))", simp, goal_cases)
  case (1 fs inode n count i idx offset copied c_off c off)
  let ?r = "copy_block fs (data_block_at fs (inode_block_num fs inode i)) (inode_length fs inode)
       n count idx offset"
  have r: "?r = (copied, c, off)" using 1 by (simp add: block_round_def)
  show ?case
  proof (cases "idx < NUM_B_IN_FOUR_KB")
    case True
    have "count < n \<and> offset < inode_length fs inode"
    proof (rule ccontr)
      assume "\<not> (count < n \<and> offset < inode_length fs inode)"
      then have "c = count \<and> off = offset" using r by (subst (asm) copy_block.simps) auto
      with 1 \<open>\<not> (count < n \<and> offset < inode_length fs inode)\<close> show False by auto
    qed
    then show ?thesis
      using True r copy_block_advances [of count n idx offset "inode_length fs inode" fs
          "data_block_at fs (inode_block_num fs inode i)"]
      by (simp add: NUM_B_IN_FOUR_KB_def)
  next
    case False
    then show ?thesis
      using r copy_block_progress [of n fs "data_block_at fs (inode_block_num fs inode i)"
          "inode_length fs inode" count idx offset]
      by (simp add: NUM_B_IN_FOUR_KB_def)
  qed
qed

declare read_loop.simps [simp del]

definition read_data :: "image \<Rightarrow> u32 \<Rightarrow> u32 \<Rightarrow> u32 \<Rightarrow> int \<times> u8 list" where
  "read_data fs inode offset n =
     (if inode \<ge> boot_inode_count fs then (-1, [])
      else if offset \<ge> inode_length fs inode then (0, [])
      else read_loop fs inode n 0 (offset div NUM_B_IN_FOUR_KB) (offset mod NUM_B_IN_FOUR_KB) offset)"

section \<open>File operations\<close>

text \<open>
  The operations work on the file array of the current process.  An outer \<open>None\<close> is a file name
  that never ends.
\<close>

text \<open>The search for a free descriptor from \<open>index\<close> on; 8 when there is none.\<close>

function find_slot :: "file_t list \<Rightarrow> nat \<Rightarrow> nat" where
  "find_slot fa index =
     (if index < NUM_MAX_OPEN_FILES
      then (if flags (fa ! index) = FILE_AVAIL then index else find_slot fa (index + 1))
      else index)"
  by pat_completeness auto
termination
  by (relation "measure (\<lambda>(fa, index). NUM_MAX_OPEN_FILES - index)") auto

declare find_slot.simps [simp del]

text \<open>The part of \<open>file_open\<close> after the name checks, for the entry found.\<close>

definition file_install :: "dentry \<Rightarrow> file_t list \<Rightarrow> int \<times> file_t list" where
  "file_install d fa =
     (let index = find_slot fa 2
      in if index \<ge> NUM_MAX_OPEN_FILES then (-1, fa)
         else if filetype d = 2 then
           (int index, fa[index := (fa ! index)\<lparr>file_ops_table_ptr := File_ops, inode_num := dinode d,
                                                file_position := 0, flags := FILE_OCCUP\<rparr>])
         else if filetype d = 1 then
           (int index, fa[index := (fa ! index)\<lparr>file_ops_table_ptr := Directory_ops, inode_num := dinode d,
                                                file_position := 0, flags := FILE_OCCUP\<rparr>])
         else if filetype d = 0 then
           (int index,
            snd (rtc_open (fa[index := (fa ! index)\<lparr>file_ops_table_ptr := Rtc_ops,
                                                    inode_num := dinode d\<rparr>]) index))
         else (-1, fa))"

definition file_open ::
    "image \<Rightarrow> (u32 \<Rightarrow> u8) option \<Rightarrow> file_t list \<Rightarrow> (int \<times> file_t list) option" where
  "file_open fs filename fa =
     (case filename of None \<Rightarrow> Some (-1, fa)
      | Some s \<Rightarrow>
          map_option (\<lambda>count.
            if count \<ge> 33 then (-1, fa)
            else (case read_dentry_by_name fs filename of
                    (_, None) \<Rightarrow> (-1, fa)
                  | (_, Some d) \<Rightarrow> file_install d fa))
            (c_strlen s 0))"

definition file_close :: "file_t list \<Rightarrow> int \<Rightarrow> int \<times> file_t list" where
  "file_close fa fd =
     (if fd \<ge> int NUM_MAX_OPEN_FILES \<or> fd < 0 then (-1, fa)
      else if flags (fa ! nat fd) = FILE_AVAIL then (-1, fa)
      else (0, fa[nat fd := blank]))"

text \<open>\<open>file_read\<close>: the return value, the bytes stored in the buffer, the file array.\<close>

definition file_read :: "image \<Rightarrow> file_t list \<Rightarrow> nat \<Rightarrow> u32 \<Rightarrow> int \<times> u8 list \<times> file_t list" where
  "file_read fs fa fd nbytes =
     (if fd = 1 \<or> fd = 0 then (-1, [], fa)
      else (let (r, bs) = read_data fs (inode_num (fa ! fd)) (file_position (fa ! fd)) nbytes
            in (r, bs, fa[fd := (fa ! fd)\<lparr>file_position := file_position (fa ! fd) + of_int r\<rparr>])))"

definition file_write :: "file_t list \<Rightarrow> nat \<Rightarrow> int \<times> file_t list" where
  "file_write fa fd = (-1, fa)"

definition directory_open ::
    "image \<Rightarrow> (u32 \<Rightarrow> u8) option \<Rightarrow> file_t list \<Rightarrow> (int \<times> file_t list) option" where
  "directory_open fs filename fa =
     (case read_dentry_by_name fs filename of
        (_, None) \<Rightarrow> Some (-1, fa)
      | (_, Some d) \<Rightarrow> if filetype d \<noteq> 1 then Some (-1, fa) else file_open fs filename fa)"

definition directory_close :: "file_t list \<Rightarrow> int \<Rightarrow> int \<times> file_t list" where
  "directory_close fa fd = file_close fa fd"

text \<open>\<open>directory_read\<close> stores the name and a NUL, however small the caller's buffer is.\<close>

definition directory_read :: "image \<Rightarrow> file_t list \<Rightarrow> nat \<Rightarrow> int \<times> u8 list \<times> file_t list" where
  "directory_read fs fa fd =
     (case read_dentry_by_index fs (file_position (fa ! fd)) of
        (_, None) \<Rightarrow> (-1, [], fa)
      | (_, Some d) \<Rightarrow>
          (let name = takeWhile (\<lambda>c. c \<noteq> 0) (dname d)
           in (int (length name), name @ [0],
               fa[fd := (fa ! fd)\<lparr>file_position := file_position (fa ! fd) + 1\<rparr>])))"

definition directory_write :: "file_t list \<Rightarrow> nat \<Rightarrow> int \<times> file_t list" where
  "directory_write fa fd = (-1, fa)"

text \<open>\<open>load_program\<close> into memory \<open>m\<close> at \<open>ptr\<close>; the magic number is read back from there.\<close>

definition load_program ::
    "image \<Rightarrow> (u32 \<Rightarrow> u8) \<Rightarrow> mem \<Rightarrow> u32 \<Rightarrow> (int \<times> mem) option" where
  "load_program fs filename m ptr =
     map_option (\<lambda>count.
       if count \<ge> 33 then (-1, m)
       else (case read_dentry_by_name fs (Some filename) of
               (_, None) \<Rightarrow> (-1, m)
             | (_, Some d) \<Rightarrow>
                 if filetype d \<noteq> 2 then (-1, m)
                 else (let size = inode_length fs (dinode d);
                           (r, bs) = read_data fs (dinode d) 0 size;
                           m' = wr m ptr bs
                       in if of_int r \<noteq> size then (-1, m')
                          else if rd m' ptr 4 \<noteq> [0x7F, 0x45, 0x4C, 0x46] then (-1, m')
                          else (0, m'))))
       (c_strlen filename 0)"

definition init_file_array :: "file_t list" where
  "init_file_array =
     [\<lparr>file_ops_table_ptr = Terminal_ops, inode_num = 0, file_position = 0, flags = FILE_OCCUP\<rparr>,
      \<lparr>file_ops_table_ptr = Terminal_ops, inode_num = 0, file_position = 0, flags = FILE_OCCUP\<rparr>]
     @ replicate (NUM_MAX_OPEN_FILES - 2) blank"

section \<open>What \<open>read_data\<close> reads\<close>

text \<open>Byte \<open>p\<close> of a file, and the check that the block holding it is a block of the image.\<close>

definition file_byte :: "image \<Rightarrow> u32 \<Rightarrow> nat \<Rightarrow> u8" where
  "file_byte fs inode p =
     fs (data_block_at fs (inode_block_num fs inode (of_nat (p div 4096))) + of_nat (p mod 4096))"

definition block_valid :: "image \<Rightarrow> u32 \<Rightarrow> nat \<Rightarrow> bool" where
  "block_valid fs inode p \<longleftrightarrow>
     sint (inode_block_num fs inode (of_nat (p div 4096))) < sint (boot_data_count fs)"

lemma copy_block_spec:
  assumes "count \<le> n" and "offset \<le> flen" and "unat idx \<le> 4096"
    and "k = min (unat n - unat count) (min (4096 - unat idx) (unat flen - unat offset))"
  shows "copy_block fs block flen n count idx offset =
    (map (\<lambda>j. fs (block + idx + of_nat j)) [0..<k], count + of_nat k, offset + of_nat k)"
  using assms
proof (induction fs block flen n count idx offset arbitrary: k rule: copy_block.induct)
  case (1 fs block flen n count idx offset)
  show ?case
  proof (cases "count < n \<and> idx < NUM_B_IN_FOUR_KB \<and> offset < flen")
    case True
    then have u: "unat (count + 1) = Suc (unat count)" "unat (idx + 1) = Suc (unat idx)"
      "unat (offset + 1) = Suc (unat offset)"
      using unat_inc by blast+
    have lt: "unat count < unat n" "unat idx < 4096" "unat offset < unat flen"
      using True by (simp_all add: word_less_nat_alt NUM_B_IN_FOUR_KB_def)
    then have "0 < k" using "1.prems"(4) by simp
    then obtain k' where k': "k = Suc k'" by (cases k) auto
    have "copy_block fs block flen n (count + 1) (idx + 1) (offset + 1) =
      (map (\<lambda>j. fs (block + (idx + 1) + of_nat j)) [0..<k'], count + 1 + of_nat k', offset + 1 + of_nat k')"
    proof (rule "1.IH" [OF True])
      show "count + 1 \<le> n" "offset + 1 \<le> flen" using True word_loop_le by blast+
      show "unat (idx + 1) \<le> 4096" using u(2) lt(2) by linarith
      show "k' = min (unat n - unat (count + 1))
          (min (4096 - unat (idx + 1)) (unat flen - unat (offset + 1)))"
        using "1.prems"(4) k' unfolding u by linarith
    qed
    then show ?thesis
      using True k' by (subst copy_block.simps)
        (simp add: map_upt_Suc add_ac del: upt_Suc)
  next
    case False
    then have "k = 0" using "1.prems"
      by (auto simp: word_less_nat_alt word_le_nat_alt NUM_B_IN_FOUR_KB_def not_less)
    then show ?thesis using False by (subst copy_block.simps) auto
  qed
qed

lemma block_round_spec:
  assumes "count \<le> n" and "offset \<le> inode_length fs inode"
    and "unat idx = unat offset mod 4096" and "unat i = unat offset div 4096"
    and "k = min (unat n - unat count) (min (4096 - unat idx) (unat (inode_length fs inode) - unat offset))"
  shows "block_round fs inode n count i idx offset =
    (map (file_byte fs inode) [unat offset..<unat offset + k], count + of_nat k, offset + of_nat k)"
proof -
  let ?block = "data_block_at fs (inode_block_num fs inode i)"
  have "fs (?block + idx + of_nat j) = file_byte fs inode (unat offset + j)" if "j < k" for j
  proof -
    have j: "unat offset mod 4096 + j < 4096" using that assms(3,5) by (simp add: less_diff_conv add.commute)
    have "unat offset + j = (unat offset div 4096) * 4096 + (unat offset mod 4096 + j)"
      by (simp add: div_mult_mod_eq flip: add.assoc)
    with j have "(unat offset + j) div 4096 = unat offset div 4096"
      "(unat offset + j) mod 4096 = unat offset mod 4096 + j"
      by (simp_all only: div_mult_self3 mod_mult_self3 div_less mod_less add_0_right)
    moreover have "i = of_nat (unat offset div 4096)" "idx = of_nat (unat offset mod 4096)"
      by (simp_all flip: assms(3,4))
    ultimately show ?thesis by (simp add: file_byte_def add.assoc)
  qed
  then have "map (\<lambda>j. fs (?block + idx + of_nat j)) [0..<k]
      = map (file_byte fs inode) [unat offset..<unat offset + k]"
    by (intro nth_equalityI) simp_all
  then show ?thesis
    using copy_block_spec [OF assms(1,2) _ assms(5), of fs ?block] assms(3)
    by (simp add: block_round_def)
qed

lemma next_block: "q * 4096 + r = off \<Longrightarrow> r < 4096 \<Longrightarrow> off + (4096 - r) = 4096 * (q + 1 :: nat)"
  by simp

lemma read_loop_spec:
  assumes "count \<le> n" and "offset < inode_length fs inode"
    and "unat idx = unat offset mod 4096" and "unat i = unat offset div 4096"
    and "k = min (unat n - unat count) (unat (inode_length fs inode) - unat offset)"
    and "block_valid fs inode (unat offset)"
    and "\<And>p. unat offset \<le> p \<Longrightarrow> p < unat offset + k \<Longrightarrow> block_valid fs inode p"
  shows "read_loop fs inode n count i idx offset =
    (sint (count + of_nat k), map (file_byte fs inode) [unat offset..<unat offset + k])"
  using assms
proof (induction fs inode n count i idx offset arbitrary: k rule: read_loop.induct)
  case (1 fs inode n count i idx offset)
  note pre = "1.prems"
  let ?flen = "inode_length fs inode"
  define j where "j = min (unat n - unat count) (min (4096 - unat idx) (unat ?flen - unat offset))"
  have le: "unat count \<le> unat n" "unat offset < unat ?flen"
    using pre(1,2) by (simp_all add: word_le_nat_alt word_less_nat_alt)
  have round: "block_round fs inode n count i idx offset =
      (map (file_byte fs inode) [unat offset..<unat offset + j], count + of_nat j, offset + of_nat j)"
    using pre(2) by (intro block_round_spec [OF pre(1) _ pre(3,4) j_def]) simp
  have valid: "\<not> sint (inode_block_num fs inode i) \<ge> sint (boot_data_count fs)"
    using pre(6) by (simp add: block_valid_def flip: pre(4))
  have jb: "unat count + j \<le> unat n" "unat offset + j \<le> unat ?flen"
    using le by (simp_all add: j_def)
  have uc: "unat (count + of_nat j) = unat count + j"
    using jb(1) unat_u32_less [of n] by (intro unat_plus_of_nat) linarith
  have uo: "unat (offset + of_nat j) = unat offset + j"
    using jb(2) unat_u32_less [of ?flen] by (intro unat_plus_of_nat) linarith
  show ?case
  proof (cases "count + of_nat j \<ge> n \<or> offset + of_nat j \<ge> ?flen")
    case True
    then have "k = j" using pre(5) jb uc uo unfolding word_le_nat_alt by auto
    then show ?thesis
      using True valid round by (subst read_loop.simps) simp
  next
    case False
    then have lt: "unat count + j < unat n" "unat offset + j < unat ?flen"
      using uc uo by (auto simp: word_le_nat_alt)
    then have j: "j = 4096 - unat idx" by (simp add: j_def split: if_splits)
    have lk: "j \<le> k" using pre(5) jb by linarith
    have dm: "unat offset + j = 4096 * (unat offset div 4096 + 1)"
      unfolding j pre(3) by (rule next_block) (simp_all add: div_mult_mod_eq)
    have "unat i + 1 < 4294967296"
      using pre(4) div_le_dividend [of "unat offset" 4096] dm lt(2) unat_u32_less [of ?flen] by linarith
    then have ui: "unat (i + 1) = unat i + 1"
      using unat_plus_of_nat [of i 1] by simp
    have IH: "read_loop fs inode n (count + of_nat j) (i + 1) 0 (offset + of_nat j) =
      (sint (count + of_nat j + of_nat (k - j)),
       map (file_byte fs inode) [unat (offset + of_nat j)..<unat (offset + of_nat j) + (k - j)])"
    proof (rule "1.IH" [OF valid round [symmetric] refl False])
      show "count + of_nat j \<le> n" "offset + of_nat j < ?flen"
        using False by auto
      show "unat 0 = unat (offset + of_nat j) mod 4096" unfolding uo dm by simp
      show "unat (i + 1) = unat (offset + of_nat j) div 4096" unfolding uo dm ui pre(4) by simp
      show "k - j = min (unat n - unat (count + of_nat j)) (unat ?flen - unat (offset + of_nat j))"
        unfolding uo uc pre(5) by linarith
      have "j < k" using pre(5) lt by linarith
      then show "block_valid fs inode (unat (offset + of_nat j))"
        unfolding uo by (intro pre(7)) simp_all
      show "block_valid fs inode p"
        if "unat (offset + of_nat j) \<le> p" "p < unat (offset + of_nat j) + (k - j)" for p
        using that lk unfolding uo by (intro pre(7)) simp_all
    qed
    have "[unat offset..<unat offset + k] = [unat offset..<unat offset + j] @ [unat offset + j..<unat offset + k]"
      using lk upt_add_eq_append [of "unat offset" "unat offset + j" "k - j"] by simp
    moreover have "count + of_nat j + of_nat (k - j) = count + of_nat k"
      using lk by (simp add: of_nat_diff)
    ultimately show ?thesis
      using False valid round IH lk uo by (subst read_loop.simps) simp
  qed
qed

lemma read_data_spec:
  assumes "inode < boot_inode_count fs" and "unat offset < unat (inode_length fs inode)"
    and "k = min (unat n) (unat (inode_length fs inode) - unat offset)"
    and "block_valid fs inode (unat offset)"
    and "\<And>p. unat offset \<le> p \<Longrightarrow> p < unat offset + k \<Longrightarrow> block_valid fs inode p"
  shows "read_data fs inode offset n =
    (sint (of_nat k :: u32), map (file_byte fs inode) [unat offset..<unat offset + k])"
proof -
  have "read_loop fs inode n 0 (offset div NUM_B_IN_FOUR_KB) (offset mod NUM_B_IN_FOUR_KB) offset =
    (sint (0 + of_nat k :: u32), map (file_byte fs inode) [unat offset..<unat offset + k])"
    using assms by (intro read_loop_spec)
      (simp_all add: word_less_nat_alt NUM_B_IN_FOUR_KB_def unat_div unat_mod)
  then show ?thesis
    using assms by (simp add: read_data_def not_le word_less_nat_alt word_le_nat_alt)
qed

text \<open>No more is copied than asked for and than the file has left, whatever the block numbers are.\<close>

lemma copy_block_length:
  "copy_block fs block flen n count idx offset = (copied, c, off) \<Longrightarrow> count \<le> n \<Longrightarrow> offset \<le> flen \<Longrightarrow>
     unat c = unat count + length copied \<and> unat off = unat offset + length copied \<and> c \<le> n \<and> off \<le> flen"
proof (induction fs block flen n count idx offset arbitrary: copied rule: copy_block.induct)
  case (1 fs block flen n count idx offset)
  show ?case
  proof (cases "count < n \<and> idx < NUM_B_IN_FOUR_KB \<and> offset < flen")
    case True
    obtain rest where "copy_block fs block flen n (count + 1) (idx + 1) (offset + 1) = (rest, c, off)"
      "copied = fs (block + idx) # rest"
      using "1.prems"(1) True by (subst (asm) copy_block.simps) (auto split: prod.splits)
    moreover have "count + 1 \<le> n" "offset + 1 \<le> flen" using True word_loop_le by blast+
    moreover have "unat (count + 1) = Suc (unat count)" "unat (offset + 1) = Suc (unat offset)"
      using True unat_inc by blast+
    ultimately show ?thesis using "1.IH" [OF True] by simp
  next
    case False
    then show ?thesis using "1.prems" by (subst (asm) copy_block.simps) auto
  qed
qed

lemma read_loop_length:
  "count \<le> n \<Longrightarrow> offset \<le> inode_length fs inode \<Longrightarrow>
     length (snd (read_loop fs inode n count i idx offset))
       \<le> min (unat n - unat count) (unat (inode_length fs inode) - unat offset)"
proof (induction fs inode n count i idx offset rule: read_loop.induct)
  case (1 fs inode n count i idx offset)
  obtain copied c off where r: "block_round fs inode n count i idx offset = (copied, c, off)"
    by (metis prod_cases3)
  have l: "unat c = unat count + length copied" "unat off = unat offset + length copied" "c \<le> n"
    "off \<le> inode_length fs inode"
    using copy_block_length [OF r [unfolded block_round_def]] "1.prems" by blast+
  have ih: "length (snd (read_loop fs inode n c (i + 1) 0 off))
      \<le> min (unat n - unat c) (unat (inode_length fs inode) - unat off)"
    if "\<not> sint (inode_block_num fs inode i) \<ge> sint (boot_data_count fs)" "\<not> (c \<ge> n \<or> off \<ge> inode_length fs inode)"
    using "1.IH" [OF that(1) r [symmetric] refl that(2)] l(3,4) by blast
  have "unat c \<le> unat n" "unat off \<le> unat (inode_length fs inode)" using l(3,4) by (simp_all add: word_le_nat_alt)
  with l(1,2) ih show ?case
    by (subst read_loop.simps) (auto simp: r split: if_splits)
qed

lemma read_data_length:
  "length (snd (read_data fs inode offset n)) \<le> min (unat n) (unat (inode_length fs inode))"
proof (cases "offset < inode_length fs inode")
  case True
  then show ?thesis
    using read_loop_length [OF _ less_imp_le [OF True], of 0 n "offset div NUM_B_IN_FOUR_KB"
        "offset mod NUM_B_IN_FOUR_KB"]
    by (auto simp: read_data_def)
qed (simp add: read_data_def not_less)

section \<open>Lookup and descriptors\<close>

text \<open>Every block of the file lies in the image.\<close>

definition file_ok :: "image \<Rightarrow> u32 \<Rightarrow> bool" where
  "file_ok fs inode \<longleftrightarrow> (\<forall>p < unat (inode_length fs inode). block_valid fs inode p)"

lemma read_data_ok:
  assumes "inode < boot_inode_count fs" and "file_ok fs inode" and "unat n < 2 ^ 31"
  shows "read_data fs inode offset n =
    (int (min (unat n) (unat (inode_length fs inode) - unat offset)),
     map (file_byte fs inode)
       [unat offset..<unat offset + min (unat n) (unat (inode_length fs inode) - unat offset)])"
proof (cases "unat offset < unat (inode_length fs inode)")
  case True
  let ?k = "min (unat n) (unat (inode_length fs inode) - unat offset)"
  have "read_data fs inode offset n =
      (sint (of_nat ?k :: u32), map (file_byte fs inode) [unat offset..<unat offset + ?k])"
    using assms True by (intro read_data_spec) (auto simp: file_ok_def)
  moreover have "?k < 2 ^ 31" using assms(3) by linarith
  ultimately show ?thesis using sint_of_nat_u32 [of ?k] by simp
next
  case False
  then show ?thesis using assms(1)
    by (simp add: read_data_def not_le word_less_nat_alt word_le_nat_alt)
qed

text \<open>The name of a directory entry, cut at its first NUL, and the entry an argument names.\<close>

definition entry_name :: "image \<Rightarrow> nat \<Rightarrow> u8 list" where
  "entry_name fs i = takeWhile (\<lambda>c. c \<noteq> 0) (dname (direntry fs (of_nat i)))"

lemma dname_cut: "cut_str (\<lambda>i. fs (direntry_at index + i)) 0 32
    = takeWhile (\<lambda>c. c \<noteq> 0) (dname (direntry fs index))"
  by (simp add: cut_str_def direntry_def rd_def comp_def)

lemma dentry_search_spec:
  assumes "unat index \<le> 63"
  shows "dentry_search fs s index =
    (case find (\<lambda>i. cut_str s 0 32 = entry_name fs i) [unat index..<63] of
       None \<Rightarrow> (-1, None) | Some i \<Rightarrow> (0, Some (direntry fs (of_nat i))))"
  using assms
proof (induction "63 - unat index" arbitrary: index)
  case 0
  then have "\<not> index < NUM_FILES" by (simp add: NUM_FILES_def word_less_nat_alt)
  then show ?case using 0 by (subst dentry_search.simps) simp
next
  case (Suc n)
  then have lt: "unat index < 63" by simp
  then have i: "index < NUM_FILES" by (simp add: NUM_FILES_def word_less_nat_alt)
  have u: "unat (index + 1) = Suc (unat index)" using unat_inc [OF i] .
  have "dentry_search fs s (index + 1) =
    (case find (\<lambda>i. cut_str s 0 32 = entry_name fs i) [Suc (unat index)..<63] of
       None \<Rightarrow> (-1, None) | Some i \<Rightarrow> (0, Some (direntry fs (of_nat i))))"
    using Suc.hyps(1) [of "index + 1"] Suc.hyps(2) lt unfolding u by simp
  moreover have "[unat index..<63] = unat index # [Suc (unat index)..<63]"
    using lt by (rule upt_conv_Cons)
  moreover have "unat FILENAME_LEN = 32" by (simp add: FILENAME_LEN_def)
  moreover have "\<not> NUM_FILES \<le> index" using i by (simp add: not_le)
  ultimately show ?case
    using i by (subst dentry_search.simps)
      (simp add: strncmp_0_iff dname_cut entry_name_def read_dentry_by_index_def)
qed

lemma find_slot_from:
  "index \<le> 8 \<Longrightarrow> index \<le> find_slot fa index \<and> find_slot fa index \<le> 8
     \<and> (find_slot fa index < 8 \<longrightarrow> flags (fa ! find_slot fa index) = FILE_AVAIL)
     \<and> (\<forall>i. index \<le> i \<and> i < find_slot fa index \<longrightarrow> flags (fa ! i) \<noteq> FILE_AVAIL)"
proof (induction fa index rule: find_slot.induct)
  case (1 fa index)
  show ?case
  proof (cases "index < NUM_MAX_OPEN_FILES \<and> flags (fa ! index) \<noteq> FILE_AVAIL")
    case True
    then have "find_slot fa index = find_slot fa (index + 1)" by (subst find_slot.simps) simp
    moreover have "index + 1 \<le> 8" using True by (simp add: NUM_MAX_OPEN_FILES_def)
    ultimately show ?thesis using 1 True
      by (auto simp: Suc_le_eq le_less [of index])
  next
    case False
    then have "find_slot fa index = index" by (subst find_slot.simps) auto
    then show ?thesis using 1 False by (auto simp: NUM_MAX_OPEN_FILES_def)
  qed
qed

lemma find_slot_bounds:
  "2 \<le> find_slot fa 2" "find_slot fa 2 \<le> 8"
  "find_slot fa 2 < 8 \<Longrightarrow> flags (fa ! find_slot fa 2) = FILE_AVAIL"
  "2 \<le> i \<Longrightarrow> i < find_slot fa 2 \<Longrightarrow> flags (fa ! i) \<noteq> FILE_AVAIL"
  using find_slot_from [of 2 fa] by auto

text \<open>The descriptor a successful open of entry \<open>d\<close> installs.\<close>

definition opened :: "dentry \<Rightarrow> file_t" where
  "opened d = \<lparr>file_ops_table_ptr =
       (if filetype d = 2 then File_ops else if filetype d = 1 then Directory_ops else Rtc_ops),
     inode_num = dinode d, file_position = (if filetype d = 0 then 2 else 0), flags = FILE_OCCUP\<rparr>"

lemma file_t_set: "r\<lparr>file_ops_table_ptr := a, inode_num := b, file_position := c, flags := e\<rparr>
    = \<lparr>file_ops_table_ptr = a, inode_num = b, file_position = c, flags = e\<rparr>"
  by (cases r) simp

lemma file_install_opened:
  assumes "length fa = 8"
  shows "file_install d fa =
    (if find_slot fa 2 < 8 \<and> filetype d \<in> {0, 1, 2}
     then (int (find_slot fa 2), fa[find_slot fa 2 := opened d]) else (-1, fa))"
  using assms find_slot_bounds(1-3) [of fa]
  by (auto simp: file_t_set file_install_def opened_def rtc_open_def NUM_MAX_OPEN_FILES_def Let_def)

text \<open>Reading on: several reads through one descriptor, and the bytes they deliver.\<close>

primrec read_seq :: "image \<Rightarrow> file_t list \<Rightarrow> nat \<Rightarrow> u32 list \<Rightarrow> u8 list \<times> file_t list" where
  "read_seq fs fa fd [] = ([], fa)"
| "read_seq fs fa fd (n # ns) =
     (let (r, bs, fa1) = file_read fs fa fd n;
          (bs', fa2) = read_seq fs fa1 fd ns
      in (bs @ bs', fa2))"

lemma file_read_ok:
  assumes "2 \<le> fd" and "fd < length fa" and "inode_num (fa ! fd) < boot_inode_count fs"
    and "file_ok fs (inode_num (fa ! fd))" and "unat n < 2 ^ 31"
    and "k = min (unat n) (unat (inode_length fs (inode_num (fa ! fd))) - unat (file_position (fa ! fd)))"
  shows "file_read fs fa fd n =
    (int k, map (file_byte fs (inode_num (fa ! fd)))
       [unat (file_position (fa ! fd))..<unat (file_position (fa ! fd)) + k],
     fa[fd := (fa ! fd)\<lparr>file_position := file_position (fa ! fd) + of_nat k\<rparr>])"
  using assms read_data_ok [of "inode_num (fa ! fd)" fs n "file_position (fa ! fd)"]
  by (simp add: file_read_def)

lemma min_chunk:
  "p \<le> (l :: nat) \<Longrightarrow> min (a + b) (l - p) = min a (l - p) + min b (l - (p + min a (l - p)))"
  by (auto simp: min_def)

lemma read_seq_ok:
  assumes "2 \<le> fd" and "fd < length fa" and "inode_num (fa ! fd) = inode"
    and "inode < boot_inode_count fs" and "file_ok fs inode"
    and "unat (file_position (fa ! fd)) \<le> unat (inode_length fs inode)"
    and "\<And>n. n \<in> set ns \<Longrightarrow> unat n < 2 ^ 31"
    and "k = min (sum_list (map unat ns)) (unat (inode_length fs inode) - unat (file_position (fa ! fd)))"
  shows "fst (read_seq fs fa fd ns) = map (file_byte fs inode)
      [unat (file_position (fa ! fd))..<unat (file_position (fa ! fd)) + k]
    \<and> unat (file_position (snd (read_seq fs fa fd ns) ! fd)) = unat (file_position (fa ! fd)) + k"
  using assms
proof (induction ns arbitrary: fa k)
  case Nil
  then show ?case by simp
next
  case (Cons n ns)
  let ?pos = "file_position (fa ! fd)" and ?len = "unat (inode_length fs inode)"
  define j where "j = min (unat n) (?len - unat ?pos)"
  let ?fa = "fa[fd := (fa ! fd)\<lparr>file_position := ?pos + of_nat j\<rparr>]"
  have r: "file_read fs fa fd n =
      (int j, map (file_byte fs inode) [unat ?pos..<unat ?pos + j], ?fa)"
    using file_read_ok [of fd fa fs n j] Cons.prems by (simp add: j_def)
  have jl: "unat ?pos + j \<le> ?len" using Cons.prems(6) by (simp add: j_def)
  then have p: "unat (?pos + of_nat j) = unat ?pos + j"
    using unat_u32_less [of "inode_length fs inode"] by (intro unat_plus_of_nat) linarith
  define l where "l = min (sum_list (map unat ns)) (?len - (unat ?pos + j))"
  have kl: "k = j + l"
    using Cons.prems(8) min_chunk [OF Cons.prems(6), of "unat n" "sum_list (map unat ns)"]
    by (simp add: j_def l_def)
  have IH: "fst (read_seq fs ?fa fd ns) = map (file_byte fs inode)
      [unat ?pos + j..<unat ?pos + j + l]
    \<and> unat (file_position (snd (read_seq fs ?fa fd ns) ! fd)) = unat ?pos + j + l"
    using Cons.IH [of ?fa l] Cons.prems jl p by (simp add: l_def)
  have "[unat ?pos..<unat ?pos + k] = [unat ?pos..<unat ?pos + j] @ [unat ?pos + j..<unat ?pos + j + l]"
    using upt_add_eq_append [of "unat ?pos" "unat ?pos + j" l] kl by (simp add: add.assoc)
  then show ?case using r IH kl by (simp add: Let_def case_prod_beta)
qed

section \<open>Properties\<close>

text \<open>
  At or past the end of the file the code returns its count, 0, and stores nothing, although the
  comment on that branch announces -1.
\<close>

lemma read_data_past_end:
  "inode < boot_inode_count fs \<Longrightarrow> inode_length fs inode \<le> offset \<Longrightarrow>
     read_data fs inode offset n = (0, [])"
  by (simp add: read_data_def not_le not_less)

text \<open>
  C15. \<open>read_data\<close> reads the file.  For an inode of the image whose blocks all lie in it, any
  offset inside the file and any length below 2 GB, the call returns the number of bytes between
  the offset and the end of the file, at most \<open>n\<close>, and stores exactly those bytes of the file,
  across data block boundaries; an inode number out of range gives -1.  Offsets at or past the
  end are left out: there the comment and the code differ (\<open>read_data_past_end\<close>).
\<close>

theorem read_data_correct:
  assumes "inode < boot_inode_count fs \<longrightarrow> file_ok fs inode \<and> offset < inode_length fs inode"
    and "unat n < 2 ^ 31"
    and "k = min (unat n) (unat (inode_length fs inode) - unat offset)"
  shows "read_data fs inode offset n =
    (if inode < boot_inode_count fs
     then (int k, map (file_byte fs inode) [unat offset..<unat offset + k])
     else (-1, []))"
proof (cases "inode < boot_inode_count fs")
  case True
  then show ?thesis using assms by (simp add: read_data_ok)
next
  case False
  then show ?thesis by (simp add: read_data_def not_less)
qed

text \<open>A small image: one file \<open>f\<close> of five bytes in its only data block.\<close>

definition demo_fs :: image where
  "demo_fs a = (if a = 4 then 1 else if a = 8 then 1 else if a = 64 then ch CHR ''f''
     else if a = 96 then 2 else if a = 4096 then 5
     else if 8192 \<le> a \<and> a < 8197 then 65 + ucast (a - 8192) else 0)"

lemma demo_fs_ok: "boot_inode_count demo_fs = 1" "inode_length demo_fs 0 = 5"
  "inode_block_num demo_fs 0 0 = 0" "file_ok demo_fs 0"
proof -
  show "boot_inode_count demo_fs = 1" by (simp add: boot_inode_count_def le32_def demo_fs_def)
  show l: "inode_length demo_fs 0 = 5"
    by (simp add: inode_length_def le32_def inode_at_def NUM_B_IN_FOUR_KB_def demo_fs_def)
  show n: "inode_block_num demo_fs 0 0 = 0"
    by (simp add: inode_block_num_def le32_def inode_at_def NUM_B_IN_FOUR_KB_def demo_fs_def)
  have "boot_data_count demo_fs = 1" by (simp add: boot_data_count_def le32_def demo_fs_def)
  then show "file_ok demo_fs 0" by (simp add: file_ok_def l block_valid_def n)
qed

lemma read_data_correct_witness: "read_data demo_fs 0 1 3 = (3, [66, 67, 68])"
proof -
  have f: "file_byte demo_fs 0 p = 65 + of_nat p" if "p < 5" for p
  proof -
    have "p = 0 \<or> p = 1 \<or> p = 2 \<or> p = 3 \<or> p = 4" using that by linarith
    moreover have "data_block_at demo_fs 0 = 8192"
      by (simp add: data_block_at_def demo_fs_ok NUM_B_IN_FOUR_KB_def)
    then have "file_byte demo_fs 0 p = demo_fs (8192 + of_nat p)"
      using that by (simp add: file_byte_def demo_fs_ok)
    ultimately show ?thesis by (elim disjE) (simp_all add: demo_fs_def)
  qed
  have p: "0 < boot_inode_count demo_fs \<longrightarrow> file_ok demo_fs 0 \<and> 1 < inode_length demo_fs 0"
    "unat (3 :: u32) < 2 ^ 31"
    "3 = min (unat (3 :: u32)) (unat (inode_length demo_fs 0) - unat (1 :: u32))"
    by (simp_all add: demo_fs_ok)
  have "read_data demo_fs 0 1 3 =
      (if 0 < boot_inode_count demo_fs
       then (int 3, map (file_byte demo_fs 0) [unat (1 :: u32)..<unat (1 :: u32) + 3])
       else (-1, []))"
    by (rule read_data_correct [OF p])
  moreover have "[1..<1 + 3] = [1, 2, 3 :: nat]" by (simp add: upt_rec)
  ultimately show ?thesis using demo_fs_ok f by simp
qed

text \<open>
  C16. Reading on is reading through.  Any sequence of reads through one descriptor of a good file
  delivers, piece after piece, the bytes of the file from its position on, without gap or
  repetition, up to the end of the file, and leaves the position after the last byte delivered.
\<close>

theorem sequential_reads:
  assumes "2 \<le> fd" and "fd < length fa" and "inode_num (fa ! fd) < boot_inode_count fs"
    and "file_ok fs (inode_num (fa ! fd))"
    and "unat (file_position (fa ! fd)) \<le> unat (inode_length fs (inode_num (fa ! fd)))"
    and "\<forall>n \<in> set ns. unat n < 2 ^ 31"
  shows "let pos = unat (file_position (fa ! fd));
      k = min (sum_list (map unat ns)) (unat (inode_length fs (inode_num (fa ! fd))) - pos)
    in fst (read_seq fs fa fd ns) = map (file_byte fs (inode_num (fa ! fd))) [pos..<pos + k]
       \<and> unat (file_position (snd (read_seq fs fa fd ns) ! fd)) = pos + k"
  using read_seq_ok [OF assms(1,2) refl assms(3-5), of ns] assms(6) by (simp add: Let_def)

lemma sequential_reads_witness:
  "unat (file_position (snd (read_seq demo_fs (replicate 8 blank) 2 [2, 9]) ! 2)) = 5"
proof -
  have i: "inode_num (replicate 8 blank ! 2) = 0" "file_position (replicate 8 blank ! 2) = 0"
    by (simp_all add: blank_def)
  show ?thesis
    using sequential_reads [of 2 "replicate 8 blank" demo_fs "[2, 9]"] demo_fs_ok
    unfolding i by (simp add: Let_def)
qed

text \<open>
  C17. Lookup finds the first entry of that name.  \<open>read_dentry_by_name\<close> succeeds exactly when
  the name is not null, not empty, and equal, up to 32 characters, to the name of one of the 63
  directory entries, and then delivers the first such entry; otherwise it returns -1.
\<close>

theorem lookup_first_match:
  "read_dentry_by_name fs (Some s) =
     (case find (\<lambda>i. s 0 \<noteq> 0 \<and> cut_str s 0 32 = entry_name fs i) [0..<63] of
        None \<Rightarrow> (-1, None) | Some i \<Rightarrow> (0, Some (direntry fs (of_nat i))))
   \<and> read_dentry_by_name fs None = (-1, None)"
proof (cases "s 0 = 0")
  case True
  have "find (\<lambda>i. False) xs = None" for xs :: "nat list" by (induction xs) auto
  with True show ?thesis by (simp add: read_dentry_by_name_def)
next
  case False
  then show ?thesis using dentry_search_spec [of 0 fs s] by (simp add: read_dentry_by_name_def)
qed

text \<open>
  C18. Opening and closing.  Opening an existing file by a name of at most 32 characters hands
  out the lowest free descriptor from 2 to 7, sets it up for the kind of the file, and touches
  no other; it fails, changing nothing, when no descriptor is free or the entry has an unknown
  type.  Closing the descriptor makes exactly that slot blank again, and closing it twice fails.
\<close>

theorem open_then_close:
  assumes "length fa = 8" and "c_strlen s 0 = Some count" and "count < 33"
    and "read_dentry_by_name fs (Some s) = (0, Some d)" and "fd = find_slot fa 2"
  shows "file_open fs (Some s) fa =
      Some (if fd < 8 \<and> filetype d \<in> {0, 1, 2} then (int fd, fa[fd := opened d]) else (-1, fa))
    \<and> 2 \<le> fd \<and> (fd < 8 \<longrightarrow> flags (fa ! fd) = FILE_AVAIL)
    \<and> (\<forall>i. 2 \<le> i \<and> i < fd \<longrightarrow> flags (fa ! i) \<noteq> FILE_AVAIL)
    \<and> (fd < 8 \<longrightarrow> file_close (fa[fd := opened d]) (int fd) = (0, fa[fd := blank])
         \<and> file_close (fa[fd := blank]) (int fd) = (-1, fa[fd := blank]))"
proof (intro conjI)
  show "file_open fs (Some s) fa =
      Some (if fd < 8 \<and> filetype d \<in> {0, 1, 2} then (int fd, fa[fd := opened d]) else (-1, fa))"
  proof -
    have "\<not> 33 \<le> count" using assms(3) by (simp add: not_le)
    then show ?thesis using assms by (simp add: file_open_def file_install_opened)
  qed
  show "2 \<le> fd" "fd < 8 \<longrightarrow> flags (fa ! fd) = FILE_AVAIL"
    "\<forall>i. 2 \<le> i \<and> i < fd \<longrightarrow> flags (fa ! i) \<noteq> FILE_AVAIL"
    using find_slot_bounds assms(5) by blast+
  show "fd < 8 \<longrightarrow> file_close (fa[fd := opened d]) (int fd) = (0, fa[fd := blank])
         \<and> file_close (fa[fd := blank]) (int fd) = (-1, fa[fd := blank])"
    using assms(1) by (auto simp: file_close_def NUM_MAX_OPEN_FILES_def opened_def blank_def
        FILE_OCCUP_def FILE_AVAIL_def)
qed

lemma open_then_close_witness:
  "file_open demo_fs (Some (\<lambda>i. if i = 0 then ch CHR ''f'' else 0)) (replicate 8 blank)
     = Some (2, (replicate 8 blank)[2 := opened (direntry demo_fs 0)])"
proof -
  let ?s = "\<lambda>i :: u32. if i = 0 then ch CHR ''f'' else 0"
  let ?fa = "replicate 8 blank"
  have c: "is_cstr ?s 0 [ch CHR ''f'']" by (simp add: is_cstr_def rd_def)
  have len: "c_strlen ?s 0 = Some 1" using c_strlen_cstr [OF c] by simp
  have n: "(32 :: nat) = Suc (Suc 30)" by simp
  have "cut_str ?s 0 32 = [ch CHR ''f'']" unfolding n cut_str_Suc by simp
  moreover have "entry_name demo_fs 0 = [ch CHR ''f'']"
    unfolding entry_name_def of_nat_0 dname_cut [symmetric] unfolding n cut_str_Suc
    by (simp add: direntry_at_def demo_fs_def)
  ultimately have look: "read_dentry_by_name demo_fs (Some ?s) = (0, Some (direntry demo_fs 0))"
    by (simp add: read_dentry_by_name_def dentry_search_spec upt_conv_Cons [of 0 63])
  have slot: "2 = find_slot ?fa 2"
    by (subst find_slot.simps) (simp add: NUM_MAX_OPEN_FILES_def blank_def)
  have t: "filetype (direntry demo_fs 0) = 2"
    by (simp add: direntry_def le32_def direntry_at_def demo_fs_def)
  have p: "length ?fa = 8" "(1 :: u32) < 33" by simp_all
  have "file_open demo_fs (Some ?s) ?fa = Some (if (2 :: nat) < 8 \<and> filetype (direntry demo_fs 0) \<in> {0, 1, 2}
      then (int 2, ?fa[2 := opened (direntry demo_fs 0)]) else (-1, ?fa))"
    using open_then_close [OF p(1) len p(2) look slot] by blast
  then show ?thesis using t by simp
qed

text \<open>
  A failed read moves the position.  When \<open>read_data\<close> reports an error, \<open>file_read\<close> still
  adds its result to the file position, so the next read starts one byte earlier.
\<close>

theorem failed_read_steps_back:
  assumes "2 \<le> fd" and "fd < length fa" and "inode_num (fa ! fd) \<ge> boot_inode_count fs"
  shows "fst (file_read fs fa fd n) = -1
    \<and> file_position (snd (snd (file_read fs fa fd n)) ! fd) = file_position (fa ! fd) - 1"
  using assms by (simp add: file_read_def read_data_def)

lemma failed_read_steps_back_witness:
  "file_position (snd (snd (file_read demo_fs (replicate 8 (blank\<lparr>inode_num := 7\<rparr>)) 2 1)) ! 2) = - 1"
  using failed_read_steps_back [of 2 "replicate 8 (blank\<lparr>inode_num := 7\<rparr>)" demo_fs 1] demo_fs_ok
  by (simp add: blank_def)

end
