(* ===== verification/Paging.thy ===== *)
theory Paging
  imports Rtc_Dev Terminal
begin

text \<open>
  Paging, \<^verbatim>\<open>mp3/student-distrib/paging.c\<close>, with the two places that change the tables later:
  the mapping part of \<open>vidmap\<close> (\<^verbatim>\<open>syscalls.c\<close>) and the remapping loop of \<open>switch_terminal\<close>
  (\<^verbatim>\<open>terminal.c\<close>).  The addresses at which the linker places the page tables are a parameter,
  the record \<open>layout\<close>.  \<open>walk\<close> states what the tables say: the two-level lookup the processor
  makes, with 4 MB pages.
\<close>

definition VMEM_BASE :: nat where "VMEM_BASE = 184"
definition VMEM_TOP :: nat where "VMEM_TOP = 187"
definition NUM_ENTRIES :: nat where "NUM_ENTRIES = 1024"

record layout =
  first_pt :: u32
  video_pt :: "nat \<Rightarrow> u32"

text \<open>\<open>cr3\<close> is the index of the page directory that is loaded.\<close>

record paging =
  page_directory_array :: "nat \<Rightarrow> nat \<Rightarrow> u32"
  first_page_table :: "nat \<Rightarrow> u32"
  video_mem_page_table :: "nat \<Rightarrow> nat \<Rightarrow> u32"
  cr3 :: int
  paging_on :: bool

definition loadPageDirectory :: "int \<Rightarrow> paging \<Rightarrow> paging" where
  "loadPageDirectory i p = p\<lparr>cr3 := i\<rparr>"

definition clear_directories :: "paging \<Rightarrow> paging" where
  "clear_directories p =
     p\<lparr>page_directory_array := \<lambda>i j.
         if i < NUM_MAX_PROCESSES \<and> j < NUM_ENTRIES then 0x00000002 else page_directory_array p i j\<rparr>"

definition fill_first_table :: "paging \<Rightarrow> paging" where
  "fill_first_table p =
     p\<lparr>first_page_table := \<lambda>i.
         if i < NUM_ENTRIES
         then (if VMEM_BASE \<le> i \<and> i \<le> VMEM_TOP then (of_nat i * 0x1000) OR 3
               else (of_nat i * 0x1000) OR 2)
         else first_page_table p i\<rparr>"

definition fill_directories :: "layout \<Rightarrow> paging \<Rightarrow> paging" where
  "fill_directories L p =
     p\<lparr>page_directory_array := \<lambda>i.
         if i < NUM_MAX_PROCESSES
         then (page_directory_array p i)(0 := first_pt L OR 3, 1 := 0x00400083,
                                         32 := 0x00800087 + of_nat i * 0x00400000)
         else page_directory_array p i\<rparr>"

definition initPaging :: "layout \<Rightarrow> paging \<Rightarrow> paging" where
  "initPaging L p =
     (loadPageDirectory 0 (fill_directories L (fill_first_table (clear_directories p))))\<lparr>paging_on := True\<rparr>"

text \<open>\<open>vidmap\<close> from the page table to the reload of the directory, for directory \<open>c\<close>.\<close>

definition map_video :: "layout \<Rightarrow> nat \<Rightarrow> paging \<Rightarrow> paging" where
  "map_video L c p =
     loadPageDirectory (int c)
       (p\<lparr>video_mem_page_table := (video_mem_page_table p)(c := \<lambda>i.
             if i = 0 then (184 * KB_4) OR 7
             else if i < NUM_ENTRIES then (of_nat i * KB_4) OR 6
             else video_mem_page_table p c i),
          page_directory_array := (page_directory_array p)(c :=
             (page_directory_array p c)(64 := video_pt L c OR 7))\<rparr>)"

text \<open>The loop of \<open>switch_terminal\<close> over the video page tables.\<close>

definition remap_entry :: "u32 \<Rightarrow> u32 \<Rightarrow> u32 \<Rightarrow> u32" where
  "remap_entry old_storage new_storage entry =
     (if entry AND 0x07 = 7
      then (if entry AND 0xFFFFF000 = VIDEO_BASE then (entry AND 0x00000FFF) OR old_storage
            else if entry AND 0xFFFFF000 = new_storage then (entry AND 0x00000FFF) OR VIDEO_BASE
            else entry)
      else entry)"

definition remap_video :: "u32 \<Rightarrow> u32 \<Rightarrow> paging \<Rightarrow> paging" where
  "remap_video old_storage new_storage p =
     p\<lparr>video_mem_page_table := \<lambda>i.
         if i < NUM_MAX_PROCESSES
         then (video_mem_page_table p i)(0 := remap_entry old_storage new_storage (video_mem_page_table p i 0))
         else video_mem_page_table p i\<rparr>"

section \<open>Page-sized masks\<close>

lemma mask12: "(0xFFF :: u32) = mask 12" "(0xFFFFF000 :: u32) = NOT (mask 12)"
  by (simp_all add: mask_eq_exp_minus_1)
lemma mask22: "(0x3FFFFF :: u32) = mask 22" "(0xFFC00000 :: u32) = NOT (mask 22)"
  by (simp_all add: mask_eq_exp_minus_1)
lemma mask3: "(7 :: u32) = mask 3"
  by (simp add: mask_eq_exp_minus_1)
lemma mask2: "(3 :: u32) = mask 2"
  by (simp add: mask_eq_exp_minus_1)

lemma aligned_bit:
  assumes "x AND 0xFFF = (0 :: u32)" and "k < 12" shows "\<not> bit x k"
proof
  assume "bit x k"
  then have "bit (x AND mask 12) k" using assms(2) by (simp only: bit_and_iff bit_mask_iff) simp
  then show False using assms(1) unfolding mask12 by simp
qed

lemma bit_or_7: "bit (x OR 7 :: u32) k = (bit x k \<or> k < 3)"
  unfolding mask3 by (auto simp only: bit_or_iff bit_mask_iff) auto

lemma bit_or_3: "bit (x OR 3 :: u32) k = (bit x k \<or> k < 2)"
  unfolding mask2 by (auto simp only: bit_or_iff bit_mask_iff) auto

lemma frame_or_7: "x AND 0xFFF = (0 :: u32) \<Longrightarrow> (x OR 7) AND 0xFFFFF000 = x"
  using aligned_bit [of x]
  unfolding mask12(2)
  by (intro bit_eqI) (auto simp: bit_or_7 bit_and_iff bit_not_iff bit_mask_iff)

lemma flags_or_7: "(x OR 7) AND 7 = (7 :: u32)"
  unfolding mask3 by (intro bit_eqI) (auto simp: bit_or_iff bit_and_iff bit_mask_iff)

lemma offset_or_7: "x AND 0xFFF = (0 :: u32) \<Longrightarrow> (x OR 7) AND 0xFFF = 7"
  using aligned_bit [of x] unfolding mask12(1)
  by (intro bit_eqI) (auto simp: bit_or_iff bit_and_iff bit_mask_iff mask3)

lemma frame_or_offset:
  assumes "b AND mask n = (0 :: u32)" shows "b OR (v AND mask n) = b + (v AND mask n)"
proof (rule disjunctive_add_eq_or [symmetric], rule bit_eqI)
  fix k
  have "bit (b AND mask n) k = bit (0 :: u32) k" unfolding assms ..
  then show "bit (b AND (v AND mask n)) k = bit (0 :: u32) k"
    by (simp only: bit_and_iff) simp
qed

lemma page_offset:
  assumes "drop_bit n va = d" shows "va AND mask n = va - push_bit n (d :: u32)"
  using bits_ident [of n va] assms by (simp add: take_bit_eq_mask algebra_simps)
section \<open>What the tables say\<close>

definition table_at :: "layout \<Rightarrow> paging \<Rightarrow> u32 \<Rightarrow> (nat \<Rightarrow> u32) option" where
  "table_at L p a =
     (if a = first_pt L then Some (first_page_table p)
      else map_option (video_mem_page_table p) (find (\<lambda>c. video_pt L c = a) [0..<NUM_MAX_PROCESSES]))"

text \<open>Physical address of a linear address under directory \<open>c\<close>, and whether user code may use it.\<close>

definition walk :: "layout \<Rightarrow> paging \<Rightarrow> nat \<Rightarrow> u32 \<Rightarrow> (u32 \<times> bool) option" where
  "walk L p c va =
     (let pde = page_directory_array p c (unat (drop_bit 22 va))
      in if \<not> bit pde 0 then None
         else if bit pde 7 then Some ((pde AND 0xFFC00000) OR (va AND 0x003FFFFF), bit pde 2)
         else (case table_at L p (pde AND 0xFFFFF000) of None \<Rightarrow> None
               | Some t \<Rightarrow>
                   (let pte = t (unat (drop_bit 12 va AND 0x3FF))
                    in if \<not> bit pte 0 then None
                       else Some ((pte AND 0xFFFFF000) OR (va AND 0xFFF), bit pde 2 \<and> bit pte 2))))"

text \<open>The linker's promise: page-aligned, distinct tables.\<close>

definition layout_ok :: "layout \<Rightarrow> bool" where
  "layout_ok L \<longleftrightarrow> first_pt L AND 0xFFF = 0 \<and> (\<forall>c < 6. video_pt L c AND 0xFFF = 0 \<and> video_pt L c \<noteq> first_pt L)
     \<and> (\<forall>c < 6. \<forall>d < 6. video_pt L c = video_pt L d \<longrightarrow> c = d)"

text \<open>
  The states the kernel's paging code can reach: set up once, then any sequence of directory
  loads, \<open>vidmap\<close> calls and terminal switches.
\<close>

inductive paging_reach :: "layout \<Rightarrow> paging \<Rightarrow> bool" for L where
  init: "paging_reach L (initPaging L p)"
| load: "paging_reach L p \<Longrightarrow> paging_reach L (loadPageDirectory i p)"
| vidmap: "paging_reach L p \<Longrightarrow> c < NUM_MAX_PROCESSES \<Longrightarrow> paging_reach L (map_video L c p)"
| switch: "paging_reach L p \<Longrightarrow> a < NUM_TERMINALS \<Longrightarrow> b < NUM_TERMINALS \<Longrightarrow>
    paging_reach L (remap_video (storage_of a) (storage_of b) p)"

text \<open>The invariant of the tables.\<close>

definition video_table_ok :: "(nat \<Rightarrow> u32) \<Rightarrow> bool" where
  "video_table_ok t \<longleftrightarrow> (\<exists>q \<in> video_pages. t 0 = q OR 7) \<and> (\<forall>i. 0 < i \<and> i < 1024 \<longrightarrow> \<not> bit (t i) 0)"

definition directory_ok :: "layout \<Rightarrow> paging \<Rightarrow> nat \<Rightarrow> bool" where
  "directory_ok L p c \<longleftrightarrow> page_directory_array p c 0 = first_pt L OR 3
     \<and> page_directory_array p c 1 = 0x00400083
     \<and> page_directory_array p c 32 = 0x00800087 + of_nat c * 0x00400000
     \<and> (\<forall>j < 1024. j \<notin> {0, 1, 32, 64} \<longrightarrow> page_directory_array p c j = 2)
     \<and> (page_directory_array p c 64 = 2
        \<or> page_directory_array p c 64 = video_pt L c OR 7 \<and> video_table_ok (video_mem_page_table p c))"

definition paging_ok :: "layout \<Rightarrow> paging \<Rightarrow> bool" where
  "paging_ok L p \<longleftrightarrow> (\<forall>c < 6. directory_ok L p c)"

lemma paging_ok_init [inv_intros]: "paging_ok L (initPaging L p)"
  by (simp add: paging_ok_def directory_ok_def initPaging_def loadPageDirectory_def fill_directories_def
      fill_first_table_def clear_directories_def NUM_MAX_PROCESSES_def NUM_ENTRIES_def)

lemma paging_ok_load [inv_intros]: "paging_ok L p \<Longrightarrow> paging_ok L (loadPageDirectory i p)"
  by (simp add: paging_ok_def directory_ok_def loadPageDirectory_def)

lemma kb_entry_absent: "\<not> bit (of_nat i * KB_4 OR 6 :: u32) 0"
proof -
  have "of_nat i * KB_4 = push_bit 12 (of_nat i :: u32)" by (simp add: push_bit_eq_mult KB_4_def mult.commute)
  then show ?thesis by (simp add: bit_or_iff bit_push_bit_iff del: push_bit_of_nat)
qed

lemma paging_ok_vidmap [inv_intros]:
  assumes "paging_ok L p" and "c < NUM_MAX_PROCESSES"
  shows "paging_ok L (map_video L c p)"
proof -
  have "\<exists>q \<in> video_pages. 184 * KB_4 OR 7 = q OR 7"
    by (rule bexI [of _ "0xB8000"]) (simp_all add: video_pages_def KB_4_def)
  then have "video_table_ok (video_mem_page_table (map_video L c p) c)"
    by (simp add: video_table_ok_def map_video_def loadPageDirectory_def NUM_ENTRIES_def kb_entry_absent)
  then show ?thesis
    using assms by (auto simp: paging_ok_def directory_ok_def map_video_def loadPageDirectory_def)
qed

lemma video_page_aligned: "q \<in> video_pages \<Longrightarrow> q AND 0xFFF = 0"
  by (auto simp: video_pages_def)

lemma remap_page:
  assumes "q \<in> video_pages" and "a < 3" and "b < 3"
  shows "remap_entry (storage_of a) (storage_of b) (q OR 7)
    = (if q = VIDEO_BASE then storage_of a else if q = storage_of b then VIDEO_BASE else q) OR 7"
  using flags_or_7 frame_or_7 [OF video_page_aligned [OF assms(1)]]
    offset_or_7 [OF video_page_aligned [OF assms(1)]]
  by (simp only: remap_entry_def refl if_True) (simp add: or.commute)

lemma paging_ok_switch [inv_intros]:
  assumes "paging_ok L p" and "a < 3" and "b < 3"
  shows "paging_ok L (remap_video (storage_of a) (storage_of b) p)"
proof -
  have "video_table_ok ((video_mem_page_table p c)(0 := remap_entry (storage_of a) (storage_of b) (video_mem_page_table p c 0)))"
    if t: "video_table_ok (video_mem_page_table p c)" for c
  proof -
    obtain q where q: "q \<in> video_pages" "video_mem_page_table p c 0 = q OR 7"
      using t by (auto simp: video_table_ok_def)
    have "(if q = VIDEO_BASE then storage_of a else if q = storage_of b then VIDEO_BASE else q) \<in> video_pages"
      using q(1) storage_of_page assms by (auto simp: video_pages_def VIDEO_BASE_def)
    then show ?thesis using t q by (auto simp: video_table_ok_def remap_page [OF q(1) assms(2,3)])
  qed
  then show ?thesis
    using assms(1) by (auto simp: paging_ok_def directory_ok_def remap_video_def NUM_MAX_PROCESSES_def)
qed

lemma paging_reach_ok: "paging_reach L p \<Longrightarrow> paging_ok L p"
  by (induction rule: paging_reach.induct) (auto intro: inv_intros simp: NUM_TERMINALS_def)

section \<open>Isolation\<close>

lemma unat_drop: "unat (drop_bit n va :: u32) = unat va div 2 ^ n"
  by (simp only: unsigned_drop_bit_eq) (simp add: drop_bit_eq_div take_bit_nat_eq_self)

lemma dir_index_less: "unat (drop_bit 22 va :: u32) < 1024"
proof -
  have "unat (drop_bit 22 va) = unat va div 2 ^ 22" by (rule unat_drop)
  then show ?thesis using unat_u32_less [of va] by (simp add: less_mult_imp_div_less del: unat_u32_less)
qed

lemma dir_index_eq:
  assumes "unat (drop_bit 22 va :: u32) = j" and "j < 1024"
  shows "va AND 0x3FFFFF = va - of_nat j * 0x400000"
proof -
  have "drop_bit 22 va = of_nat j" using assms by (simp flip: assms(1))
  then have "va AND mask 22 = va - push_bit 22 (of_nat j)" by (rule page_offset)
  then show ?thesis unfolding mask22 by (simp add: push_bit_eq_mult)
qed

text \<open>The 4 MB frame of process \<open>c\<close>.\<close>

definition frame_of :: "nat \<Rightarrow> u32" where
  "frame_of c = 0x800000 + 0x400000 * of_nat c"

lemma less6: "(c :: nat) < 6 \<Longrightarrow> c = 0 \<or> c = 1 \<or> c = 2 \<or> c = 3 \<or> c = 4 \<or> c = 5"
  by linarith

lemma program_entry:
  assumes "c < 6"
  shows "bit (0x00800087 + of_nat c * 0x00400000 :: u32) 0" "bit (0x00800087 + of_nat c * 0x00400000 :: u32) 7"
    "bit (0x00800087 + of_nat c * 0x00400000 :: u32) 2"
    "(0x00800087 + of_nat c * 0x00400000) AND 0xFFC00000 = frame_of c"
    "frame_of c AND 0x3FFFFF = 0"
  using less6 [OF assms] by (elim disjE; simp add: frame_of_def)+

lemma walk_program:
  assumes ok: "directory_ok L p c" and c: "c < 6" and j: "unat (drop_bit 22 va) = 32"
  shows "walk L p c va = Some (frame_of c + (va - 0x8000000), True)"
proof -
  note e = program_entry [OF c]
  have v: "va AND 0x3FFFFF = va - 0x8000000" using dir_index_eq [OF j] by simp
  have "frame_of c OR (va AND 0x3FFFFF) = frame_of c + (va AND 0x3FFFFF)"
    using frame_or_offset [of "frame_of c" 22 va] e(5) unfolding mask22 by blast
  then show ?thesis using ok e(1-4) v unfolding walk_def Let_def j by (simp add: directory_ok_def)
qed

lemma walk_absent:
  assumes "directory_ok L p c" and "unat (drop_bit 22 va) \<notin> {0, 1, 32, 64}"
  shows "walk L p c va = None"
  using assms dir_index_less [of va] by (simp add: walk_def directory_ok_def Let_def)

lemma walk_kernel:
  assumes ok: "directory_ok L p c" and L: "layout_ok L" and j: "unat (drop_bit 22 va) \<in> {0, 1}"
  shows "walk L p c va \<noteq> Some (pa, True)"
proof -
  have a: "\<not> bit (first_pt L) k" if "k < 12" for k
    using L aligned_bit that by (auto simp: layout_ok_def)
  have "\<not> bit (page_directory_array p c (unat (drop_bit 22 va))) 2"
    using j ok a by (auto simp: directory_ok_def bit_or_3)
  then show ?thesis by (auto simp: walk_def Let_def split: if_splits option.splits)
qed

lemma find_unique:
  assumes "c \<in> set xs" and "P c" and "\<forall>d \<in> set xs. P d \<longrightarrow> d = c"
  shows "find P xs = Some c"
proof -
  have "find P xs \<noteq> None" using assms(1,2) by (auto simp: find_None_iff)
  then obtain d where d: "find P xs = Some d" by blast
  then have "d \<in> set xs" "P d" by (auto simp: find_Some_iff)
  with d assms(3) show ?thesis by blast
qed

lemma table_at_video: "layout_ok L \<Longrightarrow> c < 6 \<Longrightarrow> table_at L p (video_pt L c) = Some (video_mem_page_table p c)"
proof -
  assume L: "layout_ok L" and c: "c < 6"
  have "find (\<lambda>d. video_pt L d = video_pt L c) [0..<NUM_MAX_PROCESSES] = Some c"
    by (rule find_unique) (use L c in \<open>simp_all add: layout_ok_def NUM_MAX_PROCESSES_def\<close>)
  then show ?thesis using L c by (simp add: table_at_def layout_ok_def)
qed

lemma table_index:
  assumes "unat (drop_bit 22 va) = 64"
  shows "drop_bit 12 va AND 0x3FF = 0 \<longleftrightarrow> unat (va - 0x10000000) < 0x1000"
    and "unat (drop_bit 12 va AND 0x3FF :: u32) < 1024"
    and "unat (va - 0x10000000) < 0x1000 \<Longrightarrow> va AND 0xFFF = va - 0x10000000"
proof -
  have m: "(0x3FF :: u32) = mask 10" by (simp add: mask_eq_exp_minus_1)
  have w: "va AND mask 22 = va - 0x10000000" using dir_index_eq [OF assms] unfolding mask22 by simp
  have bits: "bit (drop_bit 12 va AND mask 10) k \<longleftrightarrow> bit (va - 0x10000000) (k + 12)" for k
  proof -
    have "bit (va - 0x10000000) (k + 12) \<longleftrightarrow> bit (va AND mask 22) (k + 12)" by (simp only: w)
    also have "\<dots> \<longleftrightarrow> bit va (k + 12) \<and> k < 10" by (auto simp: bit_and_iff bit_mask_iff)
    also have "\<dots> \<longleftrightarrow> bit (drop_bit 12 va AND mask 10) k"
      by (auto simp: bit_and_iff bit_mask_iff bit_drop_bit_eq add.commute)
    finally show ?thesis by blast
  qed
  have d: "drop_bit 12 va AND mask 10 = drop_bit 12 (va - 0x10000000)"
    by (rule bit_eqI) (simp only: bits bit_drop_bit_eq comp_def add.commute)
  have "unat (drop_bit 12 (va - 0x10000000)) = unat (va - 0x10000000) div 4096"
    using unat_drop [of 12] by simp
  then have "drop_bit 12 (va - 0x10000000) = 0 \<longleftrightarrow> unat (va - 0x10000000) div 4096 = 0"
    by (metis unat_eq_zero)
  then show "drop_bit 12 va AND 0x3FF = 0 \<longleftrightarrow> unat (va - 0x10000000) < 0x1000"
    unfolding m d by (simp add: div_eq_0_iff)
  show "unat (drop_bit 12 va AND 0x3FF :: u32) < 1024"
    unfolding m using and_mask_less' [of 10 "drop_bit 12 va"] by (simp add: word_less_nat_alt)
  show "va AND 0xFFF = va - 0x10000000" if "unat (va - 0x10000000) < 0x1000"
  proof -
    have "va AND mask 12 = (va AND mask 22) AND mask 12"
      by (rule bit_eqI) (auto simp: bit_and_iff bit_mask_iff)
    also have "\<dots> = (va - 0x10000000) AND mask 12" by (simp only: w)
    also have "\<dots> = va - 0x10000000"
      using that by (intro less_mask_eq) (simp add: word_less_nat_alt)
    finally show ?thesis unfolding mask12 .
  qed
qed

lemma frame_plus:
  assumes "q AND 0xFFF = (0 :: u32)"
  shows "q OR (va AND 0xFFF) = q + (va AND 0xFFF)"
  using frame_or_offset [of q 12 va] assms unfolding mask12 by blast

lemma walk_video:
  assumes L: "layout_ok L" and c: "c < 6" and j: "unat (drop_bit 22 va) = 64"
    and d: "page_directory_array p c 64 = video_pt L c OR 7"
    and t: "video_mem_page_table p c 0 = q OR 7" "q \<in> video_pages"
      "\<forall>i. 0 < i \<and> i < 1024 \<longrightarrow> \<not> bit (video_mem_page_table p c i) 0"
  shows "walk L p c va = (if unat (va - 0x10000000) < 0x1000 then Some (q + (va - 0x10000000), True) else None)"
proof -
  have al: "video_pt L c AND 0xFFF = 0" using L c by (simp add: layout_ok_def)
  have pde: "bit (video_pt L c OR 7) 0" "bit (video_pt L c OR 7) 2" "\<not> bit (video_pt L c OR 7) 7"
    using aligned_bit [OF al] by (simp_all add: bit_or_7)
  have pte: "bit (q OR 7) 0" "bit (q OR 7) 2" by (simp_all add: bit_or_7)
  note T = table_index [OF j]
  have w: "walk L p c va = (let pte = video_mem_page_table p c (unat (drop_bit 12 va AND 0x3FF))
      in if \<not> bit pte 0 then None else Some ((pte AND 0xFFFFF000) OR (va AND 0xFFF), bit pte 2))"
    unfolding walk_def j d Let_def frame_or_7 [OF al] table_at_video [OF L c] using pde by simp
  show ?thesis
  proof (cases "unat (va - 0x10000000) < 0x1000")
    case True
    have z: "unat (drop_bit 12 va AND 0x3FF) = 0" using T(1) True by simp
    note fq = frame_or_7 [OF video_page_aligned [OF t(2)]]
    have "q OR (va AND 0xFFF) = q + (va - 0x10000000)"
      using frame_plus [OF video_page_aligned [OF t(2)], of va] unfolding T(3) [OF True] .
    then show ?thesis unfolding w z t(1) Let_def fq using True pte by simp
  next
    case False
    then have "0 < unat (drop_bit 12 va AND 0x3FF)" using T(1) by (simp add: word_neq_0_conv unat_gt_0)
    then show ?thesis using t(3) T(2) False unfolding w by (simp add: Let_def)
  qed
qed

text \<open>The linear addresses of the program page, and of the page \<open>vidmap\<close> hands out.\<close>

definition program_page :: "u32 set" where
  "program_page = {va. unat (drop_bit 22 va) = 32}"

lemma program_page_range: "va \<in> program_page \<longleftrightarrow> 0x8000000 \<le> unat va \<and> unat va < 0x8400000"
proof -
  have "unat (drop_bit 22 va) = unat va div 4194304" using unat_drop [of 22 va] by simp
  then show ?thesis unfolding program_page_def by auto
qed

definition video_window :: "u32 set" where
  "video_window = {va. unat (va - 0x10000000) < 0x1000}"

lemma window_index: "va \<in> video_window \<Longrightarrow> unat (drop_bit 22 va) = 64"
proof -
  assume "va \<in> video_window"
  then have w: "unat (va - 0x10000000) < 0x1000" by (simp add: video_window_def)
  have "unat (0x10000000 + of_nat (unat (va - 0x10000000)) :: u32) = 0x10000000 + unat (va - 0x10000000)"
    using unat_plus_of_nat [of "0x10000000" "unat (va - 0x10000000)"] w by simp
  then have "unat va = 0x10000000 + unat (va - 0x10000000)" by simp
  then show ?thesis using w unat_drop [of 22 va] by simp
qed

text \<open>What user code of process \<open>c\<close> can reach, in any reachable state.\<close>

lemma user_access_cases:
  assumes L: "layout_ok L" and ok: "paging_ok L p" and c: "c < 6"
    and w: "walk L p c va = Some (pa, True)"
  shows "va \<in> program_page \<and> pa = frame_of c + (va - 0x8000000) \<or>
    va \<in> video_window \<and> (\<exists>q \<in> video_pages. video_mem_page_table p c 0 = q OR 7 \<and> pa = q + (va - 0x10000000))"
proof -
  have d: "directory_ok L p c" using ok c by (simp add: paging_ok_def)
  have "unat (drop_bit 22 va) \<in> {32, 64}"
  proof -
    have "unat (drop_bit 22 va) \<notin> {0, 1}" using walk_kernel [OF d L] w by blast
    moreover have "unat (drop_bit 22 va) \<in> {0, 1, 32, 64}"
      using walk_absent [OF d] w by (metis option.distinct(1))
    ultimately show ?thesis by blast
  qed
  then consider (prog) "unat (drop_bit 22 va) = 32" | (vid) "unat (drop_bit 22 va) = 64" by blast
  then show ?thesis
  proof cases
    case prog
    then show ?thesis using walk_program [OF d c prog] w by (simp add: program_page_def)
  next
    case vid
    show ?thesis
    proof (cases "page_directory_array p c 64 = 2")
      case True
      then show ?thesis using w vid by (simp add: walk_def)
    next
      case False
      then have m: "page_directory_array p c 64 = video_pt L c OR 7" and "video_table_ok (video_mem_page_table p c)"
        using d by (auto simp: directory_ok_def)
      then obtain q where q: "video_mem_page_table p c 0 = q OR 7" "q \<in> video_pages"
          "\<forall>i. 0 < i \<and> i < 1024 \<longrightarrow> \<not> bit (video_mem_page_table p c i) 0"
        by (auto simp: video_table_ok_def)
      show ?thesis
        using walk_video [OF L c vid m q] w q by (auto simp: video_window_def split: if_splits)
    qed
  qed
qed

text \<open>
  C23. Memory isolation: in every state the paging code can reach, with page tables where the
  linker puts them, user code of process \<open>c\<close> sees its own 4 MB frame at 128 MB, all of it, and
  besides that at most one page, the video page its table names, at 256 MB.  So no user
  address leads to the kernel's 4 MB page or to the frame of another process.
\<close>

theorem user_pages_isolated:
  assumes "layout_ok L" and "paging_reach L p" and "c < 6"
  shows "(\<forall>va \<in> program_page. walk L p c va = Some (frame_of c + (va - 0x8000000), True))
    \<and> (\<forall>va pa. walk L p c va = Some (pa, True) \<longrightarrow>
         va \<in> program_page \<and> pa = frame_of c + (va - 0x8000000)
         \<or> va \<in> video_window \<and> (\<exists>q \<in> video_pages. pa = q + (va - 0x10000000)))"
proof -
  have ok: "paging_ok L p" using assms(2) by (rule paging_reach_ok)
  then have "directory_ok L p c" using assms(3) by (simp add: paging_ok_def)
  then have "walk L p c va = Some (frame_of c + (va - 0x8000000), True)" if "va \<in> program_page" for va
    using that assms(3) by (intro walk_program) (simp_all add: program_page_def)
  then show ?thesis using user_access_cases [OF assms(1) ok assms(3)] by blast
qed

definition demo_layout :: layout where
  "demo_layout = \<lparr>first_pt = 0x410000, video_pt = (\<lambda>c. 0x420000 + 0x1000 * of_nat c)\<rparr>"

lemma demo_layout_ok: "layout_ok demo_layout"
proof -
  have "c = d" if "c < 6" "d < 6" "(0x420000 + 0x1000 * of_nat c :: u32) = 0x420000 + 0x1000 * of_nat d" for c d
    using less6 [OF that(1)] less6 [OF that(2)] that(3) by (elim disjE; simp)
  moreover have "(0x420000 + 0x1000 * of_nat c :: u32) AND 0xFFF = 0 \<and> (0x420000 + 0x1000 * of_nat c :: u32) \<noteq> 0x410000"
    if "c < 6" for c using less6 [OF that] by (elim disjE; simp)
  ultimately show ?thesis by (simp add: layout_ok_def demo_layout_def)
qed

definition demo_paging :: paging where
  "demo_paging = initPaging demo_layout \<lparr>page_directory_array = (\<lambda>_ _. 0), first_page_table = (\<lambda>_. 0),
     video_mem_page_table = (\<lambda>_ _. 0), cr3 = 0, paging_on = False\<rparr>"

lemma user_pages_isolated_witness:
  "walk demo_layout (map_video demo_layout 2 demo_paging) 2 0x8048018 = Some (0x1048018, True)"
proof -
  have r: "paging_reach demo_layout (map_video demo_layout 2 demo_paging)"
    unfolding demo_paging_def by (intro paging_reach.intros) (simp add: NUM_MAX_PROCESSES_def)
  have v: "0x8048018 \<in> program_page" by (simp add: program_page_range)
  show ?thesis using user_pages_isolated [OF demo_layout_ok r, of 2] v by (simp add: frame_of_def)
qed

end
