(* ===== verification/Pic8259.thy ===== *)
theory Pic8259
  imports Prelude
begin

text \<open>
  The interrupt controller driver, \<^verbatim>\<open>mp3/student-distrib/i8259.c\<close>: the two mask variables
  and the bytes written to the ports of the master and the slave 8259.  The chips themselves
  are outside; the driver is described by its variables and its port writes.
\<close>

record pic =
  master_interrupt_mask :: u8
  slave_interrupt_mask :: u8

definition pic0 :: pic where
  "pic0 = \<lparr>master_interrupt_mask = 0xFF, slave_interrupt_mask = 0xFF\<rparr>"

definition MASTER_8259_PORT :: u16 where "MASTER_8259_PORT = 0x20"
definition SLAVE_8259_PORT :: u16 where "SLAVE_8259_PORT = 0xA0"
definition NUMBER_IRQS :: u32 where "NUMBER_IRQS = 0x0F"
definition ICW1 :: u8 where "ICW1 = 0x11"
definition ICW2_MASTER :: u8 where "ICW2_MASTER = 0x20"
definition ICW2_SLAVE :: u8 where "ICW2_SLAVE = 0x28"
definition ICW3_MASTER :: u8 where "ICW3_MASTER = 0x04"
definition ICW3_SLAVE :: u8 where "ICW3_SLAVE = 0x02"
definition ICW4 :: u8 where "ICW4 = 0x01"
definition EOI :: u8 where "EOI = 0x60"

text \<open>\<open>1 << n\<close>, cut to the width of a mask.\<close>

definition irq_bit :: "nat \<Rightarrow> u8" where
  "irq_bit n = push_bit n 1"

definition i8259_init :: "pic \<Rightarrow> out_event list" where
  "i8259_init p =
     [Outb (MASTER_8259_PORT + 1) (master_interrupt_mask p),
      Outb (SLAVE_8259_PORT + 1) (slave_interrupt_mask p),
      Outb MASTER_8259_PORT ICW1, Outb SLAVE_8259_PORT ICW1,
      Outb (MASTER_8259_PORT + 1) ICW2_MASTER, Outb (SLAVE_8259_PORT + 1) ICW2_SLAVE,
      Outb (MASTER_8259_PORT + 1) ICW3_MASTER, Outb (SLAVE_8259_PORT + 1) ICW3_SLAVE,
      Outb (MASTER_8259_PORT + 1) ICW4, Outb (SLAVE_8259_PORT + 1) ICW4]"

definition enable_irq :: "u32 \<Rightarrow> pic \<Rightarrow> pic \<times> out_event list" where
  "enable_irq irq_num p =
     (if irq_num > NUMBER_IRQS then (p, [])
      else if irq_num < 8 then
        (let m = master_interrupt_mask p AND NOT (irq_bit (unat irq_num))
         in (p\<lparr>master_interrupt_mask := m\<rparr>, [Outb (MASTER_8259_PORT + 1) m]))
      else
        (let s = slave_interrupt_mask p AND NOT (irq_bit (unat (irq_num - 8)));
             m = master_interrupt_mask p AND NOT (irq_bit (unat ICW3_SLAVE))
         in (p\<lparr>master_interrupt_mask := m, slave_interrupt_mask := s\<rparr>,
             [Outb (SLAVE_8259_PORT + 1) s, Outb (MASTER_8259_PORT + 1) m])))"

definition disable_irq :: "u32 \<Rightarrow> pic \<Rightarrow> pic \<times> out_event list" where
  "disable_irq irq_num p =
     (if irq_num > NUMBER_IRQS then (p, [])
      else if irq_num < 8 then
        (let m = master_interrupt_mask p OR irq_bit (unat irq_num)
         in (p\<lparr>master_interrupt_mask := m\<rparr>, [Outb (MASTER_8259_PORT + 1) m]))
      else
        (let s = slave_interrupt_mask p OR irq_bit (unat (irq_num - 8))
         in if s = 0xFF
            then (let m = master_interrupt_mask p OR irq_bit (unat ICW3_SLAVE)
                  in (p\<lparr>master_interrupt_mask := m, slave_interrupt_mask := s\<rparr>,
                      [Outb (SLAVE_8259_PORT + 1) s, Outb (MASTER_8259_PORT + 1) m]))
            else (p\<lparr>slave_interrupt_mask := s\<rparr>, [Outb (SLAVE_8259_PORT + 1) s])))"

definition send_eoi :: "u32 \<Rightarrow> out_event list" where
  "send_eoi irq_num =
     (if irq_num > NUMBER_IRQS then []
      else if irq_num < 8 then [Outb MASTER_8259_PORT (EOI OR ucast irq_num)]
      else [Outb SLAVE_8259_PORT (EOI OR ucast (irq_num - 8)), Outb MASTER_8259_PORT (EOI OR 2)])"

section \<open>Which interrupts get through\<close>

text \<open>An IRQ of the slave passes only while the cascade line, IRQ 2 of the master, is open.\<close>

definition deliverable :: "pic \<Rightarrow> nat \<Rightarrow> bool" where
  "deliverable p n \<longleftrightarrow>
     (if n < 8 then \<not> bit (master_interrupt_mask p) n
      else \<not> bit (slave_interrupt_mask p) (n - 8) \<and> \<not> bit (master_interrupt_mask p) 2)"

text \<open>The cascade line is masked exactly while every slave IRQ is.\<close>

definition cascade_ok :: "pic \<Rightarrow> bool" where
  "cascade_ok p \<longleftrightarrow> (bit (master_interrupt_mask p) 2 \<longleftrightarrow> slave_interrupt_mask p = 0xFF)"

lemma bit_irq_bit [simp]: "bit (irq_bit n) k = (k = n \<and> k < 8)"
  unfolding irq_bit_def bit_push_bit_iff bit_1_iff by auto

lemma ICW3_SLAVE_2 [simp]: "unat ICW3_SLAVE = 2"
  by (simp add: ICW3_SLAVE_def)

lemma u8_eq_0xFF: "(x = (0xFF :: u8)) = (\<forall>k < 8. bit x k)"
proof -
  have m: "(0xFF :: u8) = mask 8" by (simp add: mask_eq_exp_minus_1)
  show ?thesis
  proof
    show "\<forall>k < 8. bit x k" if "x = 0xFF"
      unfolding that m bit_mask_iff by simp
    show "x = 0xFF" if "\<forall>k < 8. bit x k"
      unfolding m by (rule bit_word_eqI) (use that in \<open>simp add: bit_mask_iff del: mask_numeral\<close>)
  qed
qed

lemma bit_u8_less: "bit (x :: u8) k \<Longrightarrow> k < 8"
  using bit_imp_le_length [of x k] by simp

lemma irq_range: "\<not> irq_num > NUMBER_IRQS \<Longrightarrow> unat irq_num < 16"
  by (simp add: NUMBER_IRQS_def word_less_nat_alt)

lemma irq_sub8: "\<not> irq_num < (8 :: u32) \<Longrightarrow> unat (irq_num - 8) = unat irq_num - 8"
  by (subst unat_sub) (auto simp: word_less_nat_alt word_le_nat_alt)

lemma enable_irq_bits:
  assumes "unat n < 16"
  shows "bit (master_interrupt_mask (fst (enable_irq n p))) k =
      (bit (master_interrupt_mask p) k \<and> k \<noteq> (if unat n < 8 then unat n else 2))"
    and "bit (slave_interrupt_mask (fst (enable_irq n p))) k =
      (bit (slave_interrupt_mask p) k \<and> (8 \<le> unat n \<longrightarrow> k \<noteq> unat n - 8))"
  using assms
  by (auto simp: enable_irq_def NUMBER_IRQS_def word_less_nat_alt Let_def bit_and_iff bit_not_iff
      irq_sub8 dest: bit_u8_less)

lemma disable_irq_bits:
  assumes "unat n < 16"
  shows "bit (slave_interrupt_mask (fst (disable_irq n p))) k =
      (bit (slave_interrupt_mask p) k \<or> 8 \<le> unat n \<and> k = unat n - 8)"
    and "bit (master_interrupt_mask (fst (disable_irq n p))) k =
      (bit (master_interrupt_mask p) k
       \<or> k = (if unat n < 8 then unat n else 2)
         \<and> (unat n < 8 \<or> slave_interrupt_mask (fst (disable_irq n p)) = 0xFF))"
proof -
  let ?s = "slave_interrupt_mask p OR irq_bit (unat n - 8)"
  have d: "disable_irq n p =
    (if unat n < 8
     then (p\<lparr>master_interrupt_mask := master_interrupt_mask p OR irq_bit (unat n)\<rparr>,
           [Outb (MASTER_8259_PORT + 1) (master_interrupt_mask p OR irq_bit (unat n))])
     else if ?s = 0xFF
     then (p\<lparr>master_interrupt_mask := master_interrupt_mask p OR irq_bit 2, slave_interrupt_mask := ?s\<rparr>,
           [Outb (SLAVE_8259_PORT + 1) ?s, Outb (MASTER_8259_PORT + 1) (master_interrupt_mask p OR irq_bit 2)])
     else (p\<lparr>slave_interrupt_mask := ?s\<rparr>, [Outb (SLAVE_8259_PORT + 1) ?s]))"
    using assms by (simp add: disable_irq_def NUMBER_IRQS_def word_less_nat_alt Let_def irq_sub8)
  show "bit (slave_interrupt_mask (fst (disable_irq n p))) k =
      (bit (slave_interrupt_mask p) k \<or> 8 \<le> unat n \<and> k = unat n - 8)"
    proof (cases "unat n < 8")
    case False
    then have "slave_interrupt_mask (fst (disable_irq n p)) = ?s" by (simp add: d)
    with False assms show ?thesis by (auto simp: bit_or_iff)
  qed (simp add: d)
  show "bit (master_interrupt_mask (fst (disable_irq n p))) k =
      (bit (master_interrupt_mask p) k
       \<or> k = (if unat n < 8 then unat n else 2)
         \<and> (unat n < 8 \<or> slave_interrupt_mask (fst (disable_irq n p)) = 0xFF))"
    by (cases "unat n < 8"; cases "?s = 0xFF") (auto simp: d bit_or_iff)
qed

text \<open>The operations as the kernel issues them.\<close>

datatype irq_op = Enable u32 | Disable u32

fun irq_num_of :: "irq_op \<Rightarrow> u32" where
  "irq_num_of (Enable n) = n"
| "irq_num_of (Disable n) = n"

fun irq_step :: "irq_op \<Rightarrow> pic \<Rightarrow> pic" where
  "irq_step (Enable n) p = fst (enable_irq n p)"
| "irq_step (Disable n) p = fst (disable_irq n p)"

definition valid_op :: "irq_op \<Rightarrow> bool" where
  "valid_op op \<longleftrightarrow> unat (irq_num_of op) < 16 \<and> unat (irq_num_of op) \<noteq> 2"

lemma irq_step_cascade:
  assumes "valid_op op" and "cascade_ok p"
  shows "cascade_ok (irq_step op p)"
proof (cases op)
  case (Enable n)
  show ?thesis
  proof (cases "unat n < 8")
    case True
    then show ?thesis using assms Enable
      by (auto simp: valid_op_def cascade_ok_def enable_irq_bits u8_eq_0xFF)
  next
    case False
    then have "\<not> bit (slave_interrupt_mask (fst (enable_irq n p))) (unat n - 8)"
      "unat n - 8 < 8" "unat n < 16"
      using assms Enable by (auto simp: valid_op_def enable_irq_bits)
    then show ?thesis using False Enable
      by (auto simp: cascade_ok_def enable_irq_bits u8_eq_0xFF)
  qed
next
  case (Disable n)
  then have n: "unat n < 16" "unat n \<noteq> 2" using assms(1) by (auto simp: valid_op_def)
  show ?thesis
  proof (cases "unat n < 8")
    case True
    have "slave_interrupt_mask (fst (disable_irq n p)) = slave_interrupt_mask p"
      using True n by (intro bit_eqI) (simp add: disable_irq_bits)
    then show ?thesis using True n assms(2) Disable
      by (auto simp: cascade_ok_def disable_irq_bits(2))
  next
    case False
    have "slave_interrupt_mask p = 0xFF \<Longrightarrow> slave_interrupt_mask (fst (disable_irq n p)) = 0xFF"
      using n by (auto simp: u8_eq_0xFF disable_irq_bits(1))
    then show ?thesis using False n assms(2) Disable
      by (auto simp: cascade_ok_def disable_irq_bits(2))
  qed
qed

lemma deliverable_slave:
  "cascade_ok p \<Longrightarrow> 8 \<le> m \<Longrightarrow> m < 16 \<Longrightarrow>
     deliverable p m \<longleftrightarrow> \<not> bit (slave_interrupt_mask p) (m - 8)"
  by (force simp: deliverable_def cascade_ok_def u8_eq_0xFF)

lemma irq_step_deliverable:
  assumes "valid_op op" and "cascade_ok p" and "m < 16" and "m \<noteq> 2"
  shows "deliverable (irq_step op p) m =
    (if m = unat (irq_num_of op) then (\<exists>n. op = Enable n) else deliverable p m)"
proof (cases "m < 8")
  case True
  then show ?thesis using assms
    by (cases op) (auto simp: deliverable_def valid_op_def enable_irq_bits disable_irq_bits)
next
  case False
  then show ?thesis
    using assms irq_step_cascade [OF assms(1,2)]
    by (cases op) (auto simp: deliverable_slave valid_op_def enable_irq_bits disable_irq_bits)
qed

text \<open>What the last operation on an IRQ said, and the last byte written to a port.\<close>

definition last_enabled :: "nat \<Rightarrow> irq_op list \<Rightarrow> bool" where
  "last_enabled m ops =
     fold (\<lambda>op b. if m = unat (irq_num_of op) then (\<exists>n. op = Enable n) else b) ops False"

definition port_value :: "u16 \<Rightarrow> out_event list \<Rightarrow> u8 \<Rightarrow> u8" where
  "port_value port evs v = fold (\<lambda>e b. case e of Outb p x \<Rightarrow> if p = port then x else b) evs v"

fun irq_events :: "irq_op \<Rightarrow> pic \<Rightarrow> out_event list" where
  "irq_events (Enable n) p = snd (enable_irq n p)"
| "irq_events (Disable n) p = snd (disable_irq n p)"

lemma irq_events_masks:
  "port_value (MASTER_8259_PORT + 1) (irq_events op p) (master_interrupt_mask p)
     = master_interrupt_mask (irq_step op p)"
  "port_value (SLAVE_8259_PORT + 1) (irq_events op p) (slave_interrupt_mask p)
     = slave_interrupt_mask (irq_step op p)"
  by (cases op; simp add: port_value_def enable_irq_def disable_irq_def Let_def
      MASTER_8259_PORT_def SLAVE_8259_PORT_def)+

text \<open>Running a sequence of operations: the masks and the port trace.\<close>

primrec irq_run :: "irq_op list \<Rightarrow> pic \<Rightarrow> pic \<times> out_event list" where
  "irq_run [] p = (p, [])"
| "irq_run (op # ops) p =
     (let (p', evs) = irq_run ops (irq_step op p) in (p', irq_events op p @ evs))"

lemma irq_run_fold: "fst (irq_run ops p) = fold irq_step ops p"
  by (induction ops arbitrary: p) (auto simp: Let_def case_prod_beta)

lemma port_value_append: "port_value q (xs @ ys) v = port_value q ys (port_value q xs v)"
  by (simp add: port_value_def)

lemma irq_run_ports:
  "port_value (MASTER_8259_PORT + 1) (snd (irq_run ops p)) (master_interrupt_mask p)
     = master_interrupt_mask (fst (irq_run ops p))"
  "port_value (SLAVE_8259_PORT + 1) (snd (irq_run ops p)) (slave_interrupt_mask p)
     = slave_interrupt_mask (fst (irq_run ops p))"
  by (induction ops arbitrary: p)
    (simp_all add: port_value_append irq_events_masks Let_def case_prod_beta, simp_all add: port_value_def)

lemma irq_run_deliverable:
  "\<forall>op \<in> set ops. valid_op op \<Longrightarrow> m < 16 \<Longrightarrow> m \<noteq> 2 \<Longrightarrow>
     cascade_ok (fold irq_step ops pic0) \<and> deliverable (fold irq_step ops pic0) m = last_enabled m ops"
proof (induction ops rule: rev_induct)
  case Nil
  have "\<forall>k < 8. bit (0xFF :: u8) k" using u8_eq_0xFF by blast
  then show ?case
    by (auto simp: pic0_def cascade_ok_def deliverable_def last_enabled_def)
next
  case (snoc op ops)
  then show ?case
    using irq_step_deliverable [of op "fold irq_step ops pic0" m] irq_step_cascade
    by (auto simp: last_enabled_def)
qed

section \<open>Properties\<close>

text \<open>
  C13. The interrupt masks follow the history of calls.  From the initial masks, after any
  sequence of enabling and disabling IRQs 0 to 15 other than the cascade line 2, an IRQ gets
  through both chips exactly when the last call that named it enabled it - the cascade line is
  opened and closed as needed and no other IRQ is disturbed - and the last bytes written to
  the two data ports are the two mask variables.
\<close>

theorem irq_masks_follow_history:
  assumes "\<forall>op \<in> set ops. valid_op op" and "m < 16" and "m \<noteq> 2"
  shows "deliverable (fst (irq_run ops pic0)) m = last_enabled m ops
    \<and> port_value (MASTER_8259_PORT + 1) (snd (irq_run ops pic0)) 0xFF
        = master_interrupt_mask (fst (irq_run ops pic0))
    \<and> port_value (SLAVE_8259_PORT + 1) (snd (irq_run ops pic0)) 0xFF
        = slave_interrupt_mask (fst (irq_run ops pic0))"
  using irq_run_deliverable [OF assms] irq_run_ports [of ops pic0]
  by (simp add: irq_run_fold pic0_def)

lemma irq_masks_follow_history_witness:
  "deliverable (fst (irq_run [Enable 8, Enable 1, Disable 1] pic0)) 8
    \<and> \<not> deliverable (fst (irq_run [Enable 8, Enable 1, Disable 1] pic0)) 1"
  using irq_masks_follow_history [of "[Enable 8, Enable 1, Disable 1]" 8]
    irq_masks_follow_history [of "[Enable 8, Enable 1, Disable 1]" 1]
  by (simp add: valid_op_def last_enabled_def)

end
