(* ===== verification/Kernel.thy ===== *)
theory Kernel
  imports Vfs Paging Terminal_Spec Pic8259
begin

text \<open>
  The state of the running kernel and its system calls, \<^verbatim>\<open>mp3/student-distrib/syscalls.c\<close> and
  \<^verbatim>\<open>pcb.h\<close>.  Process control blocks stand at the addresses the code computes, below 8 MB; the
  current one is found from the kernel stack pointer.  The program page of each page
  directory is a byte memory of its own (theory \<open>Paging\<close> shows that the frames are separate).

  A call that leaves the kernel does not return a value but hands over control; its result is
  a \<open>transfer\<close>.  A read that has to wait has no result yet.

  The calls check few of the pointers they are given.  What they load from outside the program
  page is arbitrary (\<open>out\<close>): other mapped pages may hold anything, and an unmapped address only
  stops the machine.  What they store there can hit control blocks, page tables and code; a
  state after such a store is not a state of the model, and the step relation of theory \<open>Sched\<close>
  says as a premise (\<open>own_buffers\<close>) that buffers to be filled lie in the program page.
  \<open>None\<close> stands for the executions without a next state: such stores, calls through a null
  operations table, division by zero, strings that never end.
\<close>

section \<open>State\<close>

definition P_PROCESS_BASE :: u32 where "P_PROCESS_BASE = 0x800000"
definition P_PROCESS_OFFSET :: u32 where "P_PROCESS_OFFSET = 0x2000"
definition V_PROGRAM_BASE :: u32 where "V_PROGRAM_BASE = 0x8048000"
definition MB_256 :: u32 where "MB_256 = 0x10000000"
definition MB_128 :: u32 where "MB_128 = 0x8000000"
definition MB_4 :: u32 where "MB_4 = 0x400000"
definition B_4 :: u32 where "B_4 = 4"
definition PCB_MASK :: u32 where "PCB_MASK = 0x1FFF"

text \<open>Code addresses: a user address, or a label of the kernel.\<close>

datatype code_ptr = Null_code | User_code u32 | End_of_execute | EIP_RETURN

record pcb =
  file_array :: "file_t list"
  parent_num :: nat
  parent_esp :: u32
  current_esp :: u32
  parent_ebp :: u32
  current_ebp :: u32
  current_eip :: code_ptr
  exec_ret_addr :: code_ptr
  rtc_count :: u32
  arg :: "u8 list"
  num_char_in_arg :: nat
  terminal_index :: nat
  is_user_mode :: bool

record kernel =
  ktty :: tty
  pcb_mem :: "u32 \<Rightarrow> pcb"
  active :: "bool list"
  curr_process :: nat
  terminal_iter :: nat
  tss_esp0 :: u32
  esp :: u32
  ebp :: u32
  int_flag :: bool
  kpaging :: paging
  user_mem :: "nat \<Rightarrow> mem"

datatype transfer =
    Returns int
  | To_user code_ptr u32 u32
  | To_kernel code_ptr u32 u32
  | Execute_return code_ptr u32 u32 u8

definition getCurrentProcessPCB :: "kernel \<Rightarrow> u32" where
  "getCurrentProcessPCB k = esp k AND NOT PCB_MASK"

definition getProcessPCB :: "nat \<Rightarrow> u32" where
  "getProcessPCB pid = P_PROCESS_BASE - (of_nat pid + 1) * P_PROCESS_OFFSET"

definition get_kernel_stack_bottom :: "nat \<Rightarrow> u32" where
  "get_kernel_stack_bottom pid = P_PROCESS_BASE - of_nat pid * P_PROCESS_OFFSET - B_4"

abbreviation cur_pcb :: "kernel \<Rightarrow> pcb" where
  "cur_pcb k \<equiv> pcb_mem k (getCurrentProcessPCB k)"

definition upd_pcb :: "u32 \<Rightarrow> (pcb \<Rightarrow> pcb) \<Rightarrow> kernel \<Rightarrow> kernel" where
  "upd_pcb a f k = k\<lparr>pcb_mem := (pcb_mem k)(a := f (pcb_mem k a))\<rparr>"

definition set_files :: "file_t list \<Rightarrow> kernel \<Rightarrow> kernel" where
  "set_files fa k = upd_pcb (getCurrentProcessPCB k) (\<lambda>p. p\<lparr>file_array := fa\<rparr>) k"

definition load_directory :: "int \<Rightarrow> kernel \<Rightarrow> kernel" where
  "load_directory i k = k\<lparr>kpaging := loadPageDirectory i (kpaging k)\<rparr>"

definition set_active_process :: "nat \<Rightarrow> int \<Rightarrow> kernel \<Rightarrow> kernel" where
  "set_active_process t v k = k\<lparr>ktty := set_term t (\<lambda>r. r\<lparr>active_process := v\<rparr>) (ktty k)\<rparr>"

text \<open>The program page that is mapped now, and buffers inside it.\<close>

definition cur_dir :: "kernel \<Rightarrow> nat" where
  "cur_dir k = nat (cr3 (kpaging k))"

definition user_range :: "u32 \<Rightarrow> nat \<Rightarrow> bool" where
  "user_range a n \<longleftrightarrow> 0x8000000 \<le> unat a \<and> unat a + n \<le> 0x8400000"

text \<open>
  Bytes stored through a pointer of the caller, one after the other as the loops of the calls
  store them.  There is no check in the code; \<open>None\<close> is a store outside the program page.
\<close>

definition store_user :: "u32 \<Rightarrow> u8 list \<Rightarrow> kernel \<Rightarrow> kernel option" where
  "store_user a bs k =
     (if bs = [] then Some k
      else if user_range a (length bs)
      then Some (k\<lparr>user_mem := (user_mem k)(cur_dir k := wr (user_mem k (cur_dir k)) a bs)\<rparr>)
      else None)"

text \<open>Bytes loaded through a pointer of the caller, wherever it points.\<close>

definition user_byte :: "(u32 \<Rightarrow> u8) \<Rightarrow> kernel \<Rightarrow> u32 \<Rightarrow> u8" where
  "user_byte out k a = (if user_range a 1 then user_mem k (cur_dir k) a else out a)"

definition load_user :: "(u32 \<Rightarrow> u8) \<Rightarrow> u32 \<Rightarrow> nat \<Rightarrow> kernel \<Rightarrow> u8 list" where
  "load_user out a n k = rd (user_byte out k) a n"

text \<open>
  \<open>context_switch\<close> and \<open>kernel_context_switch\<close> set the interrupt flag in what they pop.  The
  \<open>iret\<close> of the second stays in the kernel and pops neither \<open>ss\<close> nor \<open>esp\<close>: the stack pointer
  still points into the stack of the process that is left, and the \<open>leave\<close> behind the label
  \<open>EIP_RETURN\<close> takes it from \<open>ebp\<close>.
\<close>

definition context_switch :: "code_ptr \<Rightarrow> u32 \<Rightarrow> u32 \<Rightarrow> kernel \<Rightarrow> transfer \<times> kernel" where
  "context_switch eip sp bp k = (To_user eip sp bp, k\<lparr>int_flag := True\<rparr>)"

definition kernel_context_switch :: "code_ptr \<Rightarrow> u32 \<Rightarrow> u32 \<Rightarrow> kernel \<Rightarrow> transfer \<times> kernel" where
  "kernel_context_switch eip sp bp k = (To_kernel eip sp bp, k\<lparr>ebp := bp, int_flag := True\<rparr>)"

definition execute_return :: "code_ptr \<Rightarrow> u32 \<Rightarrow> u32 \<Rightarrow> u8 \<Rightarrow> kernel \<Rightarrow> transfer \<times> kernel" where
  "execute_return eip bp sp status k = (Execute_return eip bp sp status, k\<lparr>esp := sp, ebp := bp\<rparr>)"

text \<open>The entry point of the program in the page that is mapped, bytes 24 to 27 of its image.\<close>

definition entry_point :: "kernel \<Rightarrow> u32" where
  "entry_point k = le32 (user_mem k (cur_dir k)) (V_PROGRAM_BASE + 24)"

section \<open>Files\<close>

definition sys_open :: "image \<Rightarrow> (u32 \<Rightarrow> u8) option \<Rightarrow> kernel \<Rightarrow> (int \<times> kernel) option" where
  "sys_open fs filename k =
     (let fa = file_array (cur_pcb k)
      in case read_dentry_by_name fs filename of
           (_, None) \<Rightarrow> Some (-1, k)
         | (_, Some d) \<Rightarrow>
             if filetype d = 0 then
               (case file_open fs filename fa of
                  None \<Rightarrow> None
                | Some (r, fa1) \<Rightarrow>
                    if r = -1 then Some (-1, set_files fa1 k)
                    else map_option (\<lambda>(r2, fa2). (r2, set_files fa2 k)) (file_open fs filename fa1))
             else if filetype d = 1 then
               map_option (\<lambda>(r, fa1). (r, set_files fa1 k)) (directory_open fs filename fa)
             else if filetype d = 2 then
               map_option (\<lambda>(r, fa1). (r, set_files fa1 k)) (file_open fs filename fa)
             else Some (-1, k))"

text \<open>The close entry of an operations table; a null table has none.\<close>

fun closer :: "ops_table \<Rightarrow> file_t list \<Rightarrow> int \<Rightarrow> (int \<times> file_t list) option" where
  "closer No_ops fa fd = None"
| "closer Terminal_ops fa fd = Some (terminal_close, fa)"
| "closer File_ops fa fd = Some (file_close fa fd)"
| "closer Directory_ops fa fd = Some (directory_close fa fd)"
| "closer Rtc_ops fa fd = Some (rtc_close fa (nat fd))"

definition sys_close :: "int \<Rightarrow> kernel \<Rightarrow> (int \<times> kernel) option" where
  "sys_close fd k =
     (let fa = file_array (cur_pcb k)
      in if fd < 2 \<or> fd > 7 then Some (-1, k)
         else if flags (fa ! nat fd) = FILE_AVAIL then Some (-1, k)
         else map_option (\<lambda>(r, fa1). (r, set_files fa1 k))
                (closer (file_ops_table_ptr (fa ! nat fd)) fa fd))"

text \<open>
  \<open>read\<close>.  The first component of the result is \<open>None\<close> while the call has to wait: a terminal
  read looks again after the next interrupt, an RTC read returns when its count has run down.
  \<open>before\<close> is the byte in front of the terminal's line buffer.  \<open>read_copy\<close> is the part of
  \<open>terminal_read\<close> behind its loop.
\<close>

definition read_copy :: "u32 \<Rightarrow> u32 \<Rightarrow> kernel \<Rightarrow> (int option \<times> kernel) option" where
  "read_copy buf nbytes k =
     (let i = terminal_index (cur_pcb k); (bs, t1) = read_take (term_of (ktty k) i) (read_cap nbytes)
      in map_option (\<lambda>k2. (Some (int (length bs)), k2))
           (store_user buf bs (k\<lparr>ktty := set_term i (\<lambda>_. t1) (ktty k)\<rparr>)))"

definition read_terminal ::
    "u8 \<Rightarrow> nat \<Rightarrow> u32 \<Rightarrow> u32 \<Rightarrow> kernel \<Rightarrow> (int option \<times> kernel) option" where
  "read_terminal before fd buf nbytes k =
     (let i = terminal_index (cur_pcb k); t = term_of (ktty k) i; n = read_cap nbytes
      in if fd = 1 \<or> buf = 0 then Some (Some (-1), k)
         else (let k1 = k\<lparr>int_flag := True\<rparr>
               in if read_ready before t n then read_copy buf nbytes k1 else Some (None, k1)))"

definition read_rtc :: "nat \<Rightarrow> kernel \<Rightarrow> (int option \<times> kernel) option" where
  "read_rtc fd k =
     (case rtc_read_count (file_array (cur_pcb k)) fd of
        None \<Rightarrow> None
      | Some c \<Rightarrow>
          Some (if c = 0 then Some 0 else None,
                upd_pcb (getCurrentProcessPCB k) (\<lambda>p. p\<lparr>rtc_count := c\<rparr>) k))"

definition sys_read ::
    "image \<Rightarrow> u8 \<Rightarrow> int \<Rightarrow> u32 \<Rightarrow> u32 \<Rightarrow> kernel \<Rightarrow> (int option \<times> kernel) option" where
  "sys_read fs before fd buf nbytes k =
     (let fa = file_array (cur_pcb k); i = nat fd
      in if fd < 0 \<or> fd > 7 then Some (Some (-1), k)
         else if flags (fa ! i) = FILE_AVAIL then Some (Some (-1), k)
         else (case file_ops_table_ptr (fa ! i) of
                 No_ops \<Rightarrow> None
               | Terminal_ops \<Rightarrow> read_terminal before i buf nbytes k
               | File_ops \<Rightarrow>
                   (let (r, bs, fa1) = file_read fs fa i nbytes
                    in map_option (\<lambda>k1. (Some r, set_files fa1 k1)) (store_user buf bs k))
               | Directory_ops \<Rightarrow>
                   (let (r, bs, fa1) = directory_read fs fa i
                    in map_option (\<lambda>k1. (Some r, set_files fa1 k1)) (store_user buf bs k))
               | Rtc_ops \<Rightarrow> read_rtc i k))"

definition write_terminal :: "(u32 \<Rightarrow> u8) \<Rightarrow> nat \<Rightarrow> u32 \<Rightarrow> u32 \<Rightarrow> kernel \<Rightarrow> int \<times> kernel" where
  "write_terminal out fd buf nbytes k =
     (let i = terminal_index (cur_pcb k)
      in if fd = 0 \<or> buf = 0 then (-1, k)
         else (let (r, t) = terminal_write i fd (Some (load_user out buf (nat (sint nbytes)) k)) (ktty k)
               in (r, k\<lparr>ktty := t\<rparr>)))"

definition write_rtc :: "(u32 \<Rightarrow> u8) \<Rightarrow> nat \<Rightarrow> u32 \<Rightarrow> u32 \<Rightarrow> kernel \<Rightarrow> int \<times> kernel" where
  "write_rtc out fd buf nbytes k =
     (let fa = file_array (cur_pcb k)
      in if buf = 0 \<or> nbytes \<noteq> 4 then (-1, k)
         else (let (r, fa1) = rtc_write fa fd (Some (le32 (user_byte out k) buf)) nbytes
               in (r, set_files fa1 k)))"

definition sys_write :: "(u32 \<Rightarrow> u8) \<Rightarrow> int \<Rightarrow> u32 \<Rightarrow> u32 \<Rightarrow> kernel \<Rightarrow> (int \<times> kernel) option" where
  "sys_write out fd buf nbytes k =
     (let fa = file_array (cur_pcb k); i = nat fd
      in if fd < 0 \<or> fd > 7 then Some (-1, k)
         else if flags (fa ! i) = FILE_AVAIL then Some (-1, k)
         else (case file_ops_table_ptr (fa ! i) of
                 No_ops \<Rightarrow> None
               | Terminal_ops \<Rightarrow> Some (write_terminal out i buf nbytes k)
               | File_ops \<Rightarrow> Some (fst (file_write fa i), k)
               | Directory_ops \<Rightarrow> Some (fst (directory_write fa i), k)
               | Rtc_ops \<Rightarrow> Some (write_rtc out i buf nbytes k)))"

section \<open>Processes\<close>

text \<open>The loop of \<open>halt\<close> over the descriptors.\<close>

fun close_files :: "nat list \<Rightarrow> kernel \<Rightarrow> kernel option" where
  "close_files [] k = Some k"
| "close_files (fd # fds) k =
     (case sys_close (int fd) k of None \<Rightarrow> None | Some (_, k1) \<Rightarrow> close_files fds k1)"

definition halt :: "u8 \<Rightarrow> kernel \<Rightarrow> (transfer \<times> kernel) option" where
  "halt status k0 =
     (let k = k0\<lparr>int_flag := False\<rparr>; p = cur_pcb k; parent = parent_num p
      in case close_files [2..<NUM_MAX_OPEN_FILES] k of
           None \<Rightarrow> None
         | Some k1 \<Rightarrow>
             if parent = 0
             then Some (context_switch (User_code (entry_point k1)) (MB_128 + MB_4 - B_4) 0 k1)
             else (let k2 = load_directory (int parent - 1) k1;
                       k3 = set_active_process (terminal_index (cur_pcb k2)) (int parent) k2;
                       k4 = k3\<lparr>tss_esp0 := get_kernel_stack_bottom parent,
                               active := (active k3)[curr_process k3 - 1 := False],
                               curr_process := parent\<rparr>
                   in Some (execute_return (exec_ret_addr p) (parent_ebp p) (parent_esp p) status k4)))"

text \<open>The free slot \<open>execute\<close> and \<open>switch_terminal\<close> look for; the number of slots when there is none.\<close>

fun find_inactive :: "bool list \<Rightarrow> nat" where
  "find_inactive [] = 0"
| "find_inactive (a # as) = (if \<not> a then 0 else Suc (find_inactive as))"

text \<open>The first word of the command: the bytes stored in \<open>filename\<close> and the index after them.\<close>

function parse_filename :: "(u32 \<Rightarrow> u8) \<Rightarrow> nat \<Rightarrow> u8 list \<times> nat" where
  "parse_filename command i =
     (if i < 32
      then (if command (of_nat i) = ch CHR '' '' then ([0], i + 1)
            else if command (of_nat i) = 0 then ([0], i)
            else (let (bs, i') = parse_filename command (i + 1) in (command (of_nat i) # bs, i')))
      else ([], i))"
  by pat_completeness auto
termination
  by (relation "measure (\<lambda>(command, i). 32 - i)") auto

declare parse_filename.simps [simp del]

partial_function (option) skip_spaces :: "(u32 \<Rightarrow> u8) \<Rightarrow> nat \<Rightarrow> nat option" where
  "skip_spaces command i =
     (if command (of_nat i) = ch CHR '' '' then skip_spaces command (i + 1) else Some i)"

text \<open>The argument loop; the count stays as it was when neither newline nor NUL is found.\<close>

function parse_args :: "(u32 \<Rightarrow> u8) \<Rightarrow> nat \<Rightarrow> nat \<Rightarrow> u8 list \<times> nat \<Rightarrow> u8 list \<times> nat" where
  "parse_args command i j an =
     (if i < TERMINAL_BUFFER_SIZE
      then (let c = command (of_nat i); a = (fst an)[j := c]
            in if c = 10 then (a[j := 0], j + 1)
               else if c = 0 then (a, j + 1)
               else parse_args command (i + 1) (j + 1) (a, snd an))
      else an)"
  by pat_completeness auto
termination
  by (relation "measure (\<lambda>(command, i, j, an). TERMINAL_BUFFER_SIZE - i)") auto

declare parse_args.simps [simp del]

text \<open>\<open>junk\<close> is what the stack holds behind the bytes written into \<open>filename\<close>.\<close>

definition filename_of :: "(u32 \<Rightarrow> u8) \<Rightarrow> u8 list \<Rightarrow> u32 \<Rightarrow> u8" where
  "filename_of junk bs a = (if unat a < length bs then bs ! unat a else junk a)"

text \<open>The part of \<open>execute\<close> after the program has been loaded.\<close>

definition start_process :: "nat \<Rightarrow> kernel \<Rightarrow> transfer \<times> kernel" where
  "start_process process_id k =
     (let child = getProcessPCB process_id;
          k1 = k\<lparr>active := (active k)[process_id - 1 := True],
                 tss_esp0 := get_kernel_stack_bottom process_id\<rparr>;
          t = terminal_index (cur_pcb k1);
          k2 = upd_pcb child (\<lambda>p. p\<lparr>file_array := init_file_array, parent_num := curr_process k,
                                    exec_ret_addr := End_of_execute, terminal_index := t,
                                    parent_esp := esp k, parent_ebp := ebp k\<rparr>) k1;
          k3 = set_active_process t (int process_id) k2
      in context_switch (User_code (entry_point k3)) (MB_128 + MB_4 - B_4) 0
           (k3\<lparr>curr_process := process_id\<rparr>))"

definition execute ::
    "image \<Rightarrow> (u32 \<Rightarrow> u8) \<Rightarrow> (u32 \<Rightarrow> u8) \<Rightarrow> kernel \<Rightarrow> (transfer \<times> kernel) option" where
  "execute fs junk command k0 =
     (let k = k0\<lparr>int_flag := False\<rparr>; slot = find_inactive (active k)
      in if slot = NUM_MAX_PROCESSES then Some (Returns (-1), k)
         else (let process_id = slot + 1; child = getProcessPCB process_id;
                   (name, i) = parse_filename command 0
               in case skip_spaces command i of
                    None \<Rightarrow> None
                  | Some i1 \<Rightarrow>
                      (let (a, n) = parse_args command i1 0 (arg (pcb_mem k child), num_char_in_arg (pcb_mem k child));
                           k1 = upd_pcb child (\<lambda>p. p\<lparr>arg := a, num_char_in_arg := n\<rparr>) k;
                           k2 = load_directory (int process_id - 1) k1
                       in case load_program fs (filename_of junk name) (user_mem k2 (process_id - 1)) V_PROGRAM_BASE of
                            None \<Rightarrow> None
                          | Some (r, m) \<Rightarrow>
                              (let k3 = k2\<lparr>user_mem := (user_mem k2)(process_id - 1 := m)\<rparr>
                               in if r = -1 then Some (Returns (-1), load_directory (int (curr_process k3) - 1) k3)
                                  else Some (start_process process_id k3)))))"

section \<open>The other calls and the dispatcher\<close>

definition getargs :: "u32 \<Rightarrow> u32 \<Rightarrow> kernel \<Rightarrow> (int \<times> kernel) option" where
  "getargs buf nbytes k =
     (let p = cur_pcb k
      in if buf = 0 \<or> buf > MB_128 + MB_4 \<or> buf < MB_128 then Some (-1, k)
         else if num_char_in_arg p = 1 then Some (-1, k)
         else if sint nbytes < int (num_char_in_arg p) then Some (-1, k)
         else map_option (Pair 0) (store_user buf (take (num_char_in_arg p) (arg p)) k))"

definition vidmap :: "layout \<Rightarrow> u32 \<Rightarrow> kernel \<Rightarrow> (int \<times> kernel) option" where
  "vidmap L screen_start k0 =
     (let k = k0\<lparr>int_flag := False\<rparr>
      in if screen_start = 0 \<or> screen_start > MB_128 + MB_4 - B_4 \<or> screen_start < MB_128
         then Some (-1, k)
         else if curr_process k = 0 then None
         else map_option (\<lambda>k1. (0, k1\<lparr>kpaging := map_video L (curr_process k1 - 1) (kpaging k1),
                                      int_flag := int_flag k0\<rparr>))
                (store_user screen_start (dword_bytes MB_256) k))"

definition set_handler :: "u32 \<Rightarrow> u32 \<Rightarrow> kernel \<Rightarrow> (int \<times> kernel) option" where
  "set_handler signum handler k = Some (-1, k)"

definition sigreturn :: "kernel \<Rightarrow> (int \<times> kernel) option" where
  "sigreturn k = Some (-1, k)"

text \<open>
  \<open>syscall_dispatcher\<close>: the call number in \<open>eax\<close>, the arguments in \<open>ebx\<close>, \<open>ecx\<close>, \<open>edx\<close>.
  A string of the caller is what its pointer leads to.
\<close>

definition user_string :: "(u32 \<Rightarrow> u8) \<Rightarrow> u32 \<Rightarrow> kernel \<Rightarrow> (u32 \<Rightarrow> u8)" where
  "user_string out a k = (\<lambda>i. user_byte out k (a + i))"

datatype result = Done transfer | Waiting

definition returns :: "(int \<times> kernel) option \<Rightarrow> (result \<times> kernel) option" where
  "returns r = map_option (\<lambda>(v, k). (Done (Returns v), k)) r"

definition reads :: "(int option \<times> kernel) option \<Rightarrow> (result \<times> kernel) option" where
  "reads r = map_option (\<lambda>(v, k). (case v of None \<Rightarrow> Waiting | Some x \<Rightarrow> Done (Returns x), k)) r"

definition transfers :: "(transfer \<times> kernel) option \<Rightarrow> (result \<times> kernel) option" where
  "transfers r = map_option (\<lambda>(t, k). (Done t, k)) r"

definition syscall_dispatcher ::
    "layout \<Rightarrow> image \<Rightarrow> (u32 \<Rightarrow> u8) \<Rightarrow> u8 \<Rightarrow> (u32 \<Rightarrow> u8) \<Rightarrow> u32 \<Rightarrow> u32 \<Rightarrow> u32 \<Rightarrow> u32 \<Rightarrow> kernel
       \<Rightarrow> (result \<times> kernel) option" where
  "syscall_dispatcher L fs junk before out eax ebx ecx edx k =
     (if eax = 0 \<or> eax > 10 then Some (Done (Returns (-1)), k)
      else if eax = 1 then transfers (halt (ucast ebx) k)
      else if eax = 2 then transfers (execute fs junk (user_string out ebx k) k)
      else if eax = 3 then reads (sys_read fs before (sint ebx) ecx edx k)
      else if eax = 4 then returns (sys_write out (sint ebx) ecx edx k)
      else if eax = 5 then
        returns (sys_open fs (if ebx = 0 then None else Some (user_string out ebx k)) k)
      else if eax = 6 then returns (sys_close (sint ebx) k)
      else if eax = 7 then returns (getargs ebx ecx k)
      else if eax = 8 then returns (vidmap L ebx k)
      else if eax = 9 then returns (set_handler ebx ecx k)
      else returns (sigreturn k))"

text \<open>
  The most bytes a call can store at its buffer, and the programs that pass a buffer for them in
  their own page.  The code asks this of nobody: \<open>read\<close> takes any pointer, \<open>getargs\<close> looks only
  at the start of the buffer.  (\<open>vidmap\<close> checks the whole double word it stores.)
\<close>

definition read_fills :: "image \<Rightarrow> nat \<Rightarrow> u32 \<Rightarrow> u32 \<Rightarrow> kernel \<Rightarrow> nat" where
  "read_fills fs fd buf nbytes k =
     (let f = file_array (cur_pcb k) ! fd
      in case file_ops_table_ptr f of
           Terminal_ops \<Rightarrow> if buf = 0 then 0 else min 128 (unat nbytes)
         | File_ops \<Rightarrow> min (unat nbytes) (unat (inode_length fs (inode_num f)))
         | Directory_ops \<Rightarrow> 33
         | _ \<Rightarrow> 0)"

definition own_buffers :: "image \<Rightarrow> u32 \<Rightarrow> u32 \<Rightarrow> u32 \<Rightarrow> u32 \<Rightarrow> kernel \<Rightarrow> bool" where
  "own_buffers fs eax ebx ecx edx k \<longleftrightarrow>
     (eax = 3 \<and> 0 \<le> sint ebx \<and> sint ebx \<le> 7 \<longrightarrow>
        (let n = read_fills fs (nat (sint ebx)) ecx edx k in n = 0 \<or> user_range ecx n))
     \<and> (eax = 7 \<and> MB_128 \<le> ebx \<and> ebx \<le> MB_128 + MB_4 \<longrightarrow>
          user_range ebx (num_char_in_arg (cur_pcb k)))"

section \<open>Addresses of the control blocks\<close>

text \<open>The 8 KB block of kernel stack and control block of process \<open>pid\<close>.\<close>

definition in_stack :: "nat \<Rightarrow> u32 \<Rightarrow> bool" where
  "in_stack pid sp \<longleftrightarrow> unat (getProcessPCB pid) \<le> unat sp \<and> unat sp \<le> unat (get_kernel_stack_bottom pid)"

lemma less7: "(p :: nat) < 7 \<Longrightarrow> p = 0 \<or> p = 1 \<or> p = 2 \<or> p = 3 \<or> p = 4 \<or> p = 5 \<or> p = 6"
  by linarith

lemma pcb_addresses:
  assumes "pid < 7"
  shows "unat (getProcessPCB pid) = 0x800000 - (pid + 1) * 0x2000"
    and "unat (get_kernel_stack_bottom pid) = 0x800000 - pid * 0x2000 - 4"
  using less7 [OF assms]
  by (elim disjE; simp add: getProcessPCB_def get_kernel_stack_bottom_def P_PROCESS_BASE_def
      P_PROCESS_OFFSET_def B_4_def)+

lemma getProcessPCB_inj:
  assumes "p < 7" and "q < 7" shows "(getProcessPCB p = getProcessPCB q) = (p = q)"
proof
  assume "getProcessPCB p = getProcessPCB q"
  then have "unat (getProcessPCB p) = unat (getProcessPCB q)" by simp
  then show "p = q" using assms unfolding pcb_addresses(1) [OF assms(1)] pcb_addresses(1) [OF assms(2)] by simp
qed simp

lemma mask13: "(0x1FFF :: u32) = mask 13"
  by (simp add: mask_eq_exp_minus_1)

lemma unat_and_not_mask: "unat (sp AND NOT (mask n) :: u32) = unat sp div 2 ^ n * 2 ^ n"
proof -
  have "sp AND NOT (mask n) = push_bit n (drop_bit n sp)"
    by (rule bit_eqI) (auto simp: bit_and_iff bit_not_iff bit_mask_iff bit_push_bit_iff bit_drop_bit_eq)
  moreover have "unat (push_bit n (drop_bit n sp)) = unat sp div 2 ^ n * 2 ^ n"
  proof -
    have le: "unat sp div 2 ^ n * 2 ^ n \<le> unat sp" by simp
    have "unat (push_bit n (drop_bit n sp)) = take_bit 32 (unat sp div 2 ^ n * 2 ^ n)"
      by (simp only: unsigned_push_bit_eq unat_drop) (simp add: push_bit_eq_mult)
    also have "\<dots> = unat sp div 2 ^ n * 2 ^ n"
      by (rule take_bit_nat_eq_self) (rule le_less_trans [OF le], simp)
    finally show ?thesis .
  qed
  ultimately show ?thesis by simp
qed

text \<open>On the kernel stack of a process the code finds the control block of that process.\<close>

lemma current_pcb:
  assumes "pid < 7" and "in_stack pid (esp k)"
  shows "getCurrentProcessPCB k = getProcessPCB pid"
proof -
  have "unat (getCurrentProcessPCB k) = unat (esp k) div 8192 * 8192"
    using unat_and_not_mask [of "esp k" 13] unfolding getCurrentProcessPCB_def PCB_MASK_def mask13 by simp
  also have "unat (esp k) div 8192 = 1023 - pid"
  proof (rule div_nat_eqI)
    have "8380416 - pid * 8192 \<le> unat (esp k)" "unat (esp k) \<le> 8388604 - pid * 8192"
      using assms(2) by (simp_all add: in_stack_def pcb_addresses [OF assms(1)])
    then show "8192 * (1023 - pid) \<le> unat (esp k)" "unat (esp k) < 8192 * Suc (1023 - pid)"
      using assms(1) by (simp_all add: algebra_simps diff_mult_distrib2)
  qed
  finally have "unat (getCurrentProcessPCB k) = unat (getProcessPCB pid)"
    using assms(1) by (simp add: pcb_addresses [OF assms(1)])
  then show ?thesis by (simp add: word_unat_eq_iff)
qed

end
