(* ===== verification/Sched.thy ===== *)
theory Sched
  imports Kernel
begin

text \<open>
  Terminal switching with the start of new shells (\<open>switch_terminal\<close>, \<^verbatim>\<open>terminal.c\<close>), the
  round-robin scheduler (\<^verbatim>\<open>scheduler.c\<close>), the interrupt entry points, and the machine they
  form: a step relation of system calls and interrupts, and the invariant that its reachable
  states keep.
\<close>

section \<open>Operations\<close>

definition shell_name :: "u32 \<Rightarrow> u8" where
  "shell_name a = (if unat a < 5 then (chars ''shell'') ! unat a else 0)"

text \<open>The screen and page-table part of \<open>switch_terminal\<close>, the same in both of its branches.\<close>

definition swap_screens :: "nat \<Rightarrow> kernel \<Rightarrow> kernel" where
  "swap_screens nxt k =
     (let t = ktty k; a = active_terminal_index t
      in load_directory (int (curr_process k) - 1)
           (k\<lparr>ktty := switch_screen nxt t,
              kpaging := remap_video (storage_location (term_of t a)) (storage_location (term_of t nxt)) (kpaging k)\<rparr>))"

definition switch_terminal :: "image \<Rightarrow> nat \<Rightarrow> kernel \<Rightarrow> kernel option" where
  "switch_terminal fs nxt k0 =
     (if nxt > 2 \<or> nxt = active_terminal_index (ktty k0) then Some k0
      else (let k = k0\<lparr>int_flag := False\<rparr>
            in if active_process (term_of (ktty k) nxt) \<noteq> -1
               then Some ((swap_screens nxt k)\<lparr>int_flag := int_flag k0\<rparr>)
               else (let slot = find_inactive (active k)
                     in if slot \<ge> NUM_MAX_PROCESSES then Some k
                        else (let process_id = slot + 1; shell = getProcessPCB process_id;
                                  k1 = swap_screens nxt k;
                                  k2 = upd_pcb shell (\<lambda>p. p\<lparr>arg := (arg p)[0 := 0], num_char_in_arg := 1,
                                         parent_num := 0, terminal_index := nxt, parent_esp := 0,
                                         parent_ebp := 0, exec_ret_addr := Null_code\<rparr>) k1;
                                  k3 = k2\<lparr>active := (active k2)[process_id - 1 := True]\<rparr>;
                                  k4 = load_directory (int process_id - 1) k3
                              in case load_program fs shell_name (user_mem k4 (process_id - 1)) V_PROGRAM_BASE of
                                   None \<Rightarrow> None
                                 | Some (r, m) \<Rightarrow>
                                     (let k5 = k4\<lparr>user_mem := (user_mem k4)(process_id - 1 := m)\<rparr>;
                                          k6 = upd_pcb shell (\<lambda>p. p\<lparr>file_array := init_file_array,
                                                 current_eip := User_code (entry_point k5), current_ebp := 0,
                                                 current_esp := MB_128 + MB_4 - B_4, is_user_mode := True\<rparr>) k5;
                                          k7 = load_directory (int (curr_process k6) - 1) k6
                                      in Some ((set_active_process nxt (int process_id) k7)
                                                 \<lparr>int_flag := int_flag k0\<rparr>))))))"

text \<open>The search of \<open>schedule\<close> for the next terminal with a process; it does not end without one.\<close>

partial_function (option) find_running :: "terminal list \<Rightarrow> nat \<Rightarrow> nat option" where
  "find_running ts iter =
     (let i = (iter + 1) mod NUM_TERMINALS
      in if active_process (ts ! i) = -1 then find_running ts i else Some i)"

definition out_ports :: "out_event list \<Rightarrow> kernel \<Rightarrow> kernel" where
  "out_ports es k = k\<lparr>ktty := (ktty k)\<lparr>ports := ports (ktty k) @ es\<rparr>\<rparr>"

definition schedule :: "kernel \<Rightarrow> (transfer \<times> kernel) option" where
  "schedule k =
     (let k1 = upd_pcb (getCurrentProcessPCB k)
                 (\<lambda>p. p\<lparr>current_ebp := ebp k, current_esp := esp k, current_eip := EIP_RETURN,
                        is_user_mode := False\<rparr>) k
      in case find_running (terminals (ktty k1)) (terminal_iter k1) of
           None \<Rightarrow> None
         | Some i \<Rightarrow>
             (let pid = nat (active_process (term_of (ktty k1) i));
                  k2 = load_directory (int pid - 1) (k1\<lparr>terminal_iter := i\<rparr>);
                  k3 = k2\<lparr>tss_esp0 := get_kernel_stack_bottom pid, curr_process := pid\<rparr>;
                  nx = pcb_mem k3 (getProcessPCB pid)
              in Some (if is_user_mode nx
                       then context_switch (current_eip nx) (current_esp nx) (current_ebp nx) (out_ports (send_eoi 0) k3)
                       else kernel_context_switch (current_eip nx) (current_esp nx) (current_ebp nx) k3)))"

definition PIT_IRQ_PORT :: u16 where "PIT_IRQ_PORT = 0x40"
definition PIT_CMD_PORT :: u16 where "PIT_CMD_PORT = 0x43"
definition PIT_INT_MODE :: u8 where "PIT_INT_MODE = 0x36"

definition pit_init :: "out_event list" where
  "pit_init =
     (let rate = of_nat (1193180 div 100) :: u16
      in [Outb PIT_CMD_PORT PIT_INT_MODE, Outb PIT_IRQ_PORT (ucast (rate AND 0xFF)),
          Outb PIT_IRQ_PORT (ucast (drop_bit 8 rate))])"

text \<open>The interrupt entry points of \<^verbatim>\<open>interrupt_handler.S\<close>.\<close>

definition key_handler :: "image \<Rightarrow> u8 \<Rightarrow> u8 \<Rightarrow> kernel \<Rightarrow> kernel option" where
  "key_handler fs sc nxt k =
     (let (t, req) = handle_keypress sc nxt (ktty k); k1 = k\<lparr>ktty := t\<rparr>
      in map_option (out_ports (send_eoi 1))
           (case req of None \<Rightarrow> Some k1 | Some n \<Rightarrow> switch_terminal fs n k1))"

definition rtc_handler :: "kernel \<Rightarrow> kernel" where
  "rtc_handler k =
     out_ports (rtc_int_events @ send_eoi 8)
       (fold (\<lambda>pid. upd_pcb (getProcessPCB pid)
                (\<lambda>p. if rtc_count p \<noteq> 0 then p\<lparr>rtc_count := rtc_count p - 1\<rparr> else p))
          [1..<NUM_MAX_PROCESSES + 1] k)"

definition scheduler_handler :: "kernel \<Rightarrow> (transfer \<times> kernel) option" where
  "scheduler_handler k =
     (case schedule k of
        None \<Rightarrow> None
      | Some (To_kernel eip sp bp, k1) \<Rightarrow> Some (To_kernel eip sp bp, out_ports (send_eoi 0) k1)
      | Some (t, k1) \<Rightarrow> Some (t, k1))"

section \<open>The machine\<close>

text \<open>
  A kernel entry from process \<open>curr_process\<close>: the processor takes the stack pointer from the
  task state segment, and the handler's frames go \<open>d\<close> bytes down, staying clear of the
  control block at the bottom of the 8 KB.
\<close>

definition enter :: "nat \<Rightarrow> u32 \<Rightarrow> kernel \<Rightarrow> kernel" where
  "enter d bp k = k\<lparr>esp := tss_esp0 k - of_nat d, ebp := bp\<rparr>"

text \<open>
  The steps between two moments in which a user program runs: a system call whose buffers lie in
  the program page (\<open>own_buffers\<close>; the code does not check it, and what happens otherwise is not
  modelled), an interrupt, the program itself, which may write anything into its page and, once
  \<open>vidmap\<close> has mapped it, into the display, and the end of a terminal read whose loop was left
  earlier, keys having been pressed since.
\<close>

inductive kstep :: "layout \<Rightarrow> image \<Rightarrow> kernel \<Rightarrow> kernel \<Rightarrow> bool" for L fs where
  syscall: "d \<le> 7680 \<Longrightarrow> own_buffers fs eax ebx ecx edx (enter d bp k) \<Longrightarrow>
    syscall_dispatcher L fs junk before out eax ebx ecx edx (enter d bp k) = Some (r, k') \<Longrightarrow> kstep L fs k k'"
| copy: "d \<le> 7680 \<Longrightarrow> read_copy buf nbytes (enter d bp k) = Some (r, k') \<Longrightarrow> kstep L fs k k'"
| timer: "d \<le> 7680 \<Longrightarrow> scheduler_handler (enter d bp k) = Some (t, k') \<Longrightarrow> kstep L fs k k'"
| key: "d \<le> 7680 \<Longrightarrow> key_handler fs sc nxt (enter d bp k) = Some k' \<Longrightarrow> kstep L fs k k'"
| rtc: "d \<le> 7680 \<Longrightarrow> k' = rtc_handler (enter d bp k) \<Longrightarrow> kstep L fs k k'"
| program: "kstep L fs k (k\<lparr>user_mem := (user_mem k)(cur_dir k := m)\<rparr>)"
| window: "(\<forall>a. a - VIDEO_BASE < 4096 \<or> v a = vram (ktty k) a) \<Longrightarrow>
    kstep L fs k (k\<lparr>ktty := (ktty k)\<lparr>vram := v\<rparr>\<rparr>)"

inductive_cases kstepE: "kstep L fs k k'"

text \<open>What the start-up code leaves behind, when it executes the first shell.\<close>

definition boot_ok :: "kernel \<Rightarrow> bool" where
  "boot_ok k \<longleftrightarrow> tty_ok (ktty k) \<and> map active_process (terminals (ktty k)) = [-1, -1, -1]
     \<and> active k = replicate 6 False \<and> curr_process k = 0 \<and> in_stack 0 (esp k)
     \<and> terminal_index (pcb_mem k (getProcessPCB 0)) = 0 \<and> terminal_iter k < 3"

inductive machine :: "layout \<Rightarrow> image \<Rightarrow> kernel \<Rightarrow> bool" for L fs where
  boot: "boot_ok k0 \<Longrightarrow> execute fs junk shell_name k0 = Some (To_user eip sp bp, k) \<Longrightarrow> machine L fs k"
| step: "machine L fs k \<Longrightarrow> kstep L fs k k' \<Longrightarrow> machine L fs k'"

section \<open>The invariant\<close>

abbreviation pcb_of :: "kernel \<Rightarrow> nat \<Rightarrow> pcb" where
  "pcb_of k q \<equiv> pcb_mem k (getProcessPCB q)"

definition alive :: "kernel \<Rightarrow> nat \<Rightarrow> bool" where
  "alive k q \<longleftrightarrow> 1 \<le> q \<and> q \<le> 6 \<and> active k ! (q - 1)"

text \<open>A descriptor in use has operations, and the first two belong to the terminal.\<close>

definition files_ok :: "file_t list \<Rightarrow> bool" where
  "files_ok fa \<longleftrightarrow> length fa = 8
     \<and> (\<forall>i < 8. flags (fa ! i) \<noteq> FILE_AVAIL \<longrightarrow> file_ops_table_ptr (fa ! i) \<noteq> No_ops)
     \<and> (\<forall>i < 2. file_ops_table_ptr (fa ! i) = Terminal_ops \<and> flags (fa ! i) = FILE_OCCUP)"

definition resumable :: "pcb \<Rightarrow> nat \<Rightarrow> bool" where
  "resumable p q \<longleftrightarrow> (if is_user_mode p then (\<exists>e. current_eip p = User_code e)
     else current_eip p = EIP_RETURN \<and> in_stack q (current_esp p))"

text \<open>One process: its terminal, its files, its parent.\<close>

definition process_ok :: "kernel \<Rightarrow> nat \<Rightarrow> bool" where
  "process_ok k q \<longleftrightarrow> terminal_index (pcb_of k q) < 3 \<and> files_ok (file_array (pcb_of k q))
     \<and> (let m = parent_num (pcb_of k q)
        in m \<noteq> 0 \<longrightarrow> alive k m \<and> terminal_index (pcb_of k m) = terminal_index (pcb_of k q)
             \<and> in_stack m (parent_esp (pcb_of k q)) \<and> exec_ret_addr (pcb_of k q) = End_of_execute)"

text \<open>One terminal: nothing runs on it, or the youngest of its processes does.\<close>

definition terminal_runs :: "kernel \<Rightarrow> nat \<Rightarrow> bool" where
  "terminal_runs k t \<longleftrightarrow>
     (let a = active_process (term_of (ktty k) t)
      in a = -1 \<or> (\<exists>q. a = int q \<and> alive k q \<and> terminal_index (pcb_of k q) = t
           \<and> (\<forall>r. alive k r \<longrightarrow> parent_num (pcb_of k r) \<noteq> q)
           \<and> (q \<noteq> curr_process k \<longrightarrow> resumable (pcb_of k q) q)))"

definition base :: "kernel \<Rightarrow> bool" where
  "base k \<longleftrightarrow> tty_ok (ktty k) \<and> length (active k) = 6 \<and> terminal_iter k < 3
     \<and> (\<forall>t < 3. terminal_runs k t)
     \<and> (\<forall>q. alive k q \<longrightarrow> process_ok k q)
     \<and> (\<forall>q r. alive k q \<and> alive k r \<and> parent_num (pcb_of k q) = parent_num (pcb_of k r)
          \<and> parent_num (pcb_of k q) \<noteq> 0 \<longrightarrow> q = r)"

text \<open>
  The invariant: the current process is alive and the one its terminal runs, the task state
  segment holds its kernel stack and \<open>cr3\<close> its page directory.
\<close>

definition coherent :: "kernel \<Rightarrow> bool" where
  "coherent k \<longleftrightarrow> base k \<and> alive k (curr_process k)
     \<and> active_process (term_of (ktty k) (terminal_index (pcb_of k (curr_process k)))) = int (curr_process k)
     \<and> tss_esp0 k = get_kernel_stack_bottom (curr_process k)
     \<and> cr3 (kpaging k) = int (curr_process k) - 1"

subsection \<open>The terminals keep their processes\<close>

definition procs :: "tty \<Rightarrow> int list" where
  "procs s = map active_process (terminals s)"

lemma procs_set_term [simp]:
  assumes "\<And>x. active_process (f x) = active_process x"
  shows "procs (set_term i f s) = procs s"
proof (cases "i < length (terminals s)")
  case True
  have "map active_process ((terminals s)[i := f (terminals s ! i)])
      = (map active_process (terminals s))[i := active_process (terminals s ! i)]"
    by (simp add: map_update assms)
  then show ?thesis using True by (simp add: procs_def set_term_def list_update_same_conv)
next
  case False
  then have "(terminals s)[i := f (terminals s ! i)] = terminals s" by (simp add: list_update_beyond)
  then show ?thesis by (simp add: procs_def set_term_def)
qed

lemma procs_upd [simp]:
  "procs (s\<lparr>vram := m\<rparr>) = procs s" "procs (s\<lparr>ports := es\<rparr>) = procs s" "procs (cursor_to x y s) = procs s"
  "procs (s\<lparr>active_terminal_index := i\<rparr>) = procs s" "procs (s\<lparr>modifiers := md, caps_held := h\<rparr>) = procs s"
  by (simp_all add: procs_def)

lemma procs_terminal [simp]:
  "procs (terminal_putc c a i s) = procs s"
  "procs (clear_terminal i s) = procs s"
  "procs (snd (key_backspace s)) = procs s"
  "procs (key_accept c s) = procs s"
  "procs (switch_screen n s) = procs s"
proof -
  have place: "procs (putc_place c a i s) = procs s" for c a i s
    by (simp add: putc_place_def Let_def)
  show putc: "procs (terminal_putc c a i s) = procs s" for c a i s
    by (simp add: terminal_putc_def Let_def place)
  show "procs (clear_terminal i s) = procs s" by (simp add: clear_terminal_def Let_def)
  show "procs (snd (key_backspace s)) = procs s" by (simp add: key_backspace_def Let_def)
  show "procs (key_accept c s) = procs s" by (simp add: key_accept_def Let_def putc)
  show "procs (switch_screen n s) = procs s" by (simp add: switch_screen_def Let_def)
qed

lemma procs_key_rest [simp]: "procs (fst (key_rest sc s)) = procs s"
  by (simp add: key_rest_def Let_def)

lemma procs_handle_keypress [simp]: "procs (fst (handle_keypress sc nxt s)) = procs s"
  by (simp add: handle_keypress_rest Let_def case_prod_beta)

lemma procs_print [simp]: "procs (fold (\<lambda>c. terminal_putc c a i) cs s) = procs s"
  by (induction cs arbitrary: s) simp_all

lemma procs_nth: "i < length (terminals s) \<Longrightarrow> active_process (term_of s i) = procs s ! i"
  by (simp add: procs_def)

subsection \<open>Calls that leave the processes as they are\<close>

text \<open>What the invariant says about a control block, apart from its files.\<close>

definition core :: "pcb \<Rightarrow> nat \<times> nat \<times> u32 \<times> code_ptr \<times> bool \<times> code_ptr \<times> u32" where
  "core p = (terminal_index p, parent_num p, parent_esp p, exec_ret_addr p, is_user_mode p, current_eip p,
     current_esp p)"

definition keeps :: "kernel \<Rightarrow> kernel \<Rightarrow> bool" where
  "keeps k k' \<longleftrightarrow> active k' = active k \<and> curr_process k' = curr_process k \<and> tss_esp0 k' = tss_esp0 k
     \<and> esp k' = esp k \<and> cr3 (kpaging k') = cr3 (kpaging k) \<and> terminal_iter k' = terminal_iter k
     \<and> procs (ktty k') = procs (ktty k) \<and> (tty_ok (ktty k) \<longrightarrow> tty_ok (ktty k'))
     \<and> (\<forall>q. core (pcb_of k' q) = core (pcb_of k q)
          \<and> (files_ok (file_array (pcb_of k q)) \<longrightarrow> files_ok (file_array (pcb_of k' q))))"

lemma keeps_refl: "keeps k k"
  by (simp add: keeps_def)

lemma keeps_trans: "keeps k k' \<Longrightarrow> keeps k' k'' \<Longrightarrow> keeps k k''"
  by (auto simp: keeps_def)

lemma keeps_alive: "keeps k k' \<Longrightarrow> alive k' q = alive k q"
  by (simp add: keeps_def alive_def)

lemma keeps_core:
  assumes "keeps k k'"
  shows "terminal_index (pcb_of k' q) = terminal_index (pcb_of k q)"
    and "parent_num (pcb_of k' q) = parent_num (pcb_of k q)"
    and "parent_esp (pcb_of k' q) = parent_esp (pcb_of k q)"
    and "exec_ret_addr (pcb_of k' q) = exec_ret_addr (pcb_of k q)"
    and "resumable (pcb_of k' q) q = resumable (pcb_of k q) q"
  using assms by (auto simp: keeps_def core_def resumable_def)

lemma keeps_running:
  assumes "keeps k k'" and "tty_ok (ktty k)" and "t < 3"
  shows "active_process (term_of (ktty k') t) = active_process (term_of (ktty k) t)"
proof -
  have "tty_ok (ktty k')" using assms(1,2) by (simp add: keeps_def)
  then have "t < length (terminals (ktty k'))" "t < length (terminals (ktty k))"
    using tty_okD(2) assms(2,3) by blast+
  then show ?thesis using assms(1) by (simp add: procs_nth keeps_def)
qed

lemma base_keeps:
  assumes "base k" and ks: "keeps k k'"
  shows "base k'"
proof -
  have ok: "tty_ok (ktty k)" "tty_ok (ktty k')" using assms by (auto simp: base_def keeps_def)
  note al = keeps_alive [OF ks] and co = keeps_core [OF ks] and run = keeps_running [OF ks ok(1)]
  have cur: "curr_process k' = curr_process k" using ks by (simp add: keeps_def)
  have t: "terminal_runs k' t" if "t < 3" for t
    using assms(1) that by (simp add: base_def terminal_runs_def al co run cur)
  have p: "process_ok k' q" if "alive k' q" for q
  proof -
    have "process_ok k q" using assms(1) that by (simp add: base_def al)
    then show ?thesis using ks by (simp add: process_ok_def al co) (simp add: keeps_def)
  qed
  show ?thesis
    using assms(1) t p ok(2) ks unfolding base_def al co by (simp add: keeps_def)
qed

lemma current_terminal: "base k \<Longrightarrow> alive k q \<Longrightarrow> terminal_index (pcb_of k q) < 3"
  by (simp add: base_def process_ok_def)

lemma coherent_keeps:
  assumes "coherent k" and ks: "keeps k k'"
  shows "coherent k'"
proof -
  have b: "base k" "base k'" and c: "alive k (curr_process k)"
    using assms base_keeps by (auto simp: coherent_def)
  have "tty_ok (ktty k)" using b(1) by (simp add: base_def)
  then show ?thesis
    using assms(1) b(2) keeps_running [OF ks _ current_terminal [OF b(1) c]] keeps_core [OF ks] keeps_alive [OF ks] ks
    by (auto simp: coherent_def) (auto simp: keeps_def)
qed

lemma files_ok_update:
  assumes "files_ok fa" and "i < 2 \<Longrightarrow> file_ops_table_ptr x = Terminal_ops \<and> flags x = FILE_OCCUP"
    and "flags x \<noteq> FILE_AVAIL \<Longrightarrow> file_ops_table_ptr x \<noteq> No_ops"
  shows "files_ok (fa[i := x])"
proof (cases "i < length fa")
  case True
  then have n: "fa[i := x] ! j = (if j = i then x else fa ! j)" for j by (auto simp: nth_list_update)
  show ?thesis using assms by (auto simp: files_ok_def n)
qed (simp add: assms(1) list_update_beyond)

lemma files_ok_position:
  assumes "files_ok fa" and "i < 8"
  shows "files_ok (fa[i := (fa ! i)\<lparr>file_position := v\<rparr>])"
  by (rule files_ok_update [OF assms(1)]) (use assms in \<open>auto simp: files_ok_def\<close>)

lemma find_slot_ge: "i \<le> find_slot fa i"
proof (induction fa i rule: find_slot.induct)
  case (1 fa index)
  then show ?case
    by (subst find_slot.simps) (auto dest: Suc_leD)
qed

lemma files_ok_install:
  assumes ok: "files_ok fa"
  shows "files_ok (snd (file_install d fa))"
proof -
  let ?i = "find_slot fa 2"
  have i: "2 \<le> ?i" by (rule find_slot_ge)
  have upd: "files_ok (fa[?i := x])" if "file_ops_table_ptr x \<noteq> No_ops" for x
    by (rule files_ok_update [OF ok]) (use i that in auto)
  show ?thesis
  proof (cases "?i < 8")
    case True
    have len: "?i < length fa" using True ok by (simp add: files_ok_def)
    have n: "\<not> NUM_MAX_OPEN_FILES \<le> ?i" using True by (simp add: NUM_MAX_OPEN_FILES_def)
    consider "filetype d = 2" | "filetype d = 1" | "filetype d = 0" | "filetype d \<notin> {0, 1, 2}" by blast
    then show ?thesis
      using n ok len by cases (simp_all add: file_install_def Let_def rtc_open_def upd)
  next
    case False
    then show ?thesis using ok by (simp add: file_install_def NUM_MAX_OPEN_FILES_def)
  qed
qed

lemma files_ok_install_eq: "file_install d fa = (r, fa') \<Longrightarrow> files_ok fa \<Longrightarrow> files_ok fa'"
  using files_ok_install [of fa d] by simp

lemma files_ok_open:
  "file_open fs filename fa = Some (r, fa') \<Longrightarrow> files_ok fa \<Longrightarrow> files_ok fa'"
  by (auto simp: file_open_def split: option.splits if_splits prod.splits intro: files_ok_install_eq)

lemma files_ok_directory_open:
  "directory_open fs filename fa = Some (r, fa') \<Longrightarrow> files_ok fa \<Longrightarrow> files_ok fa'"
  using files_ok_open by (auto simp: directory_open_def split: option.splits if_splits prod.splits)

lemma files_ok_closer:
  assumes ok: "files_ok fa" and fd: "\<not> fd < 2" and c: "closer ops fa fd = Some (r, fa')"
  shows "files_ok fa'"
proof -
  have b: "files_ok (fa[nat fd := x])" if "flags x = FILE_AVAIL" for x
    by (rule files_ok_update [OF ok]) (use fd that in auto)
  show ?thesis
    using c ok by (cases ops) (auto simp: file_close_def directory_close_def rtc_close_def blank_def b split: if_splits)
qed

lemma keeps_simple [simp]:
  "keeps k (k\<lparr>int_flag := b\<rparr>)" "keeps k (k\<lparr>user_mem := m\<rparr>)" "keeps k (k\<lparr>ebp := v\<rparr>)"
  by (simp_all add: keeps_def)

lemma keeps_ktty: "procs t = procs (ktty k) \<Longrightarrow> (tty_ok (ktty k) \<Longrightarrow> tty_ok t) \<Longrightarrow> keeps k (k\<lparr>ktty := t\<rparr>)"
  by (simp add: keeps_def)

lemma keeps_upd_pcb:
  assumes "core (f (pcb_mem k a)) = core (pcb_mem k a)"
    and "files_ok (file_array (pcb_mem k a)) \<Longrightarrow> files_ok (file_array (f (pcb_mem k a)))"
  shows "keeps k (upd_pcb a f k)"
  using assms by (auto simp: keeps_def upd_pcb_def)

lemma keeps_set_files:
  assumes "files_ok (file_array (cur_pcb k)) \<Longrightarrow> files_ok fa"
  shows "keeps k (set_files fa k)"
  unfolding set_files_def by (rule keeps_upd_pcb) (use assms in \<open>simp_all add: core_def\<close>)

lemma keeps_store_user: "store_user a bs k = Some k' \<Longrightarrow> keeps k k'"
  by (auto simp: store_user_def keeps_refl split: if_splits)

lemma keeps_out_ports [simp]: "keeps k (out_ports es k)"
  unfolding out_ports_def by (rule keeps_ktty) (simp_all add: tty_ok_def)

lemma keeps_open: "sys_open fs filename k = Some (r, k') \<Longrightarrow> keeps k k'"
  unfolding sys_open_def Let_def
  by (auto split: prod.splits option.splits if_splits intro!: keeps_refl keeps_set_files
      intro: files_ok_open files_ok_directory_open)

lemma keeps_close: "sys_close fd k = Some (r, k') \<Longrightarrow> keeps k k'"
  unfolding sys_close_def Let_def
  by (auto split: if_splits intro!: keeps_refl keeps_set_files intro: files_ok_closer)

lemma term_ok_active_process: "term_ok a i (t\<lparr>active_process := v\<rparr>) = term_ok a i t"
  by (simp add: term_ok_def)

lemma keeps_write:
  assumes w: "sys_write out fd buf nbytes k = Some (r, k')" and ti: "terminal_index (cur_pcb k) < 3"
  shows "keeps k k'"
proof -
  have wt: "keeps k k'" if "write_terminal out i buf nbytes k = (r, k')" for i
  proof -
    have "keeps k (k\<lparr>ktty := snd (terminal_write (terminal_index (cur_pcb k)) i (Some cs) (ktty k))\<rparr>)" for cs
      using write_fold [OF _ ti, of "ktty k" cs]
      by (intro keeps_ktty) (simp_all add: terminal_write_def)
    then show ?thesis using that
      by (auto simp: write_terminal_def Let_def case_prod_beta keeps_refl split: if_splits)
  qed
  have wr: "keeps k k'" if "write_rtc out i buf nbytes k = (r, k')" "i < 8" for i
  proof -
    have "files_ok (snd (rtc_write fa i b nbytes))" if "files_ok fa" for fa b
      using files_ok_position [OF that \<open>i < 8\<close>] that by (auto simp: rtc_write_def split: option.split)
    then show ?thesis using that
      by (auto simp: write_rtc_def Let_def case_prod_beta keeps_refl intro!: keeps_set_files split: if_splits)
  qed
  show ?thesis
    using w wt wr [of "nat fd"] by (auto simp: sys_write_def Let_def keeps_refl split: if_splits ops_table.splits)
qed

lemma keeps_read_copy:
  assumes r: "read_copy buf nbytes k = Some (r, k')" and ti: "terminal_index (cur_pcb k) < 3"
  shows "keeps k k'"
proof -
  let ?t = "terminal_index (cur_pcb k)" and ?n = "read_cap nbytes"
  let ?tt = "set_term ?t (\<lambda>_. snd (read_take (term_of (ktty k) ?t) ?n)) (ktty k)"
  have same: "?tt = set_term ?t (\<lambda>r. snd (read_take r ?n)) (ktty k)" by (simp add: set_term_def)
  have ap: "active_process (snd (read_take x ?n)) = active_process x" for x
    by (simp add: read_take_def Let_def)
  have "keeps k (k\<lparr>ktty := ?tt\<rparr>)"
    by (rule keeps_ktty) (use read_effect(3) [OF _ ti, of "ktty k" ?n] in \<open>simp_all add: same ap\<close>)
  then show ?thesis
    using r keeps_trans [OF _ keeps_store_user] by (auto simp: read_copy_def Let_def case_prod_beta)
qed

lemma keeps_read:
  assumes r: "sys_read fs before fd buf nbytes k = Some (r, k')" and ti: "terminal_index (cur_pcb k) < 3"
  shows "keeps k k'"
proof -
  have rt: "keeps k k'" if "read_terminal before i buf nbytes k = Some (r, k')" for i
  proof -
    have "terminal_index (cur_pcb (k\<lparr>int_flag := True\<rparr>)) < 3" using ti by (simp add: getCurrentProcessPCB_def)
    then show ?thesis
      using that keeps_trans [OF keeps_simple(1) keeps_read_copy]
      by (auto simp: read_terminal_def Let_def keeps_refl split: if_splits)
  qed
  have rc: "keeps k k'" if "read_rtc i k = Some (r, k')" for i
    using that by (auto simp: read_rtc_def core_def intro!: keeps_upd_pcb split: option.splits)
  have rf: "files_ok (snd (snd (file_read fs fa i nbytes)))" "files_ok (snd (snd (directory_read fs fa i)))"
    if "files_ok fa" "i < 8" for fa i
    using files_ok_position [OF that] that(1)
    by (auto simp: file_read_def directory_read_def Let_def case_prod_beta split: option.split)
  have st: "keeps k (set_files fa1 k1)"
    if "store_user buf bs k = Some k1" "files_ok (file_array (cur_pcb k)) \<Longrightarrow> files_ok fa1" for bs k1 fa1
  proof -
    have "cur_pcb k1 = cur_pcb k"
      using that(1) by (auto simp: store_user_def getCurrentProcessPCB_def split: if_splits)
    then show ?thesis using keeps_trans [OF keeps_store_user [OF that(1)] keeps_set_files] that(2) by simp
  qed
  show ?thesis
    using r rt rc rf [of "file_array (cur_pcb k)" "nat fd"]
    by (auto simp: sys_read_def Let_def keeps_refl case_prod_beta intro: st
        split: if_splits ops_table.splits)
qed

lemma keeps_getargs: "getargs buf nbytes k = Some (r, k') \<Longrightarrow> keeps k k'"
  by (auto simp: getargs_def Let_def keeps_refl intro: keeps_store_user split: if_splits)

lemma keeps_vidmap:
  assumes v: "vidmap L a k = Some (r, k')" and c: "cr3 (kpaging k) = int (curr_process k) - 1"
  shows "keeps k k'"
proof -
  have "keeps k (k1\<lparr>kpaging := map_video L (curr_process k1 - 1) (kpaging k1), int_flag := b\<rparr>)"
    if "store_user a bs (k\<lparr>int_flag := False\<rparr>) = Some k1" "curr_process k \<noteq> 0" for k1 bs b
    using keeps_trans [OF _ keeps_store_user [OF that(1)], of k] c that(2)
    by (auto simp: keeps_def map_video_def loadPageDirectory_def)
  then show ?thesis using v by (auto simp: vidmap_def Let_def split: if_splits)
qed

subsection \<open>Entering the kernel\<close>

lemma coherent_enter: "coherent (enter d bp k) = coherent k"
  by (simp add: coherent_def base_def enter_def alive_def process_ok_def terminal_runs_def)

lemma enter_stack:
  assumes "coherent k" and "d \<le> 7680"
  shows "in_stack (curr_process k) (esp (enter d bp k))"
proof -
  have p: "curr_process k < 7" using assms(1) by (simp add: coherent_def alive_def)
  note A = pcb_addresses [OF p]
  have d: "unat (of_nat d :: u32) = d" using assms(2) by simp
  have "unat (tss_esp0 k) = 0x800000 - curr_process k * 0x2000 - 4"
    using assms(1) A(2) by (simp add: coherent_def)
  moreover from this have "unat (tss_esp0 k - of_nat d) = unat (tss_esp0 k) - d"
    using assms(2) p d by (subst unat_sub) (simp_all add: word_le_nat_alt)
  ultimately have "unat (esp (enter d bp k)) = 0x800000 - curr_process k * 0x2000 - 4 - d"
    by (simp add: enter_def)
  moreover have "0x800000 - (curr_process k + 1) * 0x2000 \<le> 0x800000 - curr_process k * 0x2000 - 4 - d"
    using assms(2) less7 [OF p] by (elim disjE) simp_all
  ultimately show ?thesis unfolding in_stack_def A by linarith
qed

text \<open>The state at a kernel entry.\<close>

definition at_entry :: "kernel \<Rightarrow> bool" where
  "at_entry k \<longleftrightarrow> coherent k \<and> in_stack (curr_process k) (esp k)"

lemma at_entry_enter: "coherent k \<Longrightarrow> d \<le> 7680 \<Longrightarrow> at_entry (enter d bp k)"
  using enter_stack by (simp add: at_entry_def coherent_enter) (simp add: enter_def)

lemma at_entry_current:
  assumes "at_entry k"
  shows "getCurrentProcessPCB k = getProcessPCB (curr_process k)" and "terminal_index (cur_pcb k) < 3"
    and "curr_process k < 7" and "1 \<le> curr_process k"
proof -
  show p: "curr_process k < 7" "1 \<le> curr_process k"
    using assms by (simp_all add: at_entry_def coherent_def alive_def)
  show "getCurrentProcessPCB k = getProcessPCB (curr_process k)"
    using assms p(1) by (intro current_pcb) (simp_all add: at_entry_def)
  then show "terminal_index (cur_pcb k) < 3"
    using assms current_terminal by (simp add: at_entry_def coherent_def)
qed

lemma keeps_entry: "at_entry k \<Longrightarrow> keeps k k' \<Longrightarrow> at_entry k'"
proof -
  assume "at_entry k" and ks: "keeps k k'"
  then have "coherent k'" "in_stack (curr_process k) (esp k)"
    using coherent_keeps by (auto simp: at_entry_def)
  then show ?thesis using ks by (simp add: at_entry_def keeps_def)
qed

subsection \<open>Starting and ending a process\<close>

lemma find_inactive_spec:
  "find_inactive as \<le> length as" "find_inactive as < length as \<Longrightarrow> \<not> as ! find_inactive as"
  by (induction as) auto

lemma init_files_ok: "files_ok init_file_array"
proof -
  have "init_file_array ! i = (if i < 2 then \<lparr>file_ops_table_ptr = Terminal_ops, inode_num = 0,
      file_position = 0, flags = FILE_OCCUP\<rparr> else blank)" if "i < 8" for i
    using that by (auto simp: init_file_array_def nth_Cons' NUM_MAX_OPEN_FILES_def)
  then show ?thesis
    by (simp add: files_ok_def blank_def FILE_AVAIL_def FILE_OCCUP_def)
      (simp add: init_file_array_def NUM_MAX_OPEN_FILES_def)
qed

lemma set_active_running:
  assumes "tty_ok (ktty k)" and "t < 3" and "t' < 3"
  shows "active_process (term_of (ktty (set_active_process t v k)) t')
    = (if t' = t then v else active_process (term_of (ktty k) t'))"
  using tty_okD(2) [OF assms(1,2)] by (simp add: set_active_process_def)

lemma set_active_tty_ok:
  assumes "tty_ok (ktty k)" and "t < 3"
  shows "tty_ok (ktty (set_active_process t v k))"
  unfolding set_active_process_def
  by (rule tty_ok_upd [OF assms(1) _ assms(2), of "(term_of (ktty k) t)\<lparr>active_process := v\<rparr>"])
    (use tty_okD(1) [OF assms] in \<open>simp_all add: set_term_def term_ok_active_process\<close>)

lemma base_runs:
  assumes "base k" and "t < 3" and "active_process (term_of (ktty k) t) = int q" and "1 \<le> q"
  shows "alive k q" "terminal_index (pcb_of k q) = t" "\<And>r. alive k r \<Longrightarrow> parent_num (pcb_of k r) \<noteq> q"
    "q \<noteq> curr_process k \<Longrightarrow> resumable (pcb_of k q) q"
proof -
  have "terminal_runs k t" using assms(1,2) by (simp add: base_def)
  then obtain q' where "int q = int q'" "alive k q'" "terminal_index (pcb_of k q') = t"
      "\<forall>r. alive k r \<longrightarrow> parent_num (pcb_of k r) \<noteq> q'" "q' \<noteq> curr_process k \<longrightarrow> resumable (pcb_of k q') q'"
    unfolding terminal_runs_def Let_def assms(3) using assms(4) by auto
  then show "alive k q" "terminal_index (pcb_of k q) = t" "\<And>r. alive k r \<Longrightarrow> parent_num (pcb_of k r) \<noteq> q"
    "q \<noteq> curr_process k \<Longrightarrow> resumable (pcb_of k q) q" by simp_all
qed

text \<open>
  A new process \<open>pid\<close> on terminal \<open>t\<close>, child of \<open>c\<close>: what changes in the state, and what must
  hold before.  \<open>c\<close> is 0 for the first process of a terminal.
\<close>

definition new_process :: "kernel \<Rightarrow> kernel \<Rightarrow> nat \<Rightarrow> nat \<Rightarrow> nat \<Rightarrow> bool" where
  "new_process k k' pid t c \<longleftrightarrow> active k' = (active k)[pid - 1 := True]
     \<and> (\<forall>q < 7. q \<noteq> pid \<longrightarrow> core (pcb_of k' q) = core (pcb_of k q) \<and> file_array (pcb_of k' q) = file_array (pcb_of k q))
     \<and> terminal_index (pcb_of k' pid) = t \<and> file_array (pcb_of k' pid) = init_file_array
     \<and> parent_num (pcb_of k' pid) = c
     \<and> (c \<noteq> 0 \<longrightarrow> in_stack c (parent_esp (pcb_of k' pid)) \<and> exec_ret_addr (pcb_of k' pid) = End_of_execute)
     \<and> terminal_iter k' = terminal_iter k \<and> tty_ok (ktty k')
     \<and> (\<forall>t' < 3. active_process (term_of (ktty k') t')
          = (if t' = t then int pid else active_process (term_of (ktty k) t')))
     \<and> (pid \<noteq> curr_process k' \<longrightarrow> resumable (pcb_of k' pid) pid)"

lemma base_new_process:
  assumes b: "base k" and n: "new_process k k' pid t c" and pid: "1 \<le> pid" "pid \<le> 6" "\<not> active k ! (pid - 1)"
    and t: "t < 3" and c: "if c = 0 then active_process (term_of (ktty k) t) = -1
              else active_process (term_of (ktty k) t) = int c"
    and cur: "\<And>q. q \<noteq> curr_process k' \<Longrightarrow> q = curr_process k \<Longrightarrow> q = 0 \<or> q = c"
  shows "base k'" and "alive k' pid" and "\<And>q. alive k' q \<longleftrightarrow> alive k q \<or> q = pid"
proof -
  have len: "length (active k) = 6" using b by (simp add: base_def)
  have act: "active k' = (active k)[pid - 1 := True]" using n by (simp add: new_process_def)
  show al: "\<And>q. alive k' q \<longleftrightarrow> alive k q \<or> q = pid"
    using pid len by (auto simp: alive_def act nth_list_update)
  then show "alive k' pid" by simp
  have npid: "\<not> alive k pid" using pid by (simp add: alive_def)
  have core: "core (pcb_of k' q) = core (pcb_of k q)" "file_array (pcb_of k' q) = file_array (pcb_of k q)"
    if "alive k q" for q
  proof -
    have "q < 7" "q \<noteq> pid" using that npid by (auto simp: alive_def)
    then show "core (pcb_of k' q) = core (pcb_of k q)" "file_array (pcb_of k' q) = file_array (pcb_of k q)"
      using n unfolding new_process_def by blast+
  qed
  then have old: "terminal_index (pcb_of k' q) = terminal_index (pcb_of k q)"
      "parent_num (pcb_of k' q) = parent_num (pcb_of k q)" "parent_esp (pcb_of k' q) = parent_esp (pcb_of k q)"
      "exec_ret_addr (pcb_of k' q) = exec_ret_addr (pcb_of k q)"
      "resumable (pcb_of k' q) q = resumable (pcb_of k q) q" if "alive k q" for q
    using that by (auto simp: core_def resumable_def)
  have run: "active_process (term_of (ktty k') t') = (if t' = t then int pid else active_process (term_of (ktty k) t'))"
    if "t' < 3" for t' using n that by (simp add: new_process_def)
  have new: "terminal_index (pcb_of k' pid) = t" "parent_num (pcb_of k' pid) = c"
    "file_array (pcb_of k' pid) = init_file_array"
    using n by (simp_all add: new_process_def)
  have calive: "alive k c" "terminal_index (pcb_of k c) = t" "\<And>r. alive k r \<Longrightarrow> parent_num (pcb_of k r) \<noteq> c"
    if "c \<noteq> 0" using base_runs [OF b t, of c] c that by simp_all
  have par: "parent_num (pcb_of k q) = 0 \<or> alive k (parent_num (pcb_of k q))" if "alive k q" for q
    using b that by (auto simp: base_def process_ok_def Let_def)
  have tr: "terminal_runs k' t'" if t': "t' < 3" for t'
  proof (cases "t' = t")
    case True
    have "parent_num (pcb_of k' r) \<noteq> pid" if "alive k' r" for r
    proof (cases "r = pid")
      case True
      have "c \<noteq> pid" using calive(1) npid pid(1) by (cases "c = 0") auto
      then show ?thesis using True new(2) by simp
    next
      case False
      then have "alive k r" using that al by simp
      then show ?thesis using par [of r] npid pid(1) old(2) by auto
    qed
    then show ?thesis
      using True run [OF t'] al new n by (auto simp: terminal_runs_def new_process_def)
  next
    case False
    have a: "active_process (term_of (ktty k') t') = active_process (term_of (ktty k) t')"
      using run [OF t'] False by simp
    have "terminal_runs k t'" using b t' by (simp add: base_def)
    then consider "active_process (term_of (ktty k) t') = -1"
      | q where "active_process (term_of (ktty k) t') = int q" "alive k q" "terminal_index (pcb_of k q) = t'"
        "\<And>r. alive k r \<Longrightarrow> parent_num (pcb_of k r) \<noteq> q" "q \<noteq> curr_process k \<Longrightarrow> resumable (pcb_of k q) q"
      by (auto simp: terminal_runs_def Let_def)
    then show ?thesis
    proof cases
      case 1
      then show ?thesis using a by (simp add: terminal_runs_def)
    next
      case 2
      have q0: "q \<noteq> 0" using 2(2) by (simp add: alive_def)
      have qc: "q \<noteq> c" using calive(2) q0 2(3) False by (cases "c = 0") auto
      have "parent_num (pcb_of k' r) \<noteq> q" if "alive k' r" for r
        using that 2(4) al old(2) new(2) qc by (cases "r = pid") auto
      moreover have "resumable (pcb_of k' q) q" if "q \<noteq> curr_process k'"
        using cur [OF that] q0 qc 2(5) old(5) [OF 2(2)] by blast
      ultimately show ?thesis
        using 2(1-3) a al old(1) by (auto simp: terminal_runs_def Let_def)
    qed
  qed
  have pr: "process_ok k' q" if "alive k' q" for q
  proof (cases "q = pid")
    case True
    have "alive k' c \<and> terminal_index (pcb_of k' c) = t" if "c \<noteq> 0"
      using calive [OF that] al old(1) by simp
    then show ?thesis
      using True new t init_files_ok n by (simp add: process_ok_def Let_def new_process_def)
  next
    case False
    then have q: "alive k q" using that al by simp
    then have "process_ok k q" using b by (simp add: base_def)
    then show ?thesis
      using q par [OF q] old core(2) al by (auto simp: process_ok_def Let_def)
  qed
  have un: "q = r" if "alive k' q" "alive k' r" "parent_num (pcb_of k' q) = parent_num (pcb_of k' r)"
      "parent_num (pcb_of k' q) \<noteq> 0" for q r
  proof -
    have "q = r" if "alive k q" "alive k r" "parent_num (pcb_of k q) = parent_num (pcb_of k r)"
      "parent_num (pcb_of k q) \<noteq> 0" using b that by (simp add: base_def)
    then show ?thesis
      using that al [of q] al [of r] old(2) new(2) calive(3) by (cases "q = pid"; cases "r = pid") auto
  qed
  have "length (active k') = 6" using len act by simp
  moreover have "terminal_iter k' < 3" "tty_ok (ktty k')" using n b by (auto simp: new_process_def base_def)
  ultimately show "base k'" using tr pr un unfolding base_def by blast
qed

text \<open>\<open>execute\<close>, when it loads the program and when it fails.\<close>

lemma core_start:
  assumes "q < 7" and "pid < 7"
  shows "pcb_of (upd_pcb (getProcessPCB pid) f k) q = (if q = pid then f (pcb_of k pid) else pcb_of k q)"
  using getProcessPCB_inj [OF assms(1,2)] by (simp add: upd_pcb_def)

lemma upd_pcb_sel [simp]:
  "ktty (upd_pcb a f k) = ktty k" "active (upd_pcb a f k) = active k" "curr_process (upd_pcb a f k) = curr_process k"
  "terminal_iter (upd_pcb a f k) = terminal_iter k" "tss_esp0 (upd_pcb a f k) = tss_esp0 k" "esp (upd_pcb a f k) = esp k"
  "ebp (upd_pcb a f k) = ebp k" "kpaging (upd_pcb a f k) = kpaging k" "user_mem (upd_pcb a f k) = user_mem k"
  "int_flag (upd_pcb a f k) = int_flag k"
  by (simp_all add: upd_pcb_def)

lemma set_active_sel [simp]:
  "pcb_mem (set_active_process t v k) = pcb_mem k" "active (set_active_process t v k) = active k"
  "curr_process (set_active_process t v k) = curr_process k" "terminal_iter (set_active_process t v k) = terminal_iter k"
  "tss_esp0 (set_active_process t v k) = tss_esp0 k" "esp (set_active_process t v k) = esp k"
  "ebp (set_active_process t v k) = ebp k" "kpaging (set_active_process t v k) = kpaging k"
  "user_mem (set_active_process t v k) = user_mem k" "int_flag (set_active_process t v k) = int_flag k"
  by (simp_all add: set_active_process_def)

lemma load_directory_sel [simp]:
  "ktty (load_directory i k) = ktty k" "pcb_mem (load_directory i k) = pcb_mem k" "active (load_directory i k) = active k"
  "curr_process (load_directory i k) = curr_process k" "terminal_iter (load_directory i k) = terminal_iter k"
  "tss_esp0 (load_directory i k) = tss_esp0 k" "esp (load_directory i k) = esp k" "ebp (load_directory i k) = ebp k"
  "cr3 (kpaging (load_directory i k)) = i" "user_mem (load_directory i k) = user_mem k"
  "int_flag (load_directory i k) = int_flag k"
  by (simp_all add: load_directory_def loadPageDirectory_def)

lemma start_coherent:
  assumes b: "base k" and pid: "1 \<le> pid" "pid \<le> 6" "\<not> active k ! (pid - 1)" and c7: "curr_process k < 7"
    and st: "in_stack (curr_process k) (esp k)" and cr: "cr3 (kpaging k) = int pid - 1"
    and np: "pid \<noteq> curr_process k"
    and t: "terminal_index (pcb_of k (curr_process k)) < 3"
    and c: "if curr_process k = 0 then active_process (term_of (ktty k) (terminal_index (pcb_of k 0))) = -1
       else active_process (term_of (ktty k) (terminal_index (pcb_of k (curr_process k)))) = int (curr_process k)"
  shows "coherent (snd (start_process pid k))"
proof -
  let ?c = "curr_process k" and ?k' = "snd (start_process pid k)"
  let ?t = "terminal_index (pcb_of k ?c)"
  have cur: "getCurrentProcessPCB k = getProcessPCB ?c" by (rule current_pcb [OF c7 st])
  have tok: "tty_ok (ktty k)" using b by (simp add: base_def)
  have pid7: "pid < 7" using pid(2) by simp
  let ?f = "\<lambda>p. p\<lparr>file_array := init_file_array, parent_num := ?c, exec_ret_addr := End_of_execute,
     terminal_index := ?t, parent_esp := esp k, parent_ebp := ebp k\<rparr>"
  have mem: "pcb_mem ?k' = (pcb_mem k)(getProcessPCB pid := ?f (pcb_of k pid))"
    using cur by (simp add: start_process_def Let_def context_switch_def getCurrentProcessPCB_def upd_pcb_def)
  have pcb: "pcb_of ?k' q = (if q = pid then ?f (pcb_of k pid) else pcb_of k q)" if "q < 7" for q
    using getProcessPCB_inj [OF that pid7] by (simp add: mem)
  have sel: "curr_process ?k' = pid" "active ?k' = (active k)[pid - 1 := True]"
    "tss_esp0 ?k' = get_kernel_stack_bottom pid" "cr3 (kpaging ?k') = int pid - 1" "terminal_iter ?k' = terminal_iter k"
    by (simp_all add: start_process_def Let_def context_switch_def cr)
  have tt: "ktty ?k' = ktty (set_active_process ?t (int pid) k)"
    using cur by (simp add: start_process_def Let_def context_switch_def getCurrentProcessPCB_def set_active_process_def)
  have run: "active_process (term_of (ktty ?k') t') = (if t' = ?t then int pid else active_process (term_of (ktty k) t'))"
    if "t' < 3" for t' unfolding tt by (rule set_active_running [OF tok t that])
  have ok': "tty_ok (ktty ?k')" unfolding tt by (rule set_active_tty_ok [OF tok t])
  have "new_process k ?k' pid ?t ?c"
    unfolding new_process_def using pcb pid7 sel run ok' st by simp
  note N = base_new_process [OF b this pid t, unfolded sel(1)]
  have "base ?k'" "alive ?k' pid" using N c by (auto split: if_splits)
  then show ?thesis using sel pcb [OF pid7] run [OF t] by (simp add: coherent_def)
qed

lemma base_load_directory [simp]: "base (load_directory i k) = base k"
  by (simp add: base_def terminal_runs_def process_ok_def alive_def load_directory_def)

text \<open>The state in which \<open>execute\<close> has tried to load a program for process \<open>pid\<close>.\<close>

definition loaded :: "kernel \<Rightarrow> nat \<Rightarrow> kernel \<Rightarrow> bool" where
  "loaded k pid k3 \<longleftrightarrow> 1 \<le> pid \<and> pid \<le> 6 \<and> \<not> active k ! (pid - 1)
     \<and> keeps k (load_directory (cr3 (kpaging k)) k3) \<and> cr3 (kpaging k3) = int pid - 1
     \<and> (\<forall>q < 7. q \<noteq> pid \<longrightarrow> pcb_of k3 q = pcb_of k q) \<and> ebp k3 = ebp k"

lemma loaded_step:
  assumes "length (active k) = 6" and "find_inactive (active k) \<noteq> NUM_MAX_PROCESSES"
  defines "pid \<equiv> find_inactive (active k) + 1"
  shows "loaded k pid ((load_directory (int pid - 1)
      (upd_pcb (getProcessPCB pid) (\<lambda>p. p\<lparr>arg := a, num_char_in_arg := n\<rparr>) (k\<lparr>int_flag := False\<rparr>)))
        \<lparr>user_mem := m\<rparr>)"
proof -
  have slot: "find_inactive (active k) < 6"
    using find_inactive_spec(1) [of "active k"] assms(1,2) by (simp add: NUM_MAX_PROCESSES_def)
  have pid: "1 \<le> pid" "pid \<le> 6" "pid < 7" "\<not> active k ! (pid - 1)"
    using slot find_inactive_spec(2) [of "active k"] assms(1) by (simp_all add: pid_def)
  have "core (p\<lparr>arg := a, num_char_in_arg := n\<rparr>) = core p" for p by (simp add: core_def)
  then have "keeps k (load_directory (cr3 (kpaging k)) ((load_directory (int pid - 1)
      (upd_pcb (getProcessPCB pid) (\<lambda>p. p\<lparr>arg := a, num_char_in_arg := n\<rparr>) (k\<lparr>int_flag := False\<rparr>)))
        \<lparr>user_mem := m\<rparr>))"
    by (simp add: keeps_def) (simp add: upd_pcb_def load_directory_def)
  then show ?thesis
    using pid getProcessPCB_inj [OF _ pid(3)] unfolding loaded_def
    by (simp add: load_directory_def loadPageDirectory_def upd_pcb_def)
qed

lemma execute_cases:
  assumes len: "length (active k) = 6" and e: "execute fs junk command k = Some (r, k')"
  obtains (full) "r = Returns (-1)" "k' = k\<lparr>int_flag := False\<rparr>"
  | (failed) pid k3 where "r = Returns (-1)" "loaded k pid k3" "k' = load_directory (int (curr_process k) - 1) k3"
  | (started) pid k3 where "loaded k pid k3" "(r, k') = start_process pid k3"
proof (cases "find_inactive (active k) = NUM_MAX_PROCESSES")
  case True
  then show thesis using e full by (simp add: execute_def)
next
  case False
  define pid where "pid = find_inactive (active k) + 1"
  obtain name i where ni: "parse_filename command 0 = (name, i)" by fastforce
  obtain i1 where i1: "skip_spaces command i = Some i1"
    using e False by (auto simp: execute_def ni Let_def split: option.splits)
  obtain a n where an: "parse_args command i1 0 (arg (pcb_of k pid), num_char_in_arg (pcb_of k pid)) = (a, n)"
    by fastforce
  define k2 where "k2 = load_directory (int pid - 1)
      (upd_pcb (getProcessPCB pid) (\<lambda>p. p\<lparr>arg := a, num_char_in_arg := n\<rparr>) (k\<lparr>int_flag := False\<rparr>))"
  have step: "execute fs junk command k =
      (case load_program fs (filename_of junk name) (user_mem k2 (pid - 1)) V_PROGRAM_BASE of
         None \<Rightarrow> None
       | Some (r, m) \<Rightarrow>
           (let k3 = k2\<lparr>user_mem := (user_mem k2)(pid - 1 := m)\<rparr>
            in if r = -1 then Some (Returns (-1), load_directory (int (curr_process k3) - 1) k3)
               else Some (start_process pid k3)))"
    using False an unfolding execute_def by (simp add: ni i1 pid_def k2_def Let_def split: option.split)
  obtain v m where m: "load_program fs (filename_of junk name) (user_mem k2 (pid - 1)) V_PROGRAM_BASE = Some (v, m)"
    using e step by (auto split: option.splits)
  let ?k3 = "k2\<lparr>user_mem := (user_mem k2)(pid - 1 := m)\<rparr>"
  have L: "loaded k pid ?k3" unfolding k2_def pid_def by (rule loaded_step [OF len False])
  have "curr_process ?k3 = curr_process k" by (simp add: k2_def)
  then show thesis
    using e step m L failed [OF _ L] started [OF L] by (cases "v = -1") (simp_all add: Let_def)
qed

lemma loaded_start:
  assumes L: "loaded k pid k3" and b: "base k" and c7: "curr_process k < 7"
    and st: "in_stack (curr_process k) (esp k)" and np: "curr_process k = 0 \<or> alive k (curr_process k)"
    and t: "terminal_index (pcb_of k (curr_process k)) < 3"
    and c: "if curr_process k = 0 then active_process (term_of (ktty k) (terminal_index (pcb_of k 0))) = -1
       else active_process (term_of (ktty k) (terminal_index (pcb_of k (curr_process k)))) = int (curr_process k)"
  shows "coherent (snd (start_process pid k3))"
proof -
  let ?l = "load_directory (cr3 (kpaging k)) k3"
  have kp: "keeps k ?l" and pid: "1 \<le> pid" "pid \<le> 6" "\<not> active k ! (pid - 1)" and cr: "cr3 (kpaging k3) = int pid - 1"
    using L by (simp_all add: loaded_def)
  have same: "active k3 = active k" "curr_process k3 = curr_process k" "esp k3 = esp k"
    using kp by (simp_all add: keeps_def)
  have b3: "base k3" using base_keeps [OF b kp] by simp
  have co: "terminal_index (pcb_of k3 q) = terminal_index (pcb_of k q)" for q
    using keeps_core(1) [OF kp] by simp
  have run: "active_process (term_of (ktty k3) t') = active_process (term_of (ktty k) t')" if "t' < 3" for t'
    using keeps_running [OF kp _ that] b by (simp add: base_def)
  have "pid \<noteq> curr_process k" using np pid by (auto simp: alive_def)
  then show ?thesis
    using start_coherent [OF b3, of pid] pid c7 st cr t c same co run by (auto split: if_splits)
qed

lemma execute_coherent:
  assumes en: "at_entry k" and e: "execute fs junk command k = Some (r, k')"
  shows "coherent k'"
proof -
  have co: "coherent k" and b: "base k" using en by (auto simp: at_entry_def coherent_def)
  have len: "length (active k) = 6" using b by (simp add: base_def)
  from len e show ?thesis
  proof (cases rule: execute_cases)
    case full
    then show ?thesis using coherent_keeps [OF co] by simp
  next
    case (failed pid k3)
    then have "keeps k k'" using co by (simp add: loaded_def coherent_def)
    then show ?thesis by (rule coherent_keeps [OF co])
  next
    case (started pid k3)
    have al: "alive k (curr_process k)" and st: "in_stack (curr_process k) (esp k)"
      using en by (auto simp: at_entry_def coherent_def)
    have c: "active_process (term_of (ktty k) (terminal_index (pcb_of k (curr_process k)))) = int (curr_process k)"
      using co by (simp add: coherent_def)
    have p: "curr_process k < 7" "curr_process k \<noteq> 0" using al by (auto simp: alive_def)
    have "coherent (snd (start_process pid k3))"
      by (rule loaded_start [OF started(1) b p(1) st _ current_terminal [OF b al]])
        (use al c p in simp_all)
    moreover have "snd (start_process pid k3) = k'" by (metis started(2) snd_conv)
    ultimately show ?thesis by simp
  qed
qed

text \<open>\<open>halt\<close>.\<close>

lemma keeps_close_files: "close_files fds k = Some k' \<Longrightarrow> keeps k k'"
proof (induction fds arbitrary: k)
  case (Cons fd fds)
  then show ?case by (auto split: option.splits dest!: keeps_close intro: keeps_trans)
qed (simp add: keeps_refl)

text \<open>What \<open>halt\<close> of a process with a parent leaves.\<close>

lemma halt_child:
  assumes co: "coherent k" and p: "m = parent_num (pcb_of k (curr_process k))" "m \<noteq> 0"
    and k': "active k' = (active k)[curr_process k - 1 := False]" "curr_process k' = m"
      "tss_esp0 k' = get_kernel_stack_bottom m" "cr3 (kpaging k') = int m - 1" "terminal_iter k' = terminal_iter k"
      "pcb_mem k' = pcb_mem k"
      "ktty k' = ktty (set_active_process (terminal_index (pcb_of k (curr_process k))) (int m) k)"
  shows "coherent k'"
proof -
  let ?c = "curr_process k"
  let ?t = "terminal_index (pcb_of k ?c)"
  have b: "base k" and al: "alive k ?c" and rt: "active_process (term_of (ktty k) ?t) = int ?c"
    using co by (simp_all add: coherent_def)
  have len: "length (active k) = 6" and tok: "tty_ok (ktty k)" using b by (simp_all add: base_def)
  have t: "?t < 3" by (rule current_terminal [OF b al])
  have c1: "1 \<le> ?c" "?c \<le> 6" using al by (simp_all add: alive_def)
  have alive': "alive k' q \<longleftrightarrow> alive k q \<and> q \<noteq> ?c" for q
    using c1 len by (auto simp: alive_def k'(1) nth_list_update)
  have po: "process_ok k ?c" using b al by (simp add: base_def)
  then have m: "alive k m" "terminal_index (pcb_of k m) = ?t" using p by (auto simp: process_ok_def Let_def)
  have leaf: "\<And>r. alive k r \<Longrightarrow> parent_num (pcb_of k r) \<noteq> ?c"
    using base_runs(3) [OF b t rt c1(1)] .
  then have mc: "m \<noteq> ?c" using al p(1) by auto
  have uniq: "alive k r \<Longrightarrow> parent_num (pcb_of k r) = m \<Longrightarrow> r = ?c" for r
    using b al p unfolding base_def by blast
  have run: "active_process (term_of (ktty k') t') = (if t' = ?t then int m else active_process (term_of (ktty k) t'))"
    if "t' < 3" for t' unfolding k'(7) by (rule set_active_running [OF tok t that])
  have tr: "terminal_runs k' t'" if t': "t' < 3" for t'
  proof (cases "t' = ?t")
    case True
    then show ?thesis
      using run [OF t'] m mc uniq alive' by (auto simp: terminal_runs_def Let_def k'(2,6))
  next
    case False
    have a: "active_process (term_of (ktty k') t') = active_process (term_of (ktty k) t')"
      using run [OF t'] False by simp
    have "terminal_runs k t'" using b t' by (simp add: base_def)
    then consider "active_process (term_of (ktty k) t') = -1"
      | q where "active_process (term_of (ktty k) t') = int q" "alive k q" "terminal_index (pcb_of k q) = t'"
        "\<And>r. alive k r \<Longrightarrow> parent_num (pcb_of k r) \<noteq> q" "q \<noteq> ?c \<Longrightarrow> resumable (pcb_of k q) q"
      by (auto simp: terminal_runs_def Let_def)
    then show ?thesis
    proof cases
      case 1
      then show ?thesis using a by (simp add: terminal_runs_def)
    next
      case 2
      then have "q \<noteq> ?c" using False by auto
      then show ?thesis using 2 a alive' by (auto simp: terminal_runs_def Let_def k'(6))
    qed
  qed
  have pr: "process_ok k' q" if "alive k' q" for q
  proof -
    have q: "alive k q" using that alive' by simp
    then have "process_ok k q" using b by (simp add: base_def)
    then show ?thesis using leaf [OF q] alive' by (auto simp: process_ok_def Let_def k'(6))
  qed
  have un: "q = r" if "alive k' q" "alive k' r" "parent_num (pcb_of k' q) = parent_num (pcb_of k' r)"
      "parent_num (pcb_of k' q) \<noteq> 0" for q r
    using that b alive' unfolding base_def k'(6) by blast
  have "tty_ok (ktty k')" unfolding k'(7) by (rule set_active_tty_ok [OF tok t])
  moreover have "length (active k') = 6" "terminal_iter k' < 3" using len b by (simp_all add: k' base_def)
  ultimately have "base k'" using tr pr un unfolding base_def by blast
  then show ?thesis
    using run [OF t] m mc alive' by (simp add: coherent_def k'(2-4,6))
qed

lemma halt_coherent:
  assumes en: "at_entry k" and h: "halt status k = Some (r, k')"
  shows "coherent k'"
proof -
  let ?k = "k\<lparr>int_flag := False\<rparr>"
  obtain k1 where k1: "close_files [2..<NUM_MAX_OPEN_FILES] ?k = Some k1"
    using h by (auto simp: halt_def Let_def split: option.splits)
  have ks: "keeps k k1" by (rule keeps_trans [OF _ keeps_close_files [OF k1]]) simp
  have en1: "at_entry k1" by (rule keeps_entry [OF en ks])
  have c: "curr_process k1 = curr_process k" "esp k1 = esp k" using ks by (simp_all add: keeps_def)
  note cp = at_entry_current(1) [OF en1] and cp0 = at_entry_current(1) [OF en]
  have par: "parent_num (cur_pcb ?k) = parent_num (pcb_of k1 (curr_process k1))"
    using cp0 keeps_core(2) [OF ks] c by (simp add: getCurrentProcessPCB_def)
  have co1: "coherent k1" using en1 by (simp add: at_entry_def)
  show ?thesis
  proof (cases "parent_num (cur_pcb ?k) = 0")
    case True
    then have "k' = k1\<lparr>int_flag := True\<rparr>"
      using h k1 by (simp add: halt_def Let_def context_switch_def)
    then show ?thesis using coherent_keeps [OF co1] by simp
  next
    case False
    define m where "m = parent_num (pcb_of k1 (curr_process k1))"
    have g: "getCurrentProcessPCB (load_directory i k1) = getProcessPCB (curr_process k1)" for i
      using cp by (simp add: getCurrentProcessPCB_def)
    have "k' = snd (execute_return (exec_ret_addr (cur_pcb ?k)) (parent_ebp (cur_pcb ?k)) (parent_esp (cur_pcb ?k)) status
        ((set_active_process (terminal_index (pcb_of k1 (curr_process k1))) (int m) (load_directory (int m - 1) k1))
          \<lparr>tss_esp0 := get_kernel_stack_bottom m, active := (active k1)[curr_process k1 - 1 := False],
           curr_process := m\<rparr>))"
      using h k1 False g unfolding m_def par [symmetric] by (simp add: halt_def Let_def)
    then show ?thesis
      by (intro halt_child [OF co1 m_def])
        (use False par in \<open>simp_all add: m_def execute_return_def set_active_process_def\<close>)
  qed
qed

subsection \<open>Terminal switches and interrupts\<close>

lemma keeps_swap:
  assumes co: "coherent k" and n: "nxt < 3" "nxt \<noteq> active_terminal_index (ktty k)"
  shows "keeps k (swap_screens nxt (k\<lparr>int_flag := b\<rparr>))"
  using co switch_effect(3) [OF _ n]
  by (simp add: keeps_def swap_screens_def Let_def coherent_def base_def load_directory_def
      loadPageDirectory_def remap_video_def)

lemma new_shell:
  assumes co: "coherent k" and nxt: "nxt < 3" "active_process (term_of (ktty k) nxt) = -1"
    and pid: "1 \<le> pid" "pid \<le> 6" "\<not> active k ! (pid - 1)"
    and k': "active k' = (active k)[pid - 1 := True]" "curr_process k' = curr_process k" "tss_esp0 k' = tss_esp0 k"
      "cr3 (kpaging k') = int (curr_process k) - 1" "terminal_iter k' = terminal_iter k"
      "ktty k' = ktty (set_active_process nxt (int pid) k)"
      "\<And>q. q < 7 \<Longrightarrow> q \<noteq> pid \<Longrightarrow> core (pcb_of k' q) = core (pcb_of k q) \<and> file_array (pcb_of k' q) = file_array (pcb_of k q)"
      "terminal_index (pcb_of k' pid) = nxt" "file_array (pcb_of k' pid) = init_file_array"
      "parent_num (pcb_of k' pid) = 0" "resumable (pcb_of k' pid) pid"
  shows "coherent k'"
proof -
  let ?c = "curr_process k"
  have b: "base k" and al: "alive k ?c" and rt: "active_process (term_of (ktty k) (terminal_index (pcb_of k ?c))) = int ?c"
    using co by (simp_all add: coherent_def)
  have tok: "tty_ok (ktty k)" using b by (simp add: base_def)
  have run: "active_process (term_of (ktty k') t') = (if t' = nxt then int pid else active_process (term_of (ktty k) t'))"
    if "t' < 3" for t' unfolding k'(6) by (rule set_active_running [OF tok nxt(1) that])
  have "new_process k k' pid nxt 0"
    unfolding new_process_def using k' run set_active_tty_ok [OF tok nxt(1)] by simp
  note N = base_new_process [OF b this pid nxt(1)]
  have "base k'" using N(1) nxt(2) k'(2) by simp
  moreover have "alive k' ?c" using N(3) nxt(2) k'(2) al by simp
  moreover have cp: "?c \<noteq> pid" "?c < 7" using al pid by (auto simp: alive_def)
  then have ti: "terminal_index (pcb_of k' ?c) = terminal_index (pcb_of k ?c)"
    using k'(7) [OF cp(2,1)] by (simp add: core_def)
  have tc: "terminal_index (pcb_of k ?c) < 3" by (rule current_terminal [OF b al])
  have "terminal_index (pcb_of k ?c) \<noteq> nxt" using rt nxt(2) by auto
  then have "active_process (term_of (ktty k') (terminal_index (pcb_of k' ?c))) = int ?c"
    using run [OF tc] rt ti by simp
  ultimately show ?thesis using co k'(2-4) by (simp add: coherent_def)
qed

lemma switch_terminal_coherent:
  assumes co: "coherent k" and s: "switch_terminal fs nxt k = Some k'"
  shows "coherent k'"
proof (cases "nxt > 2 \<or> nxt = active_terminal_index (ktty k)")
  case True
  then show ?thesis using s co by (auto simp: switch_terminal_def)
next
  case False
  then have n: "nxt < 3" "nxt \<noteq> active_terminal_index (ktty k)" by simp_all
  let ?k = "k\<lparr>int_flag := False\<rparr>" and ?k1 = "swap_screens nxt (k\<lparr>int_flag := False\<rparr>)"
  have ks: "keeps k ?k1" by (rule keeps_swap [OF co n])
  have co1: "coherent ?k1" by (rule coherent_keeps [OF co ks])
  show ?thesis
  proof (cases "active_process (term_of (ktty k) nxt) = -1")
    case ap: False
    then have "k' = ?k1\<lparr>int_flag := int_flag k\<rparr>" using False s by (simp add: switch_terminal_def Let_def)
    then show ?thesis using coherent_keeps [OF co1] by simp
  next
    case ap: True
    show ?thesis
    proof (cases "find_inactive (active k) \<ge> NUM_MAX_PROCESSES")
      case full: True
      then have "k' = ?k" using False ap s by (simp add: switch_terminal_def Let_def)
      then show ?thesis using coherent_keeps [OF co] by simp
    next
      case slot: False
      define pid where "pid = find_inactive (active k) + 1"
      have len: "length (active k) = 6" and tok: "tty_ok (ktty k)" using co by (simp_all add: coherent_def base_def)
      have pid: "1 \<le> pid" "pid \<le> 6" "pid < 7" "\<not> active k ! (pid - 1)"
        using slot find_inactive_spec(2) [of "active k"] len by (simp_all add: pid_def NUM_MAX_PROCESSES_def)
      have same: "active ?k1 = active k" "curr_process ?k1 = curr_process k" "tss_esp0 ?k1 = tss_esp0 k"
        "cr3 (kpaging ?k1) = int (curr_process k) - 1"
        using ks co by (simp_all add: keeps_def coherent_def)
      have ap1: "active_process (term_of (ktty ?k1) nxt) = -1"
        using keeps_running [OF ks tok n(1)] ap by simp
      define f where "f = (\<lambda>p :: pcb. p\<lparr>arg := (arg p)[0 := 0], num_char_in_arg := 1, parent_num := 0,
         terminal_index := nxt, parent_esp := 0, parent_ebp := 0, exec_ret_addr := Null_code\<rparr>)"
      define g where "g = (\<lambda>e (p :: pcb). p\<lparr>file_array := init_file_array, current_eip := User_code e, current_ebp := 0,
         current_esp := MB_128 + MB_4 - B_4, is_user_mode := True\<rparr>)"
      obtain e um where k'eq: "k' = (set_active_process nxt (int pid) (load_directory (int (curr_process k) - 1)
          (upd_pcb (getProcessPCB pid) (g e) ((load_directory (int pid - 1) ((upd_pcb (getProcessPCB pid) f ?k1)
             \<lparr>active := (active k)[pid - 1 := True]\<rparr>))\<lparr>user_mem := um\<rparr>))))\<lparr>int_flag := int_flag k\<rparr>"
        using s slot False ap same unfolding switch_terminal_def Let_def pid_def f_def g_def
        by (auto split: option.splits)
      have mem: "pcb_of k' q = (if q = pid then g e (f (pcb_of ?k1 pid)) else pcb_of ?k1 q)" if "q < 7" for q
        using getProcessPCB_inj [OF that pid(3)] unfolding k'eq by (simp add: upd_pcb_def)
      show ?thesis
        by (rule new_shell [OF co1 n(1) ap1 pid(1,2)])
          (use pid mem [OF pid(3)] mem same in \<open>simp_all add: k'eq f_def g_def resumable_def set_active_process_def\<close>)
    qed
  qed
qed

text \<open>The search of the scheduler, when some terminal runs a process.\<close>

lemma find_running_unfold:
  assumes "t < 3" and "active_process (ts ! t) \<noteq> -1"
  shows "find_running ts iter =
    (if active_process (ts ! ((iter + 1) mod 3)) \<noteq> -1 then Some ((iter + 1) mod 3)
     else if active_process (ts ! ((iter + 2) mod 3)) \<noteq> -1 then Some ((iter + 2) mod 3)
     else Some ((iter + 3) mod 3))"
    and "active_process (ts ! ((iter + 1) mod 3)) = -1 \<Longrightarrow> active_process (ts ! ((iter + 2) mod 3)) = -1 \<Longrightarrow>
      active_process (ts ! ((iter + 3) mod 3)) \<noteq> -1"
proof -
  have m: "((iter + 1) mod 3 + 1) mod 3 = (iter + 2) mod 3" "((iter + 2) mod 3 + 1) mod 3 = (iter + 3) mod 3"
    by (simp_all add: mod_Suc_eq)
  have "iter mod 3 = 0 \<or> iter mod 3 = 1 \<or> iter mod 3 = 2" by (rule less3) simp
  then have cov: "t = (iter + 1) mod 3 \<or> t = (iter + 2) mod 3 \<or> t = (iter + 3) mod 3"
    using less3 [OF assms(1)] by (elim disjE) (simp_all add: mod_Suc)
  show last: "active_process (ts ! ((iter + 1) mod 3)) = -1 \<Longrightarrow> active_process (ts ! ((iter + 2) mod 3)) = -1 \<Longrightarrow>
      active_process (ts ! ((iter + 3) mod 3)) \<noteq> -1"
    using cov assms(2) by (elim disjE) simp_all
  have step: "find_running ts i = (if active_process (ts ! ((i + 1) mod 3)) = -1
      then find_running ts ((i + 1) mod 3) else Some ((i + 1) mod 3))" for i
    by (subst find_running.simps) (simp add: NUM_TERMINALS_def Let_def)
  show "find_running ts iter =
    (if active_process (ts ! ((iter + 1) mod 3)) \<noteq> -1 then Some ((iter + 1) mod 3)
     else if active_process (ts ! ((iter + 2) mod 3)) \<noteq> -1 then Some ((iter + 2) mod 3)
     else Some ((iter + 3) mod 3))"
    using last step [of iter] step [of "(iter + 1) mod 3"] step [of "(iter + 2) mod 3"] unfolding m by presburger
qed

lemma find_running_next:
  assumes "t < 3" and "active_process (ts ! t) \<noteq> -1"
  obtains i where "find_running ts iter = Some i" "i < 3" "active_process (ts ! i) \<noteq> -1"
  using find_running_unfold [OF assms, of iter] that [of "(iter + 1) mod 3"] that [of "(iter + 2) mod 3"]
    that [of "(iter + 3) mod 3"] by (simp split: if_splits)

text \<open>The outgoing process is saved in its control block.\<close>

definition saved :: "kernel \<Rightarrow> kernel" where
  "saved k = upd_pcb (getCurrentProcessPCB k)
     (\<lambda>p. p\<lparr>current_ebp := ebp k, current_esp := esp k, current_eip := EIP_RETURN, is_user_mode := False\<rparr>) k"

definition dispatched :: "nat \<Rightarrow> nat \<Rightarrow> kernel \<Rightarrow> kernel" where
  "dispatched i pid k = (load_directory (int pid - 1) (k\<lparr>terminal_iter := i\<rparr>))
     \<lparr>tss_esp0 := get_kernel_stack_bottom pid, curr_process := pid\<rparr>"

lemma dispatched_coherent:
  assumes en: "at_entry k" and i: "i < 3" "active_process (term_of (ktty k) i) = int pid" "1 \<le> pid"
  shows "coherent (dispatched i pid (saved k))" and "pid \<noteq> curr_process k \<Longrightarrow> resumable (pcb_of k pid) pid"
    and "resumable (pcb_of (saved k) pid) pid" and "alive k pid"
proof -
  let ?c = "curr_process k" and ?s = "saved k" and ?k' = "dispatched i pid (saved k)"
  note cp = at_entry_current [OF en]
  have co: "coherent k" and st: "in_stack ?c (esp k)" using en by (simp_all add: at_entry_def)
  have b: "base k" using co by (simp add: coherent_def)
  have pcb: "pcb_of ?s q = (if q = ?c then (pcb_of k ?c)\<lparr>current_ebp := ebp k, current_esp := esp k,
      current_eip := EIP_RETURN, is_user_mode := False\<rparr> else pcb_of k q)" if "q < 7" for q
    unfolding saved_def cp(1) by (rule core_start [OF that cp(3)])
  have old: "terminal_index (pcb_of ?s q) = terminal_index (pcb_of k q)" "parent_num (pcb_of ?s q) = parent_num (pcb_of k q)"
      "parent_esp (pcb_of ?s q) = parent_esp (pcb_of k q)" "exec_ret_addr (pcb_of ?s q) = exec_ret_addr (pcb_of k q)"
      "file_array (pcb_of ?s q) = file_array (pcb_of k q)" for q
    unfolding saved_def cp(1) by (simp_all add: upd_pcb_def)
  have res: "resumable (pcb_of ?s q) q" if "alive k q" "q \<noteq> ?c \<Longrightarrow> resumable (pcb_of k q) q" for q
    using that pcb [of q] st by (auto simp: resumable_def alive_def)
  note R = base_runs [OF b i]
  show "resumable (pcb_of k pid) pid" if "pid \<noteq> ?c" using R(4) that .
  show "alive k pid" by (rule R(1))
  show "resumable (pcb_of ?s pid) pid" by (rule res [OF R(1)]) (rule R(4))
  have sel: "ktty ?k' = ktty k" "pcb_mem ?k' = pcb_mem ?s" "active ?k' = active k" "curr_process ?k' = pid"
    "terminal_iter ?k' = i" "tss_esp0 ?k' = get_kernel_stack_bottom pid" "cr3 (kpaging ?k') = int pid - 1"
    by (simp_all add: dispatched_def saved_def)
  have al: "alive ?k' q = alive k q" for q by (simp add: alive_def sel)
  have tr: "terminal_runs ?k' t" if t: "t < 3" for t
  proof -
    have "terminal_runs k t" using b t by (simp add: base_def)
    then show ?thesis using res by (auto simp: terminal_runs_def Let_def sel al old)
  qed
  have pr: "process_ok ?k' q" if "alive ?k' q" for q
  proof -
    have "process_ok k q" using b that by (simp add: base_def al)
    then show ?thesis by (simp add: process_ok_def sel al old)
  qed
  have "base ?k'" using b tr pr i(1) unfolding base_def sel al old by blast
  then show "coherent ?k'" using R(1,2) i by (simp add: coherent_def sel al old)
qed

lemma scheduler_cases:
  assumes en: "at_entry k"
  obtains i pid t k' where "find_running (terminals (ktty k)) (terminal_iter k) = Some i" "i < 3" "1 \<le> pid"
    "active_process (term_of (ktty k) i) = int pid"
    "scheduler_handler k = Some (t, k')" "keeps (dispatched i pid (saved k)) k'" "coherent k'"
    "t = (let p = pcb_of (saved k) pid in if is_user_mode p then To_user (current_eip p) (current_esp p) (current_ebp p)
            else To_kernel (current_eip p) (current_esp p) (current_ebp p))"
proof -
  have co: "coherent k" using en by (simp add: at_entry_def)
  have b: "base k" and al: "alive k (curr_process k)" using co by (simp_all add: coherent_def)
  have c0: "active_process (term_of (ktty k) (terminal_index (pcb_of k (curr_process k)))) \<noteq> -1"
    using co by (simp add: coherent_def)
  obtain i where i: "find_running (terminals (ktty k)) (terminal_iter k) = Some i" "i < 3"
      "active_process (term_of (ktty k) i) \<noteq> -1"
    using find_running_next [OF current_terminal [OF b al] c0] by blast
  have "terminal_runs k i" using b i(2) by (simp add: base_def)
  then obtain pid where pid: "active_process (term_of (ktty k) i) = int pid" "alive k pid"
    using i(3) by (auto simp: terminal_runs_def Let_def)
  have p1: "1 \<le> pid" using pid(2) by (simp add: alive_def)
  note D = dispatched_coherent [OF en i(2) pid(1) p1]
  let ?d = "dispatched i pid (saved k)"
  have same: "ktty (saved k) = ktty k" "terminal_iter (saved k) = terminal_iter k"
    by (simp_all add: saved_def)
  have nx: "pcb_of ?d pid = pcb_of (saved k) pid" by (simp add: dispatched_def)
  have sch: "schedule k = Some (if is_user_mode (pcb_of ?d pid)
       then context_switch (current_eip (pcb_of ?d pid)) (current_esp (pcb_of ?d pid)) (current_ebp (pcb_of ?d pid)) (out_ports (send_eoi 0) ?d)
       else kernel_context_switch (current_eip (pcb_of ?d pid)) (current_esp (pcb_of ?d pid)) (current_ebp (pcb_of ?d pid)) ?d)"
    using i(1) pid(1) unfolding schedule_def saved_def [symmetric] Let_def same
    by (simp add: same) (simp add: dispatched_def)
  let ?p = "pcb_of (saved k) pid"
  define k' where "k' = (if is_user_mode ?p then (out_ports (send_eoi 0) ?d)\<lparr>int_flag := True\<rparr>
      else out_ports (send_eoi 0) (?d\<lparr>ebp := current_ebp ?p, int_flag := True\<rparr>))"
  have sh: "scheduler_handler k = Some (if is_user_mode ?p then To_user (current_eip ?p) (current_esp ?p) (current_ebp ?p)
            else To_kernel (current_eip ?p) (current_esp ?p) (current_ebp ?p), k')"
    using sch nx by (simp add: scheduler_handler_def context_switch_def kernel_context_switch_def k'_def)
  have ks: "keeps ?d k'"
    using keeps_out_ports [of ?d "send_eoi 0"] by (simp add: k'_def keeps_def out_ports_def tty_ok_def)
  then have "coherent k'" by (rule coherent_keeps [OF D(1)])
  with i pid p1 sh ks show thesis by (intro that [of i pid]) (auto simp: Let_def)
qed

lemma key_coherent:
  assumes co: "coherent k" and h: "key_handler fs sc nxt k = Some k'"
  shows "coherent k'"
proof -
  let ?t = "fst (handle_keypress sc nxt (ktty k))"
  have "keeps k (k\<lparr>ktty := ?t\<rparr>)"
    by (rule keeps_ktty) (simp_all add: handle_keypress_effect)
  then have c1: "coherent (k\<lparr>ktty := ?t\<rparr>)" by (rule coherent_keeps [OF co])
  have port: "coherent k2 \<Longrightarrow> coherent (out_ports es k2)" for k2 es using coherent_keeps by simp
  show ?thesis
    using h c1 switch_terminal_coherent [OF c1]
    by (auto simp: key_handler_def Let_def case_prod_beta intro: port split: option.splits)
qed

lemma keeps_rtc_handler: "keeps k (rtc_handler k)"
proof -
  let ?f = "\<lambda>p. if rtc_count p \<noteq> 0 then p\<lparr>rtc_count := rtc_count p - 1\<rparr> else p"
  have "keeps k (fold (\<lambda>pid. upd_pcb (getProcessPCB pid) ?f) ps k)" for ps
  proof (induction ps rule: rev_induct)
    case (snoc p ps)
    have "keeps k2 (upd_pcb a ?f k2)" for a k2
      by (rule keeps_upd_pcb) (simp_all add: core_def)
    then show ?case using keeps_trans [OF snoc] by simp
  qed (simp add: keeps_refl)
  then show ?thesis unfolding rtc_handler_def by (rule keeps_trans [OF _ keeps_out_ports])
qed

lemma syscall_coherent:
  assumes en: "at_entry k"
    and d: "syscall_dispatcher L fs junk before out eax ebx ecx edx k = Some (r, k')"
  shows "coherent k'"
proof -
  have co: "coherent k" and cr: "cr3 (kpaging k) = int (curr_process k) - 1"
    using en by (simp_all add: at_entry_def coherent_def)
  have ti: "terminal_index (cur_pcb k) < 3" by (rule at_entry_current(2) [OF en])
  note K = coherent_keeps [OF co]
  show ?thesis
    using d co unfolding syscall_dispatcher_def returns_def reads_def transfers_def set_handler_def sigreturn_def
    by (auto split: if_splits intro: halt_coherent [OF en] execute_coherent [OF en]
        K [OF keeps_open] K [OF keeps_close] K [OF keeps_getargs] K [OF keeps_vidmap [OF _ cr]]
        K [OF keeps_write [OF _ ti]] K [OF keeps_read [OF _ ti]])
qed

lemma kstep_coherent:
  assumes "kstep L fs k k'" and co: "coherent k"
  shows "coherent k'"
  using assms(1)
proof cases
  case (syscall d eax ebx ecx edx bp junk before out r)
  then show ?thesis using syscall_coherent [OF at_entry_enter [OF co]] by blast
next
  case (copy d buf nbytes bp r)
  have "at_entry (enter d bp k)" by (rule at_entry_enter [OF co copy(1)])
  then show ?thesis
    using coherent_keeps [OF _ keeps_read_copy [OF copy(2)]] at_entry_current(2) by (simp add: at_entry_def)
next
  case (timer d bp t)
  have "at_entry (enter d bp k)" by (rule at_entry_enter [OF co timer(1)])
  then show ?thesis using timer(2) by (elim scheduler_cases) simp
next
  case (key d sc nxt bp)
  have "coherent (enter d bp k)" using co by (simp add: coherent_enter)
  then show ?thesis using key(2) by (rule key_coherent)
next
  case (rtc d bp)
  have "coherent (enter d bp k)" using co by (simp add: coherent_enter)
  then show ?thesis using coherent_keeps [OF _ keeps_rtc_handler] rtc(2) by simp
next
  case (program m)
  then show ?thesis using coherent_keeps [OF co keeps_simple(2)] by simp
next
  case (window v)
  have "keeps k (k\<lparr>ktty := (ktty k)\<lparr>vram := v\<rparr>\<rparr>)" by (rule keeps_ktty) (simp_all add: tty_ok_def)
  then show ?thesis using coherent_keeps [OF co] window by simp
qed

lemma boot_base: "boot_ok k \<Longrightarrow> base k \<and> (\<forall>q. \<not> alive k q)"
  and boot_runs: "boot_ok k \<Longrightarrow> t < 3 \<Longrightarrow> active_process (term_of (ktty k) t) = -1"
proof -
  assume b: "boot_ok k"
  then have tok: "tty_ok (ktty k)" and m: "map active_process (terminals (ktty k)) = [-1, -1, -1]"
    by (simp_all add: boot_ok_def)
  show run: "active_process (term_of (ktty k) t) = -1" if "t < 3" for t
    using procs_nth [OF tty_okD(2) [OF tok that]] m less3 [OF that] by (auto simp: procs_def)
  have al: "\<not> alive k q" for q using b by (auto simp: alive_def boot_ok_def)
  then show "base k \<and> (\<forall>q. \<not> alive k q)"
    using b tok run by (simp add: base_def boot_ok_def terminal_runs_def)
qed

lemma machine_coherent: "machine L fs k \<Longrightarrow> coherent k"
proof (induction rule: machine.induct)
  case (boot k0 junk eip sp bp k)
  have b: "base k0" and na: "\<And>q. \<not> alive k0 q" using boot_base [OF boot(1)] by blast+
  have c0: "curr_process k0 = 0" "in_stack 0 (esp k0)" "terminal_index (pcb_of k0 0) = 0"
    using boot(1) by (simp_all add: boot_ok_def)
  have len: "length (active k0) = 6" using b by (simp add: base_def)
  from len boot(2) show ?case
  proof (cases rule: execute_cases)
    case (started pid k3)
    have "coherent (snd (start_process pid k3))"
      by (rule loaded_start [OF started(1) b]) (use c0 boot_runs [OF boot(1)] in simp_all)
    moreover have "snd (start_process pid k3) = k" by (metis started(2) snd_conv)
    ultimately show ?thesis by simp
  qed simp_all
next
  case (step k k')
  then show ?case using kstep_coherent by blast
qed

end
