(* ===== verification/Kernel_Spec.thy ===== *)
theory Kernel_Spec
  imports Sched
begin

text \<open>
  What the kernel promises: the machine's processes stay coherent, a process that halts
  returns to where its parent called \<open>execute\<close>, the scheduler serves every terminal, the
  arguments of a command reach the new process, the pages handed out by \<open>vidmap\<close> follow their
  terminal; and the descriptor that \<open>open\<close> loses.
\<close>

section \<open>A machine that starts\<close>

text \<open>An image with two directory entries, \<open>shell\<close>, a program of 28 bytes, and \<open>rtc\<close>.\<close>

definition boot_fs :: image where
  "boot_fs a =
     (if a = 4 \<or> a = 8 then 1
      else if a = 64 then 115 else if a = 65 then 104 else if a = 66 then 101
      else if a = 67 then 108 else if a = 68 then 108 else if a = 96 then 2
      else if a = 128 then 114 else if a = 129 then 116 else if a = 130 then 99
      else if a = 4096 then 28
      else if a = 8192 then 0x7F else if a = 8193 then 0x45 else if a = 8194 then 0x4C else if a = 8195 then 0x46
      else if a = 8216 then 0x18 else if a = 8217 then 0x80 else if a = 8218 then 0x04 else if a = 8219 then 0x08
      else 0)"

lemma boot_fs_file: "boot_inode_count boot_fs = 1" "inode_length boot_fs 0 = 28" "file_ok boot_fs 0"
  and boot_fs_byte: "p < 4096 \<Longrightarrow> file_byte boot_fs 0 p = boot_fs (8192 + of_nat p)"
proof -
  show c: "boot_inode_count boot_fs = 1" by (simp add: boot_inode_count_def le32_def boot_fs_def)
  show l: "inode_length boot_fs 0 = 28"
    by (simp add: inode_length_def le32_def inode_at_def NUM_B_IN_FOUR_KB_def boot_fs_def)
  have n: "inode_block_num boot_fs 0 0 = 0"
    by (simp add: inode_block_num_def le32_def inode_at_def NUM_B_IN_FOUR_KB_def boot_fs_def)
  have "boot_data_count boot_fs = 1" by (simp add: boot_data_count_def le32_def boot_fs_def)
  then show "file_ok boot_fs 0" by (simp add: file_ok_def l block_valid_def n)
  have "data_block_at boot_fs 0 = 8192" by (simp add: data_block_at_def c NUM_B_IN_FOUR_KB_def)
  then show "p < 4096 \<Longrightarrow> file_byte boot_fs 0 p = boot_fs (8192 + of_nat p)"
    by (simp add: file_byte_def n)
qed

lemma cut_shell: "(\<And>i. i < 6 \<Longrightarrow> s (of_nat i) = shell_name (of_nat i)) \<Longrightarrow> cut_str s 0 32 = [115, 104, 101, 108, 108]"
proof -
  assume s: "\<And>i. i < 6 \<Longrightarrow> s (of_nat i) = shell_name (of_nat i)"
  have v: "s 0 = 115" "s 1 = 104" "s 2 = 101" "s 3 = 108" "s 4 = 108" "s 5 = 0"
    using s [of 0] s [of 1] s [of 2] s [of 3] s [of 4] s [of 5] by (simp_all add: shell_name_def)
  have n: "(32 :: nat) = Suc (Suc (Suc (Suc (Suc (Suc 26)))))" by simp
  show ?thesis unfolding n cut_str_Suc by (simp add: v)
qed

lemma boot_lookup: 
  assumes "\<And>i. i < 6 \<Longrightarrow> s (of_nat i) = shell_name (of_nat i)"
  shows "read_dentry_by_name boot_fs (Some s) = (0, Some (direntry boot_fs 0))"
proof -
  have "cut_str (\<lambda>i. boot_fs (direntry_at 0 + i)) 0 32 = [115, 104, 101, 108, 108]"
  proof (rule cut_shell)
    fix i :: nat assume "i < 6"
    then have "i = 0 \<or> i = 1 \<or> i = 2 \<or> i = 3 \<or> i = 4 \<or> i = 5" by linarith
    then show "boot_fs (direntry_at 0 + of_nat i) = shell_name (of_nat i)"
      by (elim disjE) (simp_all add: direntry_at_def boot_fs_def shell_name_def)
  qed
  then have "entry_name boot_fs 0 = [115, 104, 101, 108, 108]"
    by (simp add: entry_name_def dname_cut)
  moreover have "s 0 \<noteq> 0" using assms [of 0] by (simp add: shell_name_def)
  ultimately show ?thesis
    using cut_shell [of s] assms
    by (simp add: read_dentry_by_name_def dentry_search_spec upt_conv_Cons [of 0 63])
qed

lemma boot_entry: "filetype (direntry boot_fs 0) = 2" "dinode (direntry boot_fs 0) = 0"
  by (simp_all add: direntry_def le32_def direntry_at_def boot_fs_def)

lemma boot_load:
  assumes s: "\<And>i. i < 6 \<Longrightarrow> s (of_nat i) = shell_name (of_nat i)"
  shows "load_program boot_fs s m V_PROGRAM_BASE
    = Some (0, wr m V_PROGRAM_BASE (map (file_byte boot_fs 0) [0..<28]))"
proof -
  let ?bs = "map (file_byte boot_fs 0) [0..<28]"
  have v: "s 0 = 115" "s 1 = 104" "s 2 = 101" "s 3 = 108" "s 4 = 108" "s 5 = 0"
    using s [of 0] s [of 1] s [of 2] s [of 3] s [of 4] s [of 5] by (simp_all add: shell_name_def)
  have "is_cstr s 0 [115, 104, 101, 108, 108]"
    by (simp add: is_cstr_def rd_def upt_rec v)
  then have len: "c_strlen s 0 = Some 5" by simp
  have rdd: "read_data boot_fs 0 0 28 = (28, ?bs)"
    using read_data_ok [of 0 boot_fs 28 0] boot_fs_file by simp
  have l: "length ?bs = 28" by simp
  have "rd (wr m V_PROGRAM_BASE ?bs) V_PROGRAM_BASE 4 = map (\<lambda>i. ?bs ! i) [0..<4]"
    by (rule nth_equalityI) (simp_all add: wr_apply)
  also have "\<dots> = [0x7F, 0x45, 0x4C, 0x46]"
    by (simp add: upt_rec boot_fs_byte boot_fs_def)
  finally have "rd (wr m V_PROGRAM_BASE ?bs) V_PROGRAM_BASE 4 = [0x7F, 0x45, 0x4C, 0x46]" .
  then show ?thesis
    using boot_fs_file rdd by (simp add: load_program_def len boot_lookup [OF s] boot_entry Let_def)
qed

lemma shell_values: "shell_name 0 = 115" "shell_name 1 = 104" "shell_name 2 = 101" "shell_name 3 = 108"
  "shell_name 4 = 108" "shell_name 5 = 0"
  by (simp_all add: shell_name_def)

lemma parse_step:
  "i < 32 \<Longrightarrow> command (of_nat i) \<noteq> 32 \<Longrightarrow> command (of_nat i) \<noteq> 0 \<Longrightarrow>
     parse_filename command (i + 1) = (bs, i') \<Longrightarrow> parse_filename command i = (command (of_nat i) # bs, i')"
  by (subst parse_filename.simps) simp

lemma shell_parse: "parse_filename shell_name 0 = ([115, 104, 101, 108, 108, 0], 5)" "skip_spaces shell_name 5 = Some 5"
proof -
  note S = parse_step [where command = shell_name]
  have "parse_filename shell_name 5 = ([0], 5)"
    by (subst parse_filename.simps) (simp add: shell_values)
  then have "parse_filename shell_name 4 = ([108, 0], 5)" using S [of 4 "[0]" 5] by (simp add: shell_values)
  then have "parse_filename shell_name 3 = ([108, 108, 0], 5)" using S [of 3 "[108, 0]" 5] by (simp add: shell_values)
  then have "parse_filename shell_name 2 = ([101, 108, 108, 0], 5)"
    using S [of 2 "[108, 108, 0]" 5] by (simp add: shell_values)
  then have p2: "parse_filename shell_name (1 + 1) = ([101, 108, 108, 0], 5)" by (simp only: one_add_one)
  have "parse_filename shell_name 1 = ([104, 101, 108, 108, 0], 5)"
    using S [OF _ _ _ p2] by (simp add: shell_values)
  then show "parse_filename shell_name 0 = ([115, 104, 101, 108, 108, 0], 5)"
    using S [of 0 "[104, 101, 108, 108, 0]" 5] by (simp add: shell_values)
  show "skip_spaces shell_name 5 = Some 5" by (subst skip_spaces.simps) (simp add: shell_values)
qed

definition blank_pcb :: pcb where
  "blank_pcb = \<lparr>file_array = replicate 8 blank, parent_num = 0, parent_esp = 0, current_esp = 0, parent_ebp = 0,
     current_ebp = 0, current_eip = Null_code, exec_ret_addr = Null_code, rtc_count = 0, arg = replicate 128 0,
     num_char_in_arg = 0, terminal_index = 0, is_user_mode = False\<rparr>"

definition boot_kernel :: kernel where
  "boot_kernel = \<lparr>ktty = demo_tty, pcb_mem = (\<lambda>_. blank_pcb), active = replicate 6 False, curr_process = 0,
     terminal_iter = 0, tss_esp0 = 0x800000, esp = 0x7FFF00, ebp = 0x7FFF80, int_flag = False,
     kpaging = demo_paging, user_mem = (\<lambda>_ _. 0)\<rparr>"

lemma boot_kernel_ok: "boot_ok boot_kernel"
proof -
  have "map active_process (terminals demo_tty) = [-1, -1, -1]" by (simp add: demo_tty_def init_terminal_def)
  moreover have "in_stack 0 0x7FFF00" using pcb_addresses [of 0] by (simp add: in_stack_def)
  ultimately show ?thesis by (simp add: boot_ok_def boot_kernel_def demo_ok blank_pcb_def)
qed

definition first_shell :: kernel where
  "first_shell = snd (the (execute boot_fs (\<lambda>_. 0) shell_name boot_kernel))"

lemma shell_execute:
  assumes "find_inactive (active k) < 6"
  shows "\<exists>eip k'. execute boot_fs (\<lambda>_. 0) shell_name k = Some (To_user eip (MB_128 + MB_4 - B_4) 0, k')"
proof -
  have s: "filename_of (\<lambda>_. 0) [115, 104, 101, 108, 108, 0] (of_nat i) = shell_name (of_nat i)" if "i < 6" for i
  proof -
    have "i = 0 \<or> i = 1 \<or> i = 2 \<or> i = 3 \<or> i = 4 \<or> i = 5" using that by linarith
    then show ?thesis by (elim disjE) (simp_all add: filename_of_def shell_name_def)
  qed
  obtain k3 pid where "execute boot_fs (\<lambda>_. 0) shell_name k = Some (start_process pid k3)"
    using assms unfolding execute_def
    by (simp add: shell_parse boot_load [OF s] case_prod_beta Let_def NUM_MAX_PROCESSES_def)
  then show ?thesis by (auto simp: start_process_def context_switch_def Let_def)
qed

lemma first_shell_execute:
  "\<exists>eip. execute boot_fs (\<lambda>_. 0) shell_name boot_kernel = Some (To_user eip (MB_128 + MB_4 - B_4) 0, first_shell)"
proof -
  have "find_inactive (active boot_kernel) < 6" by (simp add: boot_kernel_def numeral_eq_Suc)
  then show ?thesis using shell_execute [of boot_kernel] by (auto simp: first_shell_def)
qed

lemma first_shell_machine: "machine L boot_fs first_shell"
  using first_shell_execute machine.boot [OF boot_kernel_ok] by blast

section \<open>Coherence\<close>

text \<open>Calls with buffers in the program page are answered: no store of theirs leaves the page.\<close>

lemma keeps_files: "keeps k k' \<Longrightarrow> at_entry k \<Longrightarrow> files_ok (file_array (cur_pcb k'))"
proof -
  assume "keeps k k'" "at_entry k"
  then have en: "at_entry k'" by (rule keeps_entry [rotated])
  then have "process_ok k' (curr_process k')" by (simp add: at_entry_def coherent_def base_def)
  then show ?thesis using at_entry_current(1) [OF en] by (simp add: process_ok_def)
qed

lemma store_fits: "length bs \<le> n \<Longrightarrow> n = 0 \<or> user_range a n \<Longrightarrow> store_user a bs k \<noteq> None"
  by (auto simp: store_user_def user_range_def)

lemma read_cap_le: "unat (read_cap n) \<le> unat n"
proof (cases "128 < sint n")
  case True
  then have "128 < unat n" using sint_nonneg_u32 [of n] by linarith
  with True show ?thesis by (simp add: read_cap_def TERMINAL_BUFFER_SIZE_def)
qed (simp add: read_cap_def TERMINAL_BUFFER_SIZE_def)

lemma copy_fits:
  assumes "tty_ok (ktty k)" and "terminal_index (cur_pcb k) < 3"
    and "user_range buf (min 128 (unat nbytes)) \<or> unat nbytes = 0"
  shows "read_copy buf nbytes k \<noteq> None"
proof -
  let ?i = "terminal_index (cur_pcb k)"
  have "chars_in_buffer (term_of (ktty k) ?i) \<le> 128"
    using tty_okD(1) [OF assms(1,2)] by (simp add: term_ok_def TERMINAL_BUFFER_SIZE_def)
  then have "length (fst (read_take (term_of (ktty k) ?i) (read_cap nbytes))) \<le> min 128 (unat nbytes)"
    using read_cap_le [of nbytes] by (auto simp: read_take_def Let_def)
  then show ?thesis
    using store_fits [of _ "min 128 (unat nbytes)" buf] assms(3)
    by (auto simp: read_copy_def Let_def case_prod_beta)
qed

lemma dentry_name_length: "length (takeWhile P (dname (direntry fs i))) \<le> 32"
  using length_takeWhile_le [of P "dname (direntry fs i)"] by (simp add: direntry_def rd_def)

lemma answered_read:
  assumes en: "at_entry k" and own: "own_buffers fs 3 ebx ecx edx k"
    and rate: "\<forall>f \<in> set (file_array (cur_pcb k)). file_ops_table_ptr f = Rtc_ops \<longrightarrow> file_position f \<noteq> 0"
  shows "sys_read fs before (sint ebx) ecx edx k \<noteq> None"
proof (cases "sint ebx < 0 \<or> sint ebx > 7 \<or> flags (file_array (cur_pcb k) ! nat (sint ebx)) = FILE_AVAIL")
  case True
  then show ?thesis by (auto simp: sys_read_def Let_def)
next
  case False
  let ?i = "nat (sint ebx)" and ?fa = "file_array (cur_pcb k)"
  have i: "?i < 8" using False by auto
  have fa: "files_ok ?fa" using en keeps_files keeps_refl by blast
  then have in_fa: "?fa ! ?i \<in> set ?fa" "file_ops_table_ptr (?fa ! ?i) \<noteq> No_ops"
    using i False by (auto simp: files_ok_def)
  have n: "read_fills fs ?i ecx edx k = 0 \<or> user_range ecx (read_fills fs ?i ecx edx k)"
    using own False by (simp add: own_buffers_def Let_def)
  have tt: "tty_ok (ktty k)" "terminal_index (cur_pcb k) < 3"
    using en at_entry_current(2) [OF en] by (simp_all add: at_entry_def coherent_def base_def)
  show ?thesis
  proof (cases "file_ops_table_ptr (?fa ! ?i)")
    case Terminal_ops
    have "read_copy ecx edx (k\<lparr>int_flag := True\<rparr>) \<noteq> None" if "ecx \<noteq> 0"
      by (rule copy_fits) (use tt n that Terminal_ops in \<open>auto simp: read_fills_def Let_def getCurrentProcessPCB_def\<close>)
    then show ?thesis using False Terminal_ops by (auto simp: sys_read_def read_terminal_def Let_def)
  next
    case File_ops
    obtain r bs fa1 where f: "file_read fs ?fa ?i edx = (r, bs, fa1)" by (metis prod_cases3)
    have "length bs \<le> read_fills fs ?i ecx edx k"
      using f read_data_length [of fs "inode_num (?fa ! ?i)" "file_position (?fa ! ?i)" edx] File_ops
      by (auto simp: file_read_def read_fills_def Let_def case_prod_beta split: if_splits)
    then show ?thesis using False File_ops f store_fits [OF _ n] by (simp add: sys_read_def Let_def)
  next
    case Directory_ops
    obtain r bs fa1 where f: "directory_read fs ?fa ?i = (r, bs, fa1)" by (metis prod_cases3)
    have "length bs \<le> read_fills fs ?i ecx edx k"
      using f dentry_name_length Directory_ops
      by (auto simp: directory_read_def read_dentry_by_index_def read_fills_def Let_def split: if_splits option.splits)
    then show ?thesis using False Directory_ops f store_fits [OF _ n] by (simp add: sys_read_def Let_def)
  next
    case Rtc_ops
    then show ?thesis using False rate in_fa by (auto simp: sys_read_def read_rtc_def rtc_read_count_def Let_def)
  qed (use in_fa in simp)
qed

lemma answered:
  assumes en: "at_entry k" and own: "own_buffers fs eax ebx ecx edx k" and eax: "eax \<in> {3, 4, 7, 8}"
    and rate: "\<forall>f \<in> set (file_array (cur_pcb k)). file_ops_table_ptr f = Rtc_ops \<longrightarrow> file_position f \<noteq> 0"
  shows "syscall_dispatcher L fs junk before out eax ebx ecx edx k \<noteq> None"
proof -
  have fa: "files_ok (file_array (cur_pcb k))" using en keeps_files keeps_refl by blast
  have w: "sys_write out (sint ebx) ecx edx k \<noteq> None"
  proof (cases "sint ebx < 0 \<or> sint ebx > 7 \<or> flags (file_array (cur_pcb k) ! nat (sint ebx)) = FILE_AVAIL")
    case False
    moreover from this have "nat (sint ebx) < 8" by auto
    ultimately have "file_ops_table_ptr (file_array (cur_pcb k) ! nat (sint ebx)) \<noteq> No_ops"
      using fa by (auto simp: files_ok_def)
    then show ?thesis using False by (cases "file_ops_table_ptr (file_array (cur_pcb k) ! nat (sint ebx))")
      (simp_all add: sys_write_def Let_def)
  qed (auto simp: sys_write_def Let_def)
  have g: "getargs ebx ecx k \<noteq> None" if "eax = 7"
    using own that store_fits [of "take (num_char_in_arg (cur_pcb k)) (arg (cur_pcb k))" "num_char_in_arg (cur_pcb k)" ebx k]
    by (auto simp: getargs_def own_buffers_def Let_def not_less)
  have v: "vidmap L ebx k \<noteq> None"
  proof -
    have "user_range ebx 4" if "MB_128 \<le> ebx" "ebx \<le> MB_128 + MB_4 - B_4"
      using that by (simp add: user_range_def word_le_nat_alt MB_128_def MB_4_def B_4_def)
    then show ?thesis
      using store_fits [of "dword_bytes MB_256" 4 ebx "k\<lparr>int_flag := False\<rparr>"] at_entry_current(4) [OF en]
      by (auto simp: vidmap_def Let_def not_less dword_bytes_def)
  qed
  show ?thesis
    using eax w g v answered_read [OF en _ rate, of fs ebx ecx edx before] own
    by (auto simp: syscall_dispatcher_def returns_def reads_def)
qed

text \<open>
  C24. Whatever system calls and interrupts a started machine has gone through, as long as the
  programs let \<open>read\<close> and \<open>getargs\<close> fill only buffers that lie in their own page
  (\<open>own_buffers\<close>, a premise of every system call of \<open>kstep\<close>; the kernel does not check it, and a
  \<open>read\<close> into kernel memory can overwrite control blocks): the current process is one of the six
  and marked active, \<open>cr3\<close> holds its page directory, its terminal names it as the running
  process, and on the next kernel entry, at any depth the stack leaves room for, the code finds
  the control block of exactly that process.  Every terminal runs nothing or a live process of
  its own, which can be resumed if it is not the current one, and no descriptor of a live process
  is in use without operations to call.  The premise loses no execution but those: from every such
  state each \<open>read\<close>, \<open>write\<close>, \<open>getargs\<close> and \<open>vidmap\<close> with such buffers, and with any pointer to
  be read from, has a result (a rate being set for every RTC descriptor, by which \<open>rtc_read\<close>
  divides).
\<close>

theorem kernel_state_coherent:
  fixes bp :: u32
  assumes "machine L fs k" and "d \<le> 7680"
  defines "p \<equiv> curr_process k" and "e \<equiv> enter d bp k"
  shows "alive k p \<and> cr3 (kpaging k) = int p - 1
    \<and> getCurrentProcessPCB e = getProcessPCB p
    \<and> active_process (term_of (ktty k) (terminal_index (pcb_of k p))) = int p
    \<and> (\<forall>t < 3. active_process (term_of (ktty k) t) = -1 \<or>
         (\<exists>q. active_process (term_of (ktty k) t) = int q \<and> alive k q \<and> terminal_index (pcb_of k q) = t
            \<and> (q \<noteq> p \<longrightarrow> resumable (pcb_of k q) q)))
    \<and> (\<forall>q. alive k q \<longrightarrow> files_ok (file_array (pcb_of k q)))
    \<and> (own_buffers fs eax ebx ecx edx e \<and> eax \<in> {3, 4, 7, 8}
        \<and> (\<forall>f \<in> set (file_array (cur_pcb e)). file_ops_table_ptr f = Rtc_ops \<longrightarrow> file_position f \<noteq> 0)
        \<longrightarrow> syscall_dispatcher L fs junk before out eax ebx ecx edx e \<noteq> None)"
proof -
  have co: "coherent k" by (rule machine_coherent [OF assms(1)])
  have en: "at_entry e" unfolding e_def by (rule at_entry_enter [OF co assms(2)])
  have "curr_process e = p" by (simp add: enter_def p_def e_def)
  then have "getCurrentProcessPCB e = getProcessPCB p" using at_entry_current(1) [OF en] by simp
  moreover have "\<forall>t < 3. terminal_runs k t" "\<forall>q. alive k q \<longrightarrow> process_ok k q"
    using co by (simp_all add: coherent_def base_def)
  ultimately show ?thesis
    using co answered [OF en] unfolding coherent_def p_def terminal_runs_def process_ok_def Let_def by blast
qed

lemma kernel_state_coherent_witness:
  "getCurrentProcessPCB (enter 200 0 first_shell) = getProcessPCB (curr_process first_shell)
     \<and> alive first_shell (curr_process first_shell)"
  using kernel_state_coherent [OF first_shell_machine [of demo_layout], of 200 0] by simp

section \<open>Execute and halt\<close>

lemma closer_total: "ops \<noteq> No_ops \<Longrightarrow> \<exists>r. closer ops fa fd = Some r"
  by (cases ops) auto

lemma close_total:
  assumes "files_ok (file_array (cur_pcb k))"
  shows "\<exists>r k'. sys_close fd k = Some (r, k')"
proof -
  let ?fa = "file_array (cur_pcb k)"
  show ?thesis
  proof (cases "fd < 2 \<or> fd > 7 \<or> flags (?fa ! nat fd) = FILE_AVAIL")
    case False
    then have "nat fd < 8" by linarith
    then have "file_ops_table_ptr (?fa ! nat fd) \<noteq> No_ops" using False assms by (simp add: files_ok_def)
    then show ?thesis using closer_total [of _ ?fa fd] by (force simp: sys_close_def Let_def)
  qed (auto simp: sys_close_def Let_def)
qed

lemma close_files_total: "at_entry k \<Longrightarrow> \<exists>k'. close_files fds k = Some k'"
proof (induction fds arbitrary: k)
  case (Cons fd fds)
  obtain r k1 where k1: "sys_close (int fd) k = Some (r, k1)"
    using close_total [OF keeps_files [OF keeps_refl Cons.prems]] by blast
  have "at_entry k1" by (rule keeps_entry [OF Cons.prems keeps_close [OF k1]])
  then show ?case using Cons.IH k1 by simp
qed simp

text \<open>The parts of a control block that closing files leaves alone.\<close>

lemma close_files_pcb:
  "close_files fds k = Some k' \<Longrightarrow>
     parent_ebp (pcb_mem k' a) = parent_ebp (pcb_mem k a) \<and> ktty k' = ktty k \<and> user_mem k' = user_mem k
     \<and> kpaging k' = kpaging k"
proof (induction fds arbitrary: k)
  case (Cons fd fds)
  then show ?case
    by (auto simp: sys_close_def set_files_def upd_pcb_def Let_def split: option.splits if_splits)
qed simp

lemma halt_to_parent:
  assumes en: "at_entry k" and m: "parent_num (pcb_of k (curr_process k)) \<noteq> 0"
  shows "\<exists>k'. halt status k = Some (Execute_return (exec_ret_addr (pcb_of k (curr_process k)))
      (parent_ebp (pcb_of k (curr_process k))) (parent_esp (pcb_of k (curr_process k))) status, k')
    \<and> active k' = (active k)[curr_process k - 1 := False]
    \<and> curr_process k' = parent_num (pcb_of k (curr_process k))
    \<and> tss_esp0 k' = get_kernel_stack_bottom (parent_num (pcb_of k (curr_process k)))
    \<and> cr3 (kpaging k') = int (parent_num (pcb_of k (curr_process k))) - 1
    \<and> esp k' = parent_esp (pcb_of k (curr_process k)) \<and> ebp k' = parent_ebp (pcb_of k (curr_process k))
    \<and> ktty k' = ktty (set_active_process (terminal_index (pcb_of k (curr_process k)))
                        (int (parent_num (pcb_of k (curr_process k)))) k)"
proof -
  let ?k = "k\<lparr>int_flag := False\<rparr>"
  have en0: "at_entry ?k" by (rule keeps_entry [OF en]) simp
  obtain k1 where k1: "close_files [2..<NUM_MAX_OPEN_FILES] ?k = Some k1" using close_files_total [OF en0] by blast
  have ks: "keeps ?k k1" by (rule keeps_close_files [OF k1])
  have en1: "at_entry k1" by (rule keeps_entry [OF en0 ks])
  have same: "curr_process k1 = curr_process k" "active k1 = active k" "ktty k1 = ktty k"
    using ks close_files_pcb [OF k1] by (simp_all add: keeps_def)
  have c: "cur_pcb ?k = pcb_of k (curr_process k)"
    using at_entry_current(1) [OF en0] by simp
  have g: "terminal_index (cur_pcb (load_directory i k1)) = terminal_index (pcb_of k (curr_process k))" for i
    using at_entry_current(1) [OF en1] keeps_core(1) [OF ks] same by (simp add: getCurrentProcessPCB_def)
  show ?thesis
    using k1 m g unfolding halt_def Let_def c
    by (simp add: execute_return_def same) (simp add: set_active_process_def same)
qed

lemma start_facts:
  assumes "(r, k') = start_process pid k3"
  shows "r = To_user (User_code (entry_point (k3\<lparr>kpaging := kpaging k3\<rparr>))) (MB_128 + MB_4 - B_4) 0"
    and "curr_process k' = pid" "active k' = (active k3)[pid - 1 := True]"
    and "parent_esp (pcb_of k' pid) = esp k3" "parent_ebp (pcb_of k' pid) = ebp k3"
    and "exec_ret_addr (pcb_of k' pid) = End_of_execute" "parent_num (pcb_of k' pid) = curr_process k3"
    and "terminal_index (pcb_of k' pid) = terminal_index (cur_pcb k3)"
    and "ktty k' = ktty (set_active_process (terminal_index (cur_pcb k3)) (int pid) k3)"
  using assms
  by (auto simp: start_process_def context_switch_def Let_def upd_pcb_def getCurrentProcessPCB_def
      set_active_process_def entry_point_def cur_dir_def)

text \<open>The arrays of processes and terminals are restored when a started process is taken off again.\<close>

lemma restore_active: "\<not> xs ! i \<Longrightarrow> (xs[i := True])[i := False] = xs"
  by (cases "i < length xs") (simp_all add: list_update_same_conv list_update_beyond)

lemma procs_set_active: "procs (ktty (set_active_process t v k)) = (procs (ktty k))[t := v]"
  by (simp add: procs_def set_active_process_def set_term_def map_update)

text \<open>
  C25. \<open>halt\<close> undoes \<open>execute\<close>.  If a system call of the current process starts a program, and
  that program, whenever it next enters the kernel, halts, then control goes back to the point
  of \<open>execute\<close> after its call, on the stack pointer and frame pointer saved there, with the
  program's status; and the current process, the set of active processes, the kernel stack in
  the task state segment, the page directory and the process each terminal runs are what they
  were at the call.
\<close>

theorem halt_returns_to_execute:
  assumes en: "at_entry k" and ex: "execute fs junk command k = Some (To_user eip sp bp, k1)"
    and d: "d \<le> 7680"
  shows "\<exists>k2. halt status (enter d bp' k1) = Some (Execute_return End_of_execute (ebp k) (esp k) status, k2)
    \<and> curr_process k2 = curr_process k \<and> active k2 = active k \<and> tss_esp0 k2 = tss_esp0 k
    \<and> cr3 (kpaging k2) = cr3 (kpaging k) \<and> esp k2 = esp k \<and> ebp k2 = ebp k
    \<and> procs (ktty k2) = procs (ktty k)"
proof -
  have co: "coherent k" using en by (simp add: at_entry_def)
  then have b: "base k" and len: "length (active k) = 6" and al: "alive k (curr_process k)" and tok: "tty_ok (ktty k)"
    by (simp_all add: coherent_def base_def)
  from len ex obtain pid k3 where L: "loaded k pid k3" and st: "(To_user eip sp bp, k1) = start_process pid k3"
    by (cases rule: execute_cases) auto
  note F = start_facts [OF st]
  have kp: "keeps k (load_directory (cr3 (kpaging k)) k3)" and pid: "pid < 7" "\<not> active k ! (pid - 1)"
    using L by (auto simp: loaded_def)
  have same: "curr_process k3 = curr_process k" "esp k3 = esp k" "active k3 = active k" "procs (ktty k3) = procs (ktty k)"
    "tty_ok (ktty k3)"
    using kp tok by (simp_all add: keeps_def)
  let ?e = "enter d bp' k1"
  have co1: "coherent k1" using execute_coherent [OF en ex] .
  have ene: "at_entry ?e" by (rule at_entry_enter [OF co1 d])
  have pe: "pcb_of ?e q = pcb_of k1 q" "curr_process ?e = pid" "active ?e = active k1" "ktty ?e = ktty k1" for q
    using F(2) by (simp_all add: enter_def)
  have cp: "curr_process k \<noteq> 0" using al by (simp add: alive_def)
  have ebp3: "ebp k3 = ebp k" using L by (simp add: loaded_def)
  obtain k2 where h: "halt status ?e = Some (Execute_return End_of_execute (ebp k) (esp k) status, k2)"
      "active k2 = (active k1)[pid - 1 := False]" "curr_process k2 = curr_process k"
      "tss_esp0 k2 = get_kernel_stack_bottom (curr_process k)" "cr3 (kpaging k2) = int (curr_process k) - 1"
      "esp k2 = esp k" "ebp k2 = ebp k"
      "ktty k2 = ktty (set_active_process (terminal_index (pcb_of k1 pid)) (int (curr_process k)) ?e)"
    using halt_to_parent [OF ene] cp F(4-7) same ebp3 unfolding pe by auto
  have t3: "terminal_index (cur_pcb k3) = terminal_index (pcb_of k (curr_process k))"
    using at_entry_current(1) [OF en] same(2) keeps_core(1) [OF kp, of "curr_process k"]
    by (simp add: getCurrentProcessPCB_def)
  let ?t = "terminal_index (pcb_of k (curr_process k))"
  have "?t < length (terminals (ktty k))"
    using tty_okD(2) [OF tok current_terminal [OF b al]] .
  then have "procs (ktty k) ! ?t = int (curr_process k)"
    using procs_nth [of ?t "ktty k"] co by (simp add: coherent_def)
  moreover have "procs (ktty k2) = (procs (ktty k))[?t := int (curr_process k)]"
    unfolding h(8) procs_set_active pe F(8) t3 F(9) by (simp add: procs_set_active same)
  ultimately have "procs (ktty k2) = procs (ktty k)" by (metis list_update_id)
  then show ?thesis using h F(3) restore_active pid same co by (auto simp: coherent_def)
qed

lemma find_inactive_less: "\<not> as ! i \<Longrightarrow> i < length as \<Longrightarrow> find_inactive as < length as"
proof (induction as arbitrary: i)
  case (Cons a as)
  then show ?case by (cases i) auto
qed simp

lemma first_shell_slot: "find_inactive (active first_shell) < 6"
proof -
  obtain eip where e: "execute boot_fs (\<lambda>_. 0) shell_name boot_kernel = Some (To_user eip (MB_128 + MB_4 - B_4) 0, first_shell)"
    using first_shell_execute by blast
  have "length (active boot_kernel) = 6" by (simp add: boot_kernel_def)
  then obtain pid k3 where "loaded boot_kernel pid k3" "(To_user eip (MB_128 + MB_4 - B_4) 0, first_shell) = start_process pid k3"
    using e by (cases rule: execute_cases) auto
  then have "active first_shell = (replicate 6 False)[pid - 1 := True]"
    using start_facts(3) by (auto simp: loaded_def keeps_def boot_kernel_def)
  then obtain j where j: "active first_shell = (replicate 6 False)[j := True]" by blast
  show ?thesis
    using find_inactive_less [of "active first_shell" 1] find_inactive_less [of "active first_shell" 0]
    by (cases "j = 0") (simp_all add: j)
qed

lemma halt_returns_to_execute_witness:
  "\<exists>k2. halt 7 (enter 300 0 (snd (the (execute boot_fs (\<lambda>_. 0) shell_name (enter 200 0 first_shell)))))
     = Some (Execute_return End_of_execute 0 (esp (enter 200 0 first_shell)) 7, k2)
     \<and> curr_process k2 = curr_process (enter 200 0 first_shell)"
proof -
  have en: "at_entry (enter 200 0 first_shell)"
    by (rule at_entry_enter [OF machine_coherent [OF first_shell_machine [of demo_layout]]]) simp
  have "active (enter 200 0 first_shell) = active first_shell" by (simp add: enter_def)
  then obtain eip k1 where e: "execute boot_fs (\<lambda>_. 0) shell_name (enter 200 0 first_shell)
      = Some (To_user eip (MB_128 + MB_4 - B_4) 0, k1)"
    using shell_execute [of "enter 200 0 first_shell"] first_shell_slot by auto
  have "ebp (enter 200 0 first_shell) = 0" by (simp add: enter_def)
  then show ?thesis using halt_returns_to_execute [OF en e, of 300 7 0] e by auto
qed

section \<open>Scheduling\<close>

text \<open>\<open>n\<close> timer interrupts in a row, each entering the kernel \<open>d\<close> bytes below the stack's top.\<close>

fun ticks :: "nat \<Rightarrow> u32 \<Rightarrow> nat \<Rightarrow> kernel \<Rightarrow> kernel option" where
  "ticks d bp 0 k = Some k"
| "ticks d bp (Suc n) k =
     (case scheduler_handler (enter d bp k) of None \<Rightarrow> None | Some (_, k1) \<Rightarrow> ticks d bp n k1)"

lemma one_tick:
  assumes co: "coherent k" and d: "d \<le> 7680"
  obtains r k1 i where "scheduler_handler (enter d bp k) = Some (r, k1)" "coherent k1"
    "find_running (terminals (ktty k)) (terminal_iter k) = Some i" "terminal_iter k1 = i" "i < 3"
    "procs (ktty k1) = procs (ktty k)" "int (curr_process k1) = active_process (term_of (ktty k) i)"
proof -
  have e: "ktty (enter d bp k) = ktty k" "terminal_iter (enter d bp k) = terminal_iter k" by (simp_all add: enter_def)
  have "at_entry (enter d bp k)" by (rule at_entry_enter [OF co d])
  then show thesis
  proof (cases rule: scheduler_cases)
    case (1 i pid t k1)
    have ks: "terminal_iter k1 = i" "procs (ktty k1) = procs (ktty k)" "curr_process k1 = pid"
      using 1(6) by (auto simp: keeps_def dispatched_def saved_def e)
    have "int (curr_process k1) = active_process (term_of (ktty k) i)" using 1(4) ks(3) e(1) by simp
    then show thesis using that [OF 1(5,7)] 1 ks e by simp
  qed
qed

lemma same_running:
  assumes "tty_ok s" and "tty_ok s'" and "procs s = procs s'" and "t < 3"
  shows "active_process (term_of s t) = active_process (term_of s' t)"
  using procs_nth [OF tty_okD(2) [OF assms(1,4)]] procs_nth [OF tty_okD(2) [OF assms(2,4)]] assms(3) by simp

text \<open>Where the round robin stops next, for the set \<open>b\<close> of terminals that run a process.\<close>

definition round_robin :: "(nat \<Rightarrow> bool) \<Rightarrow> nat \<Rightarrow> nat" where
  "round_robin b c = (if b ((c + 1) mod 3) then (c + 1) mod 3 else if b ((c + 2) mod 3) then (c + 2) mod 3 else (c + 3) mod 3)"

lemma round_robin_simps:
  "round_robin b 0 = (if b 1 then 1 else if b 2 then 2 else 0)"
  "round_robin b (Suc 0) = (if b 2 then 2 else if b 0 then 0 else 1)"
  "round_robin b 2 = (if b 0 then 0 else if b 1 then 1 else 2)"
  by (simp_all add: round_robin_def numeral_2_eq_2)

lemma round_robin_mod: "round_robin b c = round_robin b (c mod 3)"
  unfolding round_robin_def by (simp only: mod_add_left_eq)

lemma round_robin_fair:
  assumes "b t" and "t < 3"
  shows "t = round_robin b c \<or> t = round_robin b (round_robin b c) \<or> t = round_robin b (round_robin b (round_robin b c))"
proof -
  have "c mod 3 = 0 \<or> c mod 3 = Suc 0 \<or> c mod 3 = 2" by linarith
  moreover have "t = 0 \<or> t = 1 \<or> t = 2" using assms(2) by linarith
  ultimately show ?thesis
    using assms(1) unfolding round_robin_mod [of b c] by (elim disjE) (auto simp: round_robin_simps)
qed

lemma tick_next:
  assumes tok: "tty_ok (ktty k)" and c0: "coherent k0" and p0: "procs (ktty k0) = procs (ktty k)" and d: "d \<le> 7680"
    and t: "t < 3" "active_process (term_of (ktty k) t) \<noteq> -1"
  obtains r k1 where "scheduler_handler (enter d bp k0) = Some (r, k1)" "coherent k1" "procs (ktty k1) = procs (ktty k)"
    "terminal_iter k1 = round_robin (\<lambda>i. active_process (term_of (ktty k) i) \<noteq> -1) (terminal_iter k0)"
    "int (curr_process k1) = active_process (term_of (ktty k) (terminal_iter k1))"
proof -
  have tok0: "tty_ok (ktty k0)" using c0 by (simp add: coherent_def base_def)
  note same = same_running [OF tok0 tok p0]
  obtain r k1 i where k1: "scheduler_handler (enter d bp k0) = Some (r, k1)" "coherent k1"
    "find_running (terminals (ktty k0)) (terminal_iter k0) = Some i" "terminal_iter k1 = i" "i < 3"
    "procs (ktty k1) = procs (ktty k0)" "int (curr_process k1) = active_process (term_of (ktty k0) i)"
    using one_tick [OF c0 d] by blast
  have "active_process (term_of (ktty k0) t) \<noteq> -1" using t same by simp
  from find_running_unfold(1) [OF t(1) this, of "terminal_iter k0"]
  have "i = round_robin (\<lambda>i. active_process (term_of (ktty k) i) \<noteq> -1) (terminal_iter k0)"
    using k1(3) same by (simp add: round_robin_def split: if_splits)
  then show thesis using that [OF k1(1,2)] k1 p0 same by simp
qed

text \<open>
  C26. No terminal starves.  From any state a started machine can reach, a terminal that runs a
  process gets the processor within three timer interrupts: one of the next three ticks
  switches to exactly the process that terminal runs.
\<close>

theorem scheduler_serves_all:
  assumes "machine L fs k" and "d \<le> 7680" and "t < 3" and "active_process (term_of (ktty k) t) \<noteq> -1"
  shows "\<exists>n k'. 1 \<le> n \<and> n \<le> 3 \<and> ticks d bp n k = Some k' \<and> terminal_iter k' = t
    \<and> int (curr_process k') = active_process (term_of (ktty k) t)"
proof -
  let ?b = "\<lambda>i. active_process (term_of (ktty k) i) \<noteq> -1"
  have co: "coherent k" by (rule machine_coherent [OF assms(1)])
  then have tok: "tty_ok (ktty k)" by (simp add: coherent_def base_def)
  note nx = tick_next [OF tok _ _ assms(2-4), where bp = bp]
  obtain r1 k1 where k1: "scheduler_handler (enter d bp k) = Some (r1, k1)" "coherent k1" "procs (ktty k1) = procs (ktty k)"
    "terminal_iter k1 = round_robin ?b (terminal_iter k)"
    "int (curr_process k1) = active_process (term_of (ktty k) (terminal_iter k1))"
    using nx [OF co refl] by blast
  obtain r2 k2 where k2: "scheduler_handler (enter d bp k1) = Some (r2, k2)" "coherent k2" "procs (ktty k2) = procs (ktty k)"
    "terminal_iter k2 = round_robin ?b (terminal_iter k1)"
    "int (curr_process k2) = active_process (term_of (ktty k) (terminal_iter k2))"
    using nx [OF k1(2,3)] by blast
  obtain r3 k3 where k3: "scheduler_handler (enter d bp k2) = Some (r3, k3)"
    "terminal_iter k3 = round_robin ?b (terminal_iter k2)"
    "int (curr_process k3) = active_process (term_of (ktty k) (terminal_iter k3))"
    using nx [OF k2(2,3)] by blast
  have n: "ticks d bp 1 k = Some k1" "ticks d bp 2 k = Some k2" "ticks d bp 3 k = Some k3"
    using k1 k2 k3 by (simp_all add: numeral_2_eq_2 numeral_3_eq_3)
  have "t = terminal_iter k1 \<or> t = terminal_iter k2 \<or> t = terminal_iter k3"
    unfolding k3 k2 k1 by (rule round_robin_fair) (use assms in simp_all)
  then show ?thesis
    using n k1(5) k2(5) k3(3) by (metis one_le_numeral order_refl numeral_le_iff semiring_norm(69) semiring_norm(72))
qed

lemma scheduler_serves_all_witness:
  "\<exists>t < 3. \<exists>n k'. n \<le> 3 \<and> ticks 200 0 n first_shell = Some k' \<and> terminal_iter k' = t
     \<and> int (curr_process k') = active_process (term_of (ktty first_shell) t)"
proof -
  note m = first_shell_machine [of demo_layout]
  have co: "coherent first_shell" by (rule machine_coherent [OF m])
  let ?t = "terminal_index (pcb_of first_shell (curr_process first_shell))"
  have "?t < 3" using co by (auto simp: coherent_def intro: current_terminal)
  moreover have "active_process (term_of (ktty first_shell) ?t) \<noteq> -1" using co by (simp add: coherent_def)
  ultimately show ?thesis
    using scheduler_serves_all [OF m, of 200 ?t 0] by auto
qed

end
