(* ===== verification/Boot.thy ===== *)
theory Boot
  imports Exceptions Kernel_Spec
begin

text \<open>
  Start-up, the function \<open>entry\<close> of \<^verbatim>\<open>mp3/student-distrib/kernel.c\<close>: the first screen, what the boot
  loader says, the LDT and TSS descriptors, the interrupt table, the interrupt controller, the clocks,
  paging and the file system, up to the loop that executes the first shell.  The tables of the linker,
  the values two reads of the clock chip return, and what is on the stack where the descriptors are
  built are parameters.
\<close>

section \<open>What the boot loader says\<close>

definition MULTIBOOT_BOOTLOADER_MAGIC :: u32 where "MULTIBOOT_BOOTLOADER_MAGIC = 0x2BADB002"

definition CHECK_FLAG :: "u32 \<Rightarrow> nat \<Rightarrow> bool" where
  "CHECK_FLAG fl b \<longleftrightarrow> fl AND push_bit b 1 \<noteq> 0"

definition nl :: "string \<Rightarrow> string" where
  "nl s = s @ [CHR 0x0A]"

definition say :: "(string \<Rightarrow> u32) \<Rightarrow> u32 \<Rightarrow> string \<Rightarrow> u32 list \<Rightarrow> console \<Rightarrow> console option" where
  "say lit conv_buf format args k = map_option snd (printf conv_buf (lit format) args k)"

text \<open>The fields of \<open>multiboot_info_t\<close>, \<open>module_t\<close> and \<open>memory_map_t\<close>, by offset.\<close>

definition word_at :: "u32 \<Rightarrow> u32 \<Rightarrow> console \<Rightarrow> u32" where
  "word_at p off k = le32 (fst k) (p + off)"

fun say_bytes :: "(string \<Rightarrow> u32) \<Rightarrow> u32 \<Rightarrow> u32 \<Rightarrow> nat list \<Rightarrow> console \<Rightarrow> console option" where
  "say_bytes lit conv_buf start [] k = Some k"
| "say_bytes lit conv_buf start (i # is) k =
     Option.bind (say lit conv_buf ''0x%x '' [scast (fst k (start + of_nat i))] k) (say_bytes lit conv_buf start is)"

text \<open>A module, and its address, which is that of the file system for the first.\<close>

definition say_module :: "(string \<Rightarrow> u32) \<Rightarrow> u32 \<Rightarrow> u32 \<Rightarrow> u32 \<Rightarrow> console \<Rightarrow> (u32 \<times> console) option" where
  "say_module lit conv_buf p mod_count k0 =
     Option.bind (say lit conv_buf (nl ''Module %d loaded at address: 0x%#x'') [mod_count, word_at p 0 k0] k0) (\<lambda>k1.
     Option.bind (say lit conv_buf (nl ''Module %d ends at address: 0x%#x'') [mod_count, word_at p 4 k1] k1) (\<lambda>k2.
     Option.bind (say lit conv_buf (nl ''First few bytes of module:'') [] k2) (\<lambda>k3.
     Option.bind (say_bytes lit conv_buf (word_at p 0 k3) [0..<16] k3) (\<lambda>k4.
     map_option (Pair (word_at p 0 k1)) (say lit conv_buf (nl []) [] k4)))))"

partial_function (option) modules_loop ::
    "(string \<Rightarrow> u32) \<Rightarrow> u32 \<Rightarrow> u32 \<Rightarrow> u32 \<Rightarrow> u32 \<Rightarrow> u32 \<Rightarrow> console \<Rightarrow> (u32 \<times> console) option" where
  "modules_loop lit conv_buf mbi p mod_count filesys_ptr k =
     (if mod_count < word_at mbi 20 k then
        Option.bind (say_module lit conv_buf p mod_count k) (\<lambda>(start, k).
          modules_loop lit conv_buf mbi (p + 16) (mod_count + 1) (if mod_count = 0 then start else filesys_ptr) k)
      else Some (filesys_ptr, k))"

definition mmap_format :: string where
  "mmap_format = nl ''    size = 0x%x, base_addr = 0x%#x%#x'' @ nl ''    type = 0x%x,  length    = 0x%#x%#x''"

partial_function (option) mmap_loop ::
    "(string \<Rightarrow> u32) \<Rightarrow> u32 \<Rightarrow> u32 \<Rightarrow> u32 \<Rightarrow> console \<Rightarrow> console option" where
  "mmap_loop lit conv_buf mbi p k =
     (if p < word_at mbi 48 k + word_at mbi 44 k then
        Option.bind (say lit conv_buf mmap_format
            [word_at p 0 k, word_at p 8 k, word_at p 4 k, word_at p 20 k, word_at p 16 k, word_at p 12 k] k)
          (\<lambda>k1. mmap_loop lit conv_buf mbi (p + word_at p 0 k1 + 4) k1)
      else Some k)"

definition say_if :: "bool \<Rightarrow> (console \<Rightarrow> console option) \<Rightarrow> console \<Rightarrow> console option" where
  "say_if b f k = (if b then f k else Some k)"

text \<open>The first result is false when the information is refused and \<open>entry\<close> returns.\<close>

definition print_maps :: "(string \<Rightarrow> u32) \<Rightarrow> u32 \<Rightarrow> u32 \<Rightarrow> u32 \<Rightarrow> console \<Rightarrow> (bool \<times> u32 \<times> console) option" where
  "print_maps lit conv_buf mbi fp k5 =
     (if CHECK_FLAG (word_at mbi 0 k5) 4 \<and> CHECK_FLAG (word_at mbi 0 k5) 5
      then map_option (\<lambda>k. (False, fp, k)) (say lit conv_buf (nl ''Both bits 4 and 5 are set.'') [] k5)
      else
      Option.bind (say_if (CHECK_FLAG (word_at mbi 0 k5) 5) (\<lambda>k.
          say lit conv_buf (nl ''elf_sec: num = %u, size = 0x%#x, addr = 0x%#x, shndx = 0x%#x'')
            [word_at mbi 28 k, word_at mbi 32 k, word_at mbi 36 k, word_at mbi 40 k] k) k5) (\<lambda>k6.
      map_option (\<lambda>k. (True, fp, k))
        (say_if (CHECK_FLAG (word_at mbi 0 k6) 6) (\<lambda>k.
           Option.bind (say lit conv_buf (nl ''mmap_addr = 0x%#x, mmap_length = 0x%x'') [word_at mbi 48 k, word_at mbi 44 k] k)
             (\<lambda>k7. mmap_loop lit conv_buf mbi (word_at mbi 48 k7) k7)) k6)))"

definition print_info :: "(string \<Rightarrow> u32) \<Rightarrow> u32 \<Rightarrow> u32 \<Rightarrow> u32 \<Rightarrow> console \<Rightarrow> (bool \<times> u32 \<times> console) option" where
  "print_info lit conv_buf mbi filesys_ptr k0 =
     Option.bind (say lit conv_buf (nl ''flags = 0x%#x'') [word_at mbi 0 k0] k0) (\<lambda>k1.
     Option.bind (say_if (CHECK_FLAG (word_at mbi 0 k1) 0) (\<lambda>k.
         say lit conv_buf (nl ''mem_lower = %uKB, mem_upper = %uKB'') [word_at mbi 4 k, word_at mbi 8 k] k) k1) (\<lambda>k2.
     Option.bind (say_if (CHECK_FLAG (word_at mbi 0 k2) 1) (\<lambda>k.
         say lit conv_buf (nl ''boot_device = 0x%#x'') [word_at mbi 12 k] k) k2) (\<lambda>k3.
     Option.bind (say_if (CHECK_FLAG (word_at mbi 0 k3) 2) (\<lambda>k.
         say lit conv_buf (nl ''cmdline = %s'') [word_at mbi 16 k] k) k3) (\<lambda>k4.
     Option.bind (if CHECK_FLAG (word_at mbi 0 k4) 3
                  then modules_loop lit conv_buf mbi (word_at mbi 24 k4) 0 filesys_ptr k4 else Some (filesys_ptr, k4))
       (\<lambda>(fp, k5). print_maps lit conv_buf mbi fp k5)))))"

section \<open>The descriptors and the devices\<close>

record boot =
  bkernel :: kernel
  bmem :: mem
  filesys_ptr :: u32
  fs_ptr :: u32
  ldt_desc_ptr :: seg_desc
  tss_desc_ptr :: seg_desc
  tss_ldt :: u16
  tss_ss0 :: u16
  ldtr :: u16
  task_register :: u16
  bidt :: "idt_desc list"
  bpic :: pic
  bports :: "out_event list"

definition ldt_size :: u32 where "ldt_size = 4 * 8 - 1"
definition tss_size :: u32 where "tss_size = 104 - 1"

definition the_ldt_desc :: "u32 \<Rightarrow> seg_desc \<Rightarrow> seg_desc" where
  "the_ldt_desc ldt garbage =
     SET_SEG_PARAMS ldt ldt_size
       (garbage\<lparr>seg_granularity := False, seg_opsize := True, seg_reserved := False, seg_avail := False,
                seg_present := True, seg_dpl := 0, seg_sys := False, seg_type := 2\<rparr>)"

definition the_tss_desc :: "u32 \<Rightarrow> seg_desc \<Rightarrow> seg_desc" where
  "the_tss_desc tss garbage =
     SET_SEG_PARAMS tss tss_size
       (garbage\<lparr>seg_granularity := False, seg_opsize := False, seg_reserved := False, seg_avail := False,
                seg_lim_19_16 := ucast (TSS_SIZE AND 0x000F0000), seg_present := True, seg_dpl := 0, seg_sys := False,
                seg_type := 9, seg_lim_15_00 := ucast (TSS_SIZE AND 0x0000FFFF)\<rparr>)"

definition load_segments :: "u32 \<Rightarrow> u32 \<Rightarrow> seg_desc \<Rightarrow> boot \<Rightarrow> boot" where
  "load_segments ldt tss garbage b =
     b\<lparr>ldt_desc_ptr := the_ldt_desc ldt garbage, ldtr := KERNEL_LDT, tss_desc_ptr := the_tss_desc tss garbage,
       tss_ldt := KERNEL_LDT, tss_ss0 := KERNEL_DS, bkernel := (bkernel b)\<lparr>tss_esp0 := 0x800000\<rparr>,
       task_register := KERNEL_TSS\<rparr>"

definition start_interrupts :: "(handler \<Rightarrow> u32) \<Rightarrow> u8 \<Rightarrow> u8 \<Rightarrow> boot \<Rightarrow> boot" where
  "start_interrupts addr prev_b prev_a b =
     (let idt = setup_interrupt_handlers addr (setup_system_handler addr (setup_exception_handlers addr (bidt b)));
          (p0, e0) = enable_irq 0 (bpic b); (p1, e1) = enable_irq 1 p0; (p2, e2) = enable_irq 8 p1
      in b\<lparr>bidt := idt, bpic := p2,
           bports := bports b @ i8259_init (bpic b) @ rtc_init prev_b prev_a @ pit_init @ e0 @ e1 @ e2\<rparr>)"

definition start_system :: "layout \<Rightarrow> boot \<Rightarrow> boot" where
  "start_system L b =
     b\<lparr>bkernel := (bkernel b)\<lparr>kpaging := initPaging L (kpaging (bkernel b))\<rparr>, fs_ptr := filesys_ptr b\<rparr>"

text \<open>\<open>Inl\<close>: \<open>entry\<close> returns, to a loop of \<open>hlt\<close>; \<open>Inr\<close>: it goes on to execute the first shell.\<close>

definition first_console :: "boot \<Rightarrow> console" where
  "first_console b = (let s = init_terminals (ktty (bkernel b)) in (bmem b, clear_terminal (active_terminal_index s) s))"

definition put_console :: "console \<Rightarrow> boot \<Rightarrow> boot" where
  "put_console k b = b\<lparr>bmem := fst k, bkernel := (bkernel b)\<lparr>ktty := snd k, int_flag := False\<rparr>\<rparr>"

definition entry ::
    "layout \<Rightarrow> (handler \<Rightarrow> u32) \<Rightarrow> (string \<Rightarrow> u32) \<Rightarrow> u32 \<Rightarrow> u32 \<Rightarrow> u32 \<Rightarrow> seg_desc \<Rightarrow> u8 \<Rightarrow> u8 \<Rightarrow> u32 \<Rightarrow> u32 \<Rightarrow> boot \<Rightarrow> (boot + boot) option" where
  "entry L addr lit conv_buf ldt tss garbage prev_b prev_a magic mbi b =
     (if magic \<noteq> MULTIBOOT_BOOTLOADER_MAGIC
      then map_option (\<lambda>k. Inl (put_console k b)) (say lit conv_buf (nl ''Invalid magic number: 0x%#x'') [magic] (first_console b))
      else
        map_option (\<lambda>(go_on, fp, k).
            (let b1 = (put_console k b)\<lparr>filesys_ptr := fp\<rparr>
             in if \<not> go_on then Inl b1
                else Inr (start_system L (start_interrupts addr prev_b prev_a (load_segments ldt tss garbage b1)))))
          (print_info lit conv_buf mbi (filesys_ptr b) (first_console b)))"

section \<open>What printing keeps\<close>

definition kept :: "tty \<Rightarrow> tty \<Rightarrow> bool" where
  "kept s s' \<longleftrightarrow> (tty_ok s \<longrightarrow> tty_ok s' \<and> map active_process (terminals s') = map active_process (terminals s) \<and>
     active_terminal_index s' = active_terminal_index s)"

lemma kept_refl [simp]: "kept s s"
  by (simp add: kept_def)

lemma kept_trans: "kept s s1 \<Longrightarrow> kept s1 s2 \<Longrightarrow> kept s s2"
  by (simp add: kept_def)

lemma kept_putc: "kept s (putc c s)"
proof -
  have "map active_process (terminals (putc c s)) = map active_process (terminals s)" if ok: "tty_ok s"
  proof -
    let ?a = "active_terminal_index s"
    obtain x y where t: "terminals (putc c s) = (terminals s)[?a := (term_of s ?a)\<lparr>pos_x := x, pos_y := y\<rparr>]"
      using putc_effect(4) [OF ok active_less [OF ok]] unfolding putc_def by blast
    have "?a < length (terminals s)" using active_term [OF ok] by simp
    then show ?thesis unfolding t map_update by (simp add: list_update_same_conv)
  qed
  then show ?thesis
    using putc_effect(3,5) [OF _ active_less] by (simp add: kept_def putc_def)
qed

lemma kept_putc_trans: "kept (putc c s) s' \<Longrightarrow> kept s s'"
  by (rule kept_trans [OF kept_putc])

lemmas puts_induct = puts_loop.raw_induct [rotated, consumes 1, case_names step]
lemmas conversion_induct = conversion.raw_induct [rotated, consumes 1, case_names step]
lemmas printf_induct = printf_loop.raw_induct [rotated, consumes 1, case_names step]
lemmas mmap_induct = mmap_loop.raw_induct [rotated, consumes 1, case_names step]
lemmas modules_induct = modules_loop.raw_induct [rotated, consumes 1, case_names step]

lemma kept_puts_loop: "puts_loop m a i s = Some r \<Longrightarrow> kept s (snd r)"
proof (induction rule: puts_induct)
  case (step f m a i s r)
  show ?case
  proof (cases "m (a + i) = 0")
    case False
    then have "f m a (i + 1) (putc (m (a + i)) s) = Some r" using step(2) by simp
    from kept_putc_trans [OF step(1) [OF this]] show ?thesis .
  qed (use step(2) in auto)
qed

text \<open>Printing keeps the terminals' records and all memory but for the buffer of the conversions.\<close>

definition quiet :: "u32 \<Rightarrow> console \<Rightarrow> console \<Rightarrow> bool" where
  "quiet c k k' \<longleftrightarrow> only_conv c (fst k) (fst k') \<and> kept (snd k) (snd k')"

lemma quiet_refl [simp]: "quiet c k k"
  by (simp add: quiet_def only_conv_refl)

lemma quiet_trans: "quiet c k k1 \<Longrightarrow> quiet c k1 k2 \<Longrightarrow> quiet c k k2"
  unfolding quiet_def using only_conv_trans kept_trans by blast

lemma quiet_putc: "quiet c (m, s) (m, putc x s)"
  using kept_putc by (simp add: quiet_def only_conv_refl)

lemma quiet_print_at: "print_at a s m = Some k \<Longrightarrow> quiet c (m, s) k"
  using kept_puts_loop by (fastforce simp: print_at_def puts_def quiet_def only_conv_refl)

lemma kept_putc_all: "kept s (fold putc cs s)"
  by (induction cs arbitrary: s) (auto intro: kept_putc_trans)

lemma shows_quiet: "shows_text c k t r \<Longrightarrow> r = Some k' \<Longrightarrow> quiet c k k'"
  using kept_putc_all by (auto simp: shows_text_def quiet_def)

lemma quiet_conversions:
  "print_hex alt c v k = Some k' \<Longrightarrow> quiet c k k'"
  "print_unsigned c v k = Some k' \<Longrightarrow> quiet c k k'"
  "print_signed c v k = Some k' \<Longrightarrow> quiet c k k'"
proof -
  obtain m s where k: "k = (m, s)" by (rule prod.exhaust)
  show "print_hex alt c v k = Some k' \<Longrightarrow> quiet c k k'"
    using shows_quiet hex_shows [of c m s v] hex8_shows [of c m s v] unfolding k by (cases alt) simp_all
  show "print_unsigned c v k = Some k' \<Longrightarrow> quiet c k k'"
    using shows_quiet unsigned_shows [of c m s v] unfolding k by simp
  show "print_signed c v k = Some k' \<Longrightarrow> quiet c k k'"
    using shows_quiet signed_shows [of c m s v] unfolding k by simp
qed

lemma quiet_conversion: "conversion c alt buf args k = Some r \<Longrightarrow> quiet c k (snd (snd r))"
proof (induction rule: conversion_induct)
  case (step f c alt buf args k r)
  obtain m s where k: "k = (m, s)" by (rule prod.exhaust)
  show ?case
  proof (cases "m buf = ch CHR ''#''")
    case True
    then have "f c True (buf + 1) args k = Some r" using step(2) by (simp add: k Let_def)
    then show ?thesis by (rule step(1))
  next
    case False
    then show ?thesis
      using step(2) quiet_putc
      by (auto simp: k Let_def dest: quiet_conversions quiet_print_at split: if_splits list.splits)
  qed
qed

lemma quiet_printf_loop: "printf_loop c buf args k = Some r \<Longrightarrow> quiet c k (snd r)"
proof (induction rule: printf_induct)
  case (step f c buf args k r)
  obtain m s where k: "k = (m, s)" by (rule prod.exhaust)
  consider "m buf = 0" | "m buf = ch CHR ''%''" | "m buf \<noteq> 0" "m buf \<noteq> ch CHR ''%''" by blast
  then show ?case
  proof cases
    case 1
    then show ?thesis using step(2) by (auto simp: k)
  next
    case 2
    then obtain q where q: "conversion c False (buf + 1) args k = Some q" "f c (fst q + 1) (fst (snd q)) (snd (snd q)) = Some r"
      using step(2) by (auto simp: k Let_def bind_eq_Some_conv case_prod_beta)
    from quiet_trans [OF quiet_conversion [OF q(1)] step(1) [OF q(2)]] show ?thesis .
  next
    case 3
    then have "f c (buf + 1) args (m, putc (m buf) s) = Some r" using step(2) by (simp add: k)
    from quiet_trans [OF quiet_putc step(1) [OF this]] show ?thesis by (simp add: k)
  qed
qed

lemma quiet_say: "say lit c fmt args k = Some k' \<Longrightarrow> quiet c k k'"
  using quiet_printf_loop by (fastforce simp: say_def printf_def)

text \<open>Sequences of steps, each of which may give no result; \<open>g\<close> picks the console from a result.\<close>

definition keeps :: "u32 \<Rightarrow> console \<Rightarrow> ('a \<Rightarrow> console) \<Rightarrow> 'a option \<Rightarrow> bool" where
  "keeps c k g r \<longleftrightarrow> (\<forall>y. r = Some y \<longrightarrow> quiet c k (g y))"

lemma keeps_bind: "keeps c s g x \<Longrightarrow> (\<And>y. keeps c (g y) h (f y)) \<Longrightarrow> keeps c s h (Option.bind x f)"
  unfolding keeps_def bind_eq_Some_conv using quiet_trans by blast

lemma keeps_map: "keeps c s (\<lambda>y. g (f y)) x \<Longrightarrow> keeps c s g (map_option f x)"
  by (auto simp: keeps_def)

lemma keeps_Some: "quiet c s (g y) \<Longrightarrow> keeps c s g (Some y)"
  by (simp add: keeps_def)

lemma keeps_say: "keeps c k (\<lambda>k. k) (say lit c fmt args k)"
  using quiet_say by (auto simp: keeps_def)

lemma keeps_if: "(\<And>k. keeps c k (\<lambda>k. k) (f k)) \<Longrightarrow> keeps c k (\<lambda>k. k) (say_if b f k)"
  by (simp add: say_if_def keeps_def)

lemma quiet_bytes: "say_bytes lit c start is k = Some k' \<Longrightarrow> quiet c k k'"
proof (induction "is" arbitrary: k)
  case (Cons i js)
  then obtain k1 where "say lit c ''0x%x '' [scast (fst k (start + of_nat i))] k = Some k1" "say_bytes lit c start js k1 = Some k'"
    by (auto simp: bind_eq_Some_conv)
  then show ?case using Cons.IH quiet_say quiet_trans by blast
qed simp

lemma keeps_bytes: "keeps c k (\<lambda>k. k) (say_bytes lit c start is k)"
  using quiet_bytes by (auto simp: keeps_def)

lemma keeps_module: "keeps c k snd (say_module lit c p n k)"
  unfolding say_module_def
  by (rule keeps_bind, rule keeps_say, rule keeps_bind, rule keeps_say, rule keeps_bind, rule keeps_say,
      rule keeps_bind, rule keeps_bytes, rule keeps_map, simp add: keeps_say)

lemma quiet_module: "say_module lit c p n k = Some r \<Longrightarrow> quiet c k (snd r)"
  using keeps_module [of c k lit p n] by (simp add: keeps_def)

lemma quiet_modules: "modules_loop lit c mbi p n fp k = Some r \<Longrightarrow> quiet c k (snd r) \<and> (n \<noteq> 0 \<longrightarrow> fst r = fp)"
proof (induction rule: modules_induct)
  case (step f lit c mbi p n fp k r)
  show ?case
  proof (cases "n < word_at mbi 20 k")
    case True
    then obtain q where q: "say_module lit c p n k = Some q"
      "f lit c mbi (p + 16) (n + 1) (if n = 0 then fst q else fp) (snd q) = Some r"
      using step(2) by (auto simp: bind_eq_Some_conv case_prod_beta)
    have "n + 1 \<noteq> 0" using unat_inc [OF True] by (metis unat_0 nat.distinct(1))
    then show ?thesis using quiet_trans [OF quiet_module [OF q(1)]] step(1) [OF q(2)] by auto
  qed (use step(2) in auto)
qed

lemma quiet_mmap: "mmap_loop lit c mbi p k = Some r \<Longrightarrow> quiet c k r"
proof (induction rule: mmap_induct)
  case (step f lit c mbi p k r)
  show ?case
  proof (cases "p < word_at mbi 48 k + word_at mbi 44 k")
    case True
    then obtain k1 where q: "say lit c mmap_format [word_at p 0 k, word_at p 8 k, word_at p 4 k, word_at p 20 k, word_at p 16 k, word_at p 12 k] k = Some k1"
      "f lit c mbi (p + word_at p 0 k1 + 4) k1 = Some r"
      using step(2) by (auto simp: bind_eq_Some_conv)
    from quiet_trans [OF quiet_say [OF q(1)] step(1) [OF q(2)]] show ?thesis .
  qed (use step(2) in auto)
qed

lemma keeps_mmap: "keeps c k (\<lambda>k. k) (mmap_loop lit c mbi p k)"
  using quiet_mmap by (auto simp: keeps_def)

lemma keeps_maps: "keeps c k (\<lambda>r. snd (snd r)) (print_maps lit c mbi fp k)"
proof -
  have e: "keeps c k (\<lambda>k. k) (Option.bind (say lit c f v k) (\<lambda>k7. mmap_loop lit c mbi (p k7) k7))" for f v p k
    by (rule keeps_bind, rule keeps_say, rule keeps_mmap)
  show ?thesis
    unfolding print_maps_def
  proof (split if_split, intro conjI impI)
    show "keeps c k (\<lambda>r. snd (snd r)) (map_option (\<lambda>k. (False, fp, k)) (say lit c (nl ''Both bits 4 and 5 are set.'') [] k))"
      by (rule keeps_map) (simp add: keeps_say)
  qed (rule keeps_bind, rule keeps_if, rule keeps_say, rule keeps_map, simp, rule keeps_if, rule e)
qed

lemma maps_pointer: "print_maps lit c mbi fp k = Some (b, fp', k') \<Longrightarrow> fp' = fp"
  by (auto simp: print_maps_def bind_eq_Some_conv split: if_splits)

text \<open>
  What the pointer to the file system becomes: the start of the first module when the boot loader
  tells of modules, which it does when the buffer of the conversions lies apart from its tables.
\<close>

definition first_module :: "u32 \<Rightarrow> mem \<Rightarrow> u32 \<Rightarrow> u32" where
  "first_module mbi m otherwise =
     (if CHECK_FLAG (le32 m mbi) 3 \<and> le32 m (mbi + 20) \<noteq> 0 then le32 m (le32 m (mbi + 24)) else otherwise)"

definition word_clear :: "u32 \<Rightarrow> u32 \<Rightarrow> bool" where
  "word_clear c a \<longleftrightarrow> 64 \<le> unat (a - c) \<and> 64 \<le> unat (a + 1 - c) \<and> 64 \<le> unat (a + 2 - c) \<and> 64 \<le> unat (a + 3 - c)"

definition conv_clear :: "u32 \<Rightarrow> u32 \<Rightarrow> mem \<Rightarrow> bool" where
  "conv_clear c mbi m \<longleftrightarrow> word_clear c mbi \<and> word_clear c (mbi + 20) \<and> word_clear c (mbi + 24)
     \<and> word_clear c (le32 m (mbi + 24))"

lemma word_quiet: "quiet c k k' \<Longrightarrow> word_clear c a \<Longrightarrow> le32 (fst k') a = le32 (fst k) a"
  by (simp add: quiet_def only_conv_def word_clear_def le32_def)

lemma modules_first:
  assumes r: "modules_loop lit c mbi p 0 fp k = Some r" and c: "word_clear c p"
  shows "fst r = (if word_at mbi 20 k = 0 then fp else word_at p 0 k)"
proof (cases "word_at mbi 20 k = 0")
  case True
  then show ?thesis using r by (subst (asm) modules_loop.simps) auto
next
  case False
  then have "0 < word_at mbi 20 k" by (simp add: word_gt_0)
  then obtain q where q: "say_module lit c p 0 k = Some q"
    "modules_loop lit c mbi (p + 16) 1 (fst q) (snd q) = Some r"
    using r by (subst (asm) modules_loop.simps) (auto simp: bind_eq_Some_conv case_prod_beta)
  obtain k1 where k1: "say lit c (nl ''Module %d loaded at address: 0x%#x'') [0, word_at p 0 k] k = Some k1"
    "fst q = word_at p 0 k1"
    using q(1) by (auto simp: say_module_def bind_eq_Some_conv)
  have "fst q = word_at p 0 k" using word_quiet [OF quiet_say [OF k1(1)] c] k1(2) by (simp add: word_at_def)
  then show ?thesis using quiet_modules [OF q(2)] False by simp
qed

lemma quiet_say_if: "(\<And>k k'. f k = Some k' \<Longrightarrow> quiet c k k') \<Longrightarrow> say_if b f k = Some k' \<Longrightarrow> quiet c k k'"
  by (auto simp: say_if_def split: if_splits)

lemma print_info_effect:
  assumes i: "print_info lit c mbi fp k = Some (go_on, fp', k')"
  shows "quiet c k k'" and "conv_clear c mbi (fst k) \<Longrightarrow> fp' = first_module mbi (fst k) fp"
proof -
  obtain k1 k2 k3 k4 fp5 k5 where k1: "say lit c (nl ''flags = 0x%#x'') [word_at mbi 0 k] k = Some k1"
    and k2: "say_if (CHECK_FLAG (word_at mbi 0 k1) 0) (\<lambda>k.
         say lit c (nl ''mem_lower = %uKB, mem_upper = %uKB'') [word_at mbi 4 k, word_at mbi 8 k] k) k1 = Some k2"
    and k3: "say_if (CHECK_FLAG (word_at mbi 0 k2) 1) (\<lambda>k.
         say lit c (nl ''boot_device = 0x%#x'') [word_at mbi 12 k] k) k2 = Some k3"
    and k4: "say_if (CHECK_FLAG (word_at mbi 0 k3) 2) (\<lambda>k.
         say lit c (nl ''cmdline = %s'') [word_at mbi 16 k] k) k3 = Some k4"
    and m: "(if CHECK_FLAG (word_at mbi 0 k4) 3 then modules_loop lit c mbi (word_at mbi 24 k4) 0 fp k4
             else Some (fp, k4)) = Some (fp5, k5)"
    and p: "print_maps lit c mbi fp5 k5 = Some (go_on, fp', k')"
    using i unfolding print_info_def bind_eq_Some_conv by (elim exE conjE) (auto split: prod.splits)
  have "quiet c k1 k2" "quiet c k2 k3" "quiet c k3 k4"
    by (rule quiet_say_if [OF _ k2] quiet_say_if [OF _ k3] quiet_say_if [OF _ k4], erule quiet_say)+
  then have q4: "quiet c k k4" using quiet_say [OF k1] quiet_trans by blast
  have "quiet c k4 k5" using m quiet_modules by (fastforce split: if_splits)
  moreover have "quiet c k5 k'" using keeps_maps [of c k5 lit mbi fp5] p by (simp add: keeps_def)
  ultimately show "quiet c k k'" using q4 quiet_trans by blast
  assume cl: "conv_clear c mbi (fst k)"
  then have w: "word_at mbi 0 k4 = le32 (fst k) mbi" "word_at mbi 20 k4 = le32 (fst k) (mbi + 20)"
    "word_at mbi 24 k4 = le32 (fst k) (mbi + 24)"
    using word_quiet [OF q4] by (simp_all add: word_at_def conv_clear_def)
  have c: "word_clear c (word_at mbi 24 k4)" using cl unfolding w(3) by (simp add: conv_clear_def)
  have v: "word_at (word_at mbi 24 k4) 0 k4 = le32 (fst k) (le32 (fst k) (mbi + 24))"
    using word_quiet [OF q4 c] w(3) by (simp add: word_at_def)
  have "fp5 = first_module mbi (fst k) fp"
  proof (cases "CHECK_FLAG (word_at mbi 0 k4) 3")
    case True
    then show ?thesis using modules_first [OF _ c, of lit mbi fp k4 "(fp5, k5)"] m
      unfolding v by (simp add: first_module_def w)
  next
    case False
    then show ?thesis using m by (simp add: first_module_def w)
  qed
  then show "fp' = first_module mbi (fst k) fp" using maps_pointer [OF p] by simp
qed

section \<open>The system when the first shell is executed\<close>

text \<open>The kernel's static data are zero, the interrupt table and the masks of the controller as they are declared.\<close>

definition powered_on :: "boot \<Rightarrow> bool" where
  "powered_on b \<longleftrightarrow> active (bkernel b) = replicate 6 False \<and> curr_process (bkernel b) = 0 \<and> terminal_iter (bkernel b) = 0 \<and>
     in_stack 0 (esp (bkernel b)) \<and> terminal_index (pcb_mem (bkernel b) (getProcessPCB 0)) = 0 \<and>
     bidt b = idt_start \<and> bpic b = pic0"

lemma first_console_ok:
  shows "tty_ok (snd (first_console b))" "map active_process (terminals (snd (first_console b))) = [-1, -1, -1]"
    "active_terminal_index (snd (first_console b)) = 0" "fst (first_console b) = bmem b"
    "view (snd (first_console b)) 0 = (0, 0, replicate 2000 (32, 7))"
proof -
  let ?s = "init_terminals (ktty (bkernel b))"
  have r: "terminals ?s = [init_terminal VIDEO_BASE terminal0_storage, init_terminal terminal1_storage terminal1_storage,
      init_terminal terminal2_storage terminal2_storage]" "active_terminal_index ?s = 0"
    by (simp_all add: init_terminals_def)
  note ok = init_records_ok(1) [OF r]
  have f: "first_console b = (bmem b, clear_terminal 0 ?s)" by (simp add: first_console_def Let_def r(2))
  note c = clear_effect [OF ok, unfolded r(2)]
  show "tty_ok (snd (first_console b))" "view (snd (first_console b)) 0 = (0, 0, replicate 2000 (32, 7))"
    "fst (first_console b) = bmem b" using c by (simp_all add: f)
  show "active_terminal_index (snd (first_console b)) = 0" using c(2) by (simp add: f others_same_def r(2))
  show "map active_process (terminals (snd (first_console b))) = [-1, -1, -1]"
    by (simp add: f clear_terminal_def Let_def set_term_def cursor_to_def r init_terminal_def)
qed

lemma irqs_after:
  "deliverable (fst (enable_irq 8 (fst (enable_irq 1 (fst (enable_irq 0 pic0)))))) n = (n \<in> {0, 1, 2, 8})" if "n < 16"
proof -
  have e: "fst (enable_irq 8 (fst (enable_irq 1 (fst (enable_irq 0 pic0))))) = \<lparr>master_interrupt_mask = 0xF8, slave_interrupt_mask = 0xFE\<rparr>"
    by (simp add: enable_irq_def Let_def pic0_def NUMBER_IRQS_def irq_bit_def ICW3_SLAVE_def)
  have "\<forall>n \<in> set [0..<16]. deliverable \<lparr>master_interrupt_mask = 0xF8, slave_interrupt_mask = 0xFE\<rparr> n = (n \<in> {0, 1, 2, 8})"
    by (simp add: deliverable_def upt_rec)
  then show ?thesis using that unfolding e by simp
qed

text \<open>What \<open>entry\<close> has done when it goes on.\<close>

definition booted :: "layout \<Rightarrow> (handler \<Rightarrow> u32) \<Rightarrow> u32 \<Rightarrow> u32 \<Rightarrow> u32 \<Rightarrow> boot \<Rightarrow> bool" where
  "booted L addr ldt tss fp b \<longleftrightarrow>
     boot_ok (bkernel b) \<and> \<not> int_flag (bkernel b) \<and> paging_on (kpaging (bkernel b)) \<and> cr3 (kpaging (bkernel b)) = 0 \<and>
     fs_ptr b = fp \<and> bidt b = idt_setup addr \<and> (\<forall>n < 16. deliverable (bpic b) n = (n \<in> {0, 1, 2, 8})) \<and>
     seg_base (ldt_desc_ptr b) = ldt \<and> seg_limit (ldt_desc_ptr b) = 31 \<and> ldtr b = KERNEL_LDT \<and>
     seg_base (tss_desc_ptr b) = tss \<and> seg_limit (tss_desc_ptr b) = 103 \<and> task_register b = KERNEL_TSS \<and>
     tss_ss0 b = KERNEL_DS \<and> tss_esp0 (bkernel b) = 0x800000"

lemma entry_ready:
  assumes p: "powered_on b" and i: "print_info lit c mbi (filesys_ptr b) (first_console b) = Some (True, fp, k)"
  shows "\<exists>b'. entry L addr lit c ldt tss garbage prev_b prev_a MULTIBOOT_BOOTLOADER_MAGIC mbi b = Some (Inr b') \<and> booted L addr ldt tss fp b'"
proof -
  let ?b1 = "(put_console k b)\<lparr>filesys_ptr := fp\<rparr>"
  let ?b = "start_system L (start_interrupts addr prev_b prev_a (load_segments ldt tss garbage ?b1))"
  have e: "entry L addr lit c ldt tss garbage prev_b prev_a MULTIBOOT_BOOTLOADER_MAGIC mbi b = Some (Inr ?b)"
    by (simp add: entry_def i)
  have "kept (snd (first_console b)) (snd k)" using print_info_effect(1) [OF i] by (simp add: quiet_def)
  then have k: "tty_ok (snd k)" "map active_process (terminals (snd k)) = [-1, -1, -1]"
    using first_console_ok [of b] by (simp_all add: kept_def)
  have s: "bkernel ?b = (bkernel b)\<lparr>ktty := snd k, int_flag := False, tss_esp0 := 0x800000, kpaging := initPaging L (kpaging (bkernel b))\<rparr>"
    "fs_ptr ?b = fp" "bidt ?b = idt_setup addr" "bpic ?b = fst (enable_irq 8 (fst (enable_irq 1 (fst (enable_irq 0 pic0)))))"
    "ldt_desc_ptr ?b = the_ldt_desc ldt garbage" "ldtr ?b = KERNEL_LDT" "tss_desc_ptr ?b = the_tss_desc tss garbage"
    "task_register ?b = KERNEL_TSS" "tss_ss0 ?b = KERNEL_DS"
    using p by (simp_all add: start_system_def start_interrupts_def load_segments_def put_console_def powered_on_def Let_def idt_setup_def
        case_prod_beta)
  have d: "seg_base (the_ldt_desc ldt garbage) = ldt" "seg_limit (the_ldt_desc ldt garbage) = 31"
    "seg_base (the_tss_desc tss garbage) = tss" "seg_limit (the_tss_desc tss garbage) = 103"
    by (simp_all add: the_ldt_desc_def the_tss_desc_def seg_params_read seg_params_limit ldt_size_def tss_size_def)
  have "boot_ok (bkernel ?b)" using p k by (simp add: s boot_ok_def powered_on_def)
  then have "booted L addr ldt tss fp ?b"
    unfolding booted_def s d using irqs_after by (simp add: initPaging_def loadPageDirectory_def)
  then show ?thesis using e by blast
qed

lemma machine_booted:
  "booted L addr ldt tss fp b \<Longrightarrow> execute fs junk shell_name (bkernel b) = Some (To_user eip sp bp, k) \<Longrightarrow> machine L fs k"
  unfolding booted_def using machine.boot by blast

lemma entry_stops:
  "magic \<noteq> MULTIBOOT_BOOTLOADER_MAGIC \<Longrightarrow> entry L addr lit c ldt tss garbage prev_b prev_a magic mbi b = Some r \<Longrightarrow> \<exists>b'. r = Inl b'"
  by (auto simp: entry_def)

text \<open>
  C28. Start-up: without the boot loader's magic number \<open>entry\<close> never goes on; with it, once what the
  boot loader says is printed and accepted, it reaches the loop that executes the first shell, with
  paging on, the file system at the start of the first module (when there are modules, and the
  buffer \<open>printf\<close> converts numbers in lies apart from the boot loader's tables), every gate of the interrupt table leading
  to its handler, just the timer, the keyboard, the cascade and the clock unmasked, descriptors from which
  the processor reads the bases and limits of the LDT and the task state segment, and the kernel in
  the state from which the runs of the system are counted: what follows a successful execution of
  the shell is a run of the machine.
\<close>

theorem entry_boots:
  assumes "powered_on b"
  shows "(magic \<noteq> MULTIBOOT_BOOTLOADER_MAGIC \<longrightarrow> entry L addr lit c ldt tss garbage prev_b prev_a magic mbi b = Some r \<longrightarrow> (\<exists>b'. r = Inl b')) \<and>
    (print_info lit c mbi (filesys_ptr b) (first_console b) = Some (True, fp, k) \<longrightarrow>
       (\<exists>b'. entry L addr lit c ldt tss garbage prev_b prev_a MULTIBOOT_BOOTLOADER_MAGIC mbi b = Some (Inr b') \<and>
          booted L addr ldt tss fp b' \<and>
          (conv_clear c mbi (bmem b) \<longrightarrow> fs_ptr b' = first_module mbi (bmem b) (filesys_ptr b)) \<and>
          (\<forall>fs junk eip sp bp k1. execute fs junk shell_name (bkernel b') = Some (To_user eip sp bp, k1) \<longrightarrow> machine L fs k1)))"
proof (intro conjI impI)
  show "magic \<noteq> MULTIBOOT_BOOTLOADER_MAGIC \<Longrightarrow> entry L addr lit c ldt tss garbage prev_b prev_a magic mbi b = Some r \<Longrightarrow> \<exists>b'. r = Inl b'"
    by (rule entry_stops)
  assume i: "print_info lit c mbi (filesys_ptr b) (first_console b) = Some (True, fp, k)"
  obtain b' where b': "entry L addr lit c ldt tss garbage prev_b prev_a MULTIBOOT_BOOTLOADER_MAGIC mbi b = Some (Inr b')"
    "booted L addr ldt tss fp b'"
    using entry_ready [OF assms i] by blast
  have "conv_clear c mbi (bmem b) \<Longrightarrow> fs_ptr b' = first_module mbi (bmem b) (filesys_ptr b)"
    using print_info_effect(2) [OF i] b'(2) first_console_ok(4) [of b] by (simp add: booted_def)
  then show "\<exists>b'. entry L addr lit c ldt tss garbage prev_b prev_a MULTIBOOT_BOOTLOADER_MAGIC mbi b = Some (Inr b') \<and>
      booted L addr ldt tss fp b' \<and>
      (conv_clear c mbi (bmem b) \<longrightarrow> fs_ptr b' = first_module mbi (bmem b) (filesys_ptr b)) \<and>
      (\<forall>fs junk eip sp bp k1. execute fs junk shell_name (bkernel b') = Some (To_user eip sp bp, k1) \<longrightarrow> machine L fs k1)"
    using b' machine_booted [OF b'(2)] by blast
qed

text \<open>A boot with no information but the flags, all clear.\<close>

definition flags_format :: "directive list" where
  "flags_format = map (\<lambda>c. Plain (of_char c)) ''flags = 0x'' @ [Hex8, Plain 10]"

definition demo_boot :: boot where
  "demo_boot = \<lparr>bkernel = boot_kernel, bmem = wr (\<lambda>_. 0) 100 (chars (nl ''flags = 0x%#x'') @ [0]), filesys_ptr = 0, fs_ptr = 0,
     ldt_desc_ptr = undefined, tss_desc_ptr = undefined, tss_ldt = 0, tss_ss0 = 0, ldtr = 0, task_register = 0, bidt = idt_start,
     bpic = pic0, bports = []\<rparr>"

lemma flags_text: "format_text flags_format = chars (nl ''flags = 0x%#x'')"
  using plain_text [of "''flags = 0x''" "[Hex8, Plain 10]"] by (simp add: flags_format_def format_text_def nl_def)

lemma flags_facts: "\<forall>d \<in> set flags_format. plain_ok d" "length (filter takes flags_format) \<le> length [v]"
  "texts flags_format [v] = {}"
  by (simp_all add: flags_format_def plain_ok_def)

lemma demo_powered_on: "powered_on demo_boot"
proof -
  have "in_stack 0 0x7FFF00" using pcb_addresses [of 0] by (simp add: in_stack_def)
  then show ?thesis by (simp add: powered_on_def demo_boot_def boot_kernel_def blank_pcb_def)
qed

lemma flags_cstr: "is_cstr (bmem demo_boot) 100 (format_text flags_format)" "apart 0 100 (length (format_text flags_format))"
proof -
  show "is_cstr (bmem demo_boot) 100 (format_text flags_format)"
    using is_cstr_wr [of "chars (nl ''flags = 0x%#x'')" "\<lambda>_. 0" 100] by (simp add: demo_boot_def flags_text nl_def)
  show "apart 0 100 (length (format_text flags_format))"
    using unat_plus_of_nat [of 100] by (simp add: apart_def flags_text nl_def)
qed

lemma flags_clear:
  assumes "only_conv 0 (bmem demo_boot) m" shows "word_at 1000 0 (m, s) = 0"
proof -
  have "m x = 0" if "x \<in> {1000, 1001, 1002, 1003}" for x
  proof -
    have "m x = bmem demo_boot x" using assms that by (auto simp: only_conv_def)
    also have "\<dots> = 0"
    proof -
      have l: "length (chars (nl ''flags = 0x%#x'') @ [0]) = 15" by (simp add: nl_def)
      have "unat (x - 100) \<ge> 900" using that by auto
      then show ?thesis using l unfolding demo_boot_def boot.simps by (subst wr_apply) auto
    qed
    finally show ?thesis .
  qed
  then show ?thesis by (simp add: word_at_def le32_def)
qed

lemma demo_info: "\<exists>k. print_info (\<lambda>_. 100) 0 1000 0 (first_console demo_boot) = Some (True, 0, k)"
proof -
  obtain s where f: "first_console demo_boot = (bmem demo_boot, s)"
    using first_console_ok(4) [of demo_boot] by (metis prod.collapse)
  have l: "length (format_text flags_format) < 2 ^ 31" by (simp add: flags_text nl_def)
  have z: "word_at 1000 0 (bmem demo_boot, s) = 0" by (rule flags_clear) (simp add: only_conv_def)
  have t: "strings_ok 0 (\<lambda>_. []) (texts flags_format [0]) (bmem demo_boot)" unfolding flags_facts(3) by (simp add: strings_ok_def)
  obtain m' where p: "printf 0 100 [0] (bmem demo_boot, s) =
      Some (int (length (format_text flags_format)), m', fold putc (printed (\<lambda>_. []) flags_format [0]) s)"
    and o: "only_conv 0 (bmem demo_boot) m'"
    using printf_shows [OF flags_cstr(1) l flags_cstr(2) flags_facts(1,2) t, of s] by blast
  have w: "word_at 1000 0 (m', s') = 0" for s' by (rule flags_clear [OF o])
  have n: "\<not> CHECK_FLAG 0 j" for j by (simp add: CHECK_FLAG_def)
  have "say (\<lambda>_. 100) 0 (nl ''flags = 0x%#x'') [word_at 1000 0 (first_console demo_boot)] (first_console demo_boot) =
      Some (m', fold putc (printed (\<lambda>_. []) flags_format [0]) s)"
    by (simp add: say_def f z p)
  then show ?thesis by (simp add: print_info_def print_maps_def say_if_def w n)
qed

theorem entry_boots_witness:
  "\<exists>b'. entry \<lparr>first_pt = 0x400000, video_pt = (\<lambda>i. 0x401000)\<rparr> (\<lambda>h. 0x402000) (\<lambda>_. 100) 0 0x1000 0x2000 undefined 0 0
       MULTIBOOT_BOOTLOADER_MAGIC 1000 demo_boot = Some (Inr b') \<and>
     booted \<lparr>first_pt = 0x400000, video_pt = (\<lambda>i. 0x401000)\<rparr> (\<lambda>h. 0x402000) 0x1000 0x2000 0 b'"
proof -
  have "filesys_ptr demo_boot = 0" by (simp add: demo_boot_def)
  then obtain k where h: "print_info (\<lambda>_. 100) 0 1000 (filesys_ptr demo_boot) (first_console demo_boot) = Some (True, 0, k)"
    using demo_info by auto
  from mp [OF conjunct2 [OF entry_boots [OF demo_powered_on]] h] show ?thesis by blast
qed

end
