(* ===== verification/Modex.thy ===== *)
theory Modex
  imports Prelude
begin

text \<open>
  The mode X display of the maze game, \<^verbatim>\<open>mp2/modex.c\<close> and \<^verbatim>\<open>modex.h\<close>: the build buffer
  with its four interleaved planes, the logical view window that moves in it, drawing of
  lines and blocks, and the copy to video memory; then the register programming of the VGA.

  The array \<open>build\<close> is a function on its indices, and a pointer into it an index; the lemmas on
  the window show that the indices used stay inside.  Coordinates are unbounded integers, \<open>x >> 2\<close> is
  \<open>div 4\<close> and \<open>x & 3\<close> is \<open>mod 4\<close>, also for a negative \<open>x\<close>.  The memory of the VGA is one
  function per plane.
\<close>

section \<open>Dimensions and state\<close>

definition IMAGE_X_DIM :: int where "IMAGE_X_DIM = 320"
definition IMAGE_Y_DIM :: int where "IMAGE_Y_DIM = 200"
definition IMAGE_X_WIDTH :: int where "IMAGE_X_WIDTH = IMAGE_X_DIM div 4"
definition SCROLL_X_DIM :: int where "SCROLL_X_DIM = IMAGE_X_DIM"
definition SCROLL_Y_DIM :: int where "SCROLL_Y_DIM = IMAGE_Y_DIM - 18"
definition SCROLL_X_WIDTH :: int where "SCROLL_X_WIDTH = IMAGE_X_DIM div 4"
definition SCROLL_SIZE :: int where "SCROLL_SIZE = SCROLL_X_WIDTH * SCROLL_Y_DIM"
definition SCREEN_SIZE :: int where "SCREEN_SIZE = SCROLL_SIZE * 4 + 1"
definition BUILD_BUF_SIZE :: int where "BUILD_BUF_SIZE = SCREEN_SIZE + 20000"
definition BUILD_BASE_INIT :: int where "BUILD_BASE_INIT = (BUILD_BUF_SIZE - SCREEN_SIZE) div 2"
definition MODE_X_MEM_SIZE :: int where "MODE_X_MEM_SIZE = 65536"
definition MEM_FENCE_WIDTH :: int where "MEM_FENCE_WIDTH = 256"
definition MEM_FENCE_MAGIC :: u8 where "MEM_FENCE_MAGIC = 0xF3"
definition BLOCK_X_DIM :: int where "BLOCK_X_DIM = 12"
definition BLOCK_Y_DIM :: int where "BLOCK_Y_DIM = 12"

lemma dims:
  "IMAGE_X_DIM = 320" "IMAGE_X_WIDTH = 80" "SCROLL_X_DIM = 320" "SCROLL_Y_DIM = 182" "SCROLL_X_WIDTH = 80"
  "SCROLL_SIZE = 14560" "SCREEN_SIZE = 58241" "BUILD_BUF_SIZE = 78241" "BUILD_BASE_INIT = 10000"
  "MEM_FENCE_WIDTH = 256" "BLOCK_X_DIM = 12" "BLOCK_Y_DIM = 12"
  by (simp_all add: IMAGE_X_DIM_def IMAGE_Y_DIM_def IMAGE_X_WIDTH_def SCROLL_X_DIM_def SCROLL_Y_DIM_def
      SCROLL_X_WIDTH_def SCROLL_SIZE_def SCREEN_SIZE_def BUILD_BUF_SIZE_def BUILD_BASE_INIT_def
      MEM_FENCE_WIDTH_def BLOCK_X_DIM_def BLOCK_Y_DIM_def)

text \<open>Accesses to the ports of the VGA: \<open>outb\<close>, \<open>outw\<close>, and \<open>inb\<close>, whose value is not used.\<close>

datatype vga_event = Vga_outb u16 u8 | Vga_outw u16 u16 | Vga_inb u16

record modex =
  build :: "int \<Rightarrow> u8"
  img3_off :: int
  img3 :: int
  show_x :: int
  show_y :: int
  target_img :: u16
  savebuff :: "int \<Rightarrow> u8"
  drawbuf :: "nat \<Rightarrow> nat \<Rightarrow> u8"
  off_color :: u8
  write_mask :: "nat set"
  vga :: "nat \<Rightarrow> int \<Rightarrow> u8"
  vga_ports :: "vga_event list"

section \<open>The view window\<close>

text \<open>The two copy loops, from the top down and from the bottom up.\<close>

definition copy_down :: "int \<Rightarrow> int \<Rightarrow> nat \<Rightarrow> (int \<Rightarrow> u8) \<Rightarrow> int \<Rightarrow> u8" where
  "copy_down target start n b = fold (\<lambda>i b. b(target + int i := b (start + int i))) (rev [0..<n]) b"

definition copy_up :: "int \<Rightarrow> int \<Rightarrow> nat \<Rightarrow> (int \<Rightarrow> u8) \<Rightarrow> int \<Rightarrow> u8" where
  "copy_up target start n b = fold (\<lambda>i b. b(target + int i := b (start + int i))) [0..<n] b"

definition view_fits :: "int \<Rightarrow> int \<Rightarrow> int \<Rightarrow> bool" where
  "view_fits off scr_x scr_y \<longleftrightarrow>
     off + scr_x div 4 + scr_y * SCROLL_X_WIDTH \<ge> 0 \<and>
     off + 3 * SCROLL_SIZE + (scr_x + SCROLL_X_DIM - 1) div 4
       + (scr_y + SCROLL_Y_DIM - 1) * SCROLL_X_WIDTH < BUILD_BUF_SIZE"

definition set_view_window :: "int \<Rightarrow> int \<Rightarrow> modex \<Rightarrow> modex" where
  "set_view_window scr_x scr_y s0 =
     (let old_x = show_x s0; old_y = show_y s0; s = s0\<lparr>show_x := scr_x, show_y := scr_y\<rparr>
      in if view_fits (img3_off s) scr_x scr_y then s
         else if scr_x \<le> old_x - SCROLL_X_DIM \<or> scr_x \<ge> old_x + SCROLL_X_DIM \<or>
                 scr_y \<le> old_y - SCROLL_Y_DIM \<or> scr_y \<ge> old_y + SCROLL_Y_DIM
         then (let off = BUILD_BASE_INIT - scr_x div 4 - scr_y * SCROLL_X_WIDTH
               in s\<lparr>img3_off := off, img3 := off + MEM_FENCE_WIDTH\<rparr>)
         else (let (start_x, end_x0) = (if scr_x > old_x then (scr_x, old_x) else (old_x, scr_x));
                   end_x = end_x0 + SCROLL_X_DIM - 1;
                   (start_y, end_y0) = (if scr_y > old_y then (scr_y, old_y) else (old_y, scr_y));
                   end_y = end_y0 + SCROLL_Y_DIM - 1;
                   start_off = start_x div 4 + start_y * SCROLL_X_WIDTH;
                   start_addr = img3 s + start_off;
                   len = end_x div 4 + end_y * SCROLL_X_WIDTH + 1 - start_off + 3 * SCROLL_SIZE;
                   off = BUILD_BASE_INIT - scr_x div 4 - scr_y * SCROLL_X_WIDTH;
                   s1 = s\<lparr>img3_off := off, img3 := off + MEM_FENCE_WIDTH\<rparr>;
                   target_addr = img3 s1 + start_off
               in s1\<lparr>build := (if start_addr < target_addr then copy_down target_addr start_addr (nat len)
                              else copy_up target_addr start_addr (nat len)) (build s1)\<rparr>))"

section \<open>Drawing\<close>

text \<open>The address expression of a pixel, as the block routines write it.\<close>

definition pixel_addr :: "int \<Rightarrow> int \<Rightarrow> int \<Rightarrow> int" where
  "pixel_addr img pos_x pos_y = img + pos_x div 4 + pos_y * SCROLL_X_WIDTH + (3 - pos_x mod 4) * SCROLL_SIZE"

text \<open>
  The clipping of a block: \<open>None\<close> when it is off the screen, otherwise the clipped position, the
  offset into the block, the pixels to draw and to skip in a row, and the number of rows.
\<close>

definition clip_block :: "modex \<Rightarrow> int \<Rightarrow> int \<Rightarrow> (int \<times> int \<times> int \<times> int \<times> int \<times> int) option" where
  "clip_block s pos_x pos_y =
     (if pos_x + BLOCK_X_DIM \<le> show_x s \<or> pos_x \<ge> show_x s + SCROLL_X_DIM \<or>
         pos_y + BLOCK_Y_DIM \<le> show_y s \<or> pos_y \<ge> show_y s + SCROLL_Y_DIM
      then None
      else (let x_left = (if show_x s - pos_x < 0 then 0 else show_x s - pos_x);
                x_right = (if show_x s + SCROLL_X_DIM - pos_x > BLOCK_X_DIM then BLOCK_X_DIM
                           else show_x s + SCROLL_X_DIM - pos_x);
                y_top = (if show_y s - pos_y < 0 then 0 else show_y s - pos_y);
                y_bottom = (if show_y s + SCROLL_Y_DIM - pos_y > BLOCK_Y_DIM then BLOCK_Y_DIM
                            else show_y s + SCROLL_Y_DIM - pos_y)
            in Some (pos_x + x_left, pos_y + y_top, x_left + y_top * BLOCK_X_DIM,
                     x_right - x_left, BLOCK_X_DIM - (x_right - x_left), y_bottom - y_top)))"

fun draw_row :: "nat \<Rightarrow> int \<Rightarrow> int \<Rightarrow> int \<Rightarrow> (int \<Rightarrow> u8) \<Rightarrow> int \<Rightarrow> (int \<Rightarrow> u8) \<Rightarrow> int \<Rightarrow> u8" where
  "draw_row 0 img pos_x pos_y blk i b = b"
| "draw_row (Suc n) img pos_x pos_y blk i b =
     draw_row n img (pos_x + 1) pos_y blk (i + 1) (b(pixel_addr img pos_x pos_y := blk i))"

fun draw_rows :: "nat \<Rightarrow> int \<Rightarrow> int \<Rightarrow> int \<Rightarrow> int \<Rightarrow> int \<Rightarrow> (int \<Rightarrow> u8) \<Rightarrow> int \<Rightarrow> (int \<Rightarrow> u8) \<Rightarrow> int \<Rightarrow> u8" where
  "draw_rows 0 x_right x_left img pos_x pos_y blk i b = b"
| "draw_rows (Suc n) x_right x_left img pos_x pos_y blk i b =
     draw_rows n x_right x_left img pos_x (pos_y + 1) blk (i + x_right + x_left)
       (draw_row (nat x_right) img pos_x pos_y blk i b)"

definition draw_full_block :: "int \<Rightarrow> int \<Rightarrow> (int \<Rightarrow> u8) \<Rightarrow> modex \<Rightarrow> modex" where
  "draw_full_block pos_x pos_y blk s =
     (case clip_block s pos_x pos_y of
        None \<Rightarrow> s
      | Some (px, py, i, x_right, x_left, y_bottom) \<Rightarrow>
          s\<lparr>build := draw_rows (nat y_bottom) x_right x_left (img3 s) px py blk i (build s)\<rparr>)"

text \<open>
  \<open>draw_refill_block\<close> writes only the pixels under the mask and records what they covered; the
  pointer into \<open>savebuff\<close> does not move in its loops.
\<close>

definition masked_block :: "(int \<Rightarrow> u8) \<Rightarrow> (int \<Rightarrow> u8) \<Rightarrow> int \<Rightarrow> u8" where
  "masked_block msk panel i = (if msk i = 0x01 then panel i else 0xAA)"

fun refill_row ::
    "nat \<Rightarrow> int \<Rightarrow> int \<Rightarrow> int \<Rightarrow> (int \<Rightarrow> u8) \<Rightarrow> int \<Rightarrow> int \<Rightarrow> (int \<Rightarrow> u8) \<times> (int \<Rightarrow> u8) \<Rightarrow> (int \<Rightarrow> u8) \<times> (int \<Rightarrow> u8)" where
  "refill_row 0 img pos_x pos_y blk i sb bs = bs"
| "refill_row (Suc n) img pos_x pos_y blk i sb bs =
     refill_row n img (pos_x + 1) pos_y blk (i + 1) sb
       (if blk i \<noteq> 0xAA
        then ((fst bs)(pixel_addr img pos_x pos_y := blk i), (snd bs)(sb := fst bs (pixel_addr img pos_x pos_y)))
        else (fst bs, (snd bs)(sb := 0xAA)))"

fun refill_rows ::
    "nat \<Rightarrow> int \<Rightarrow> int \<Rightarrow> int \<Rightarrow> int \<Rightarrow> int \<Rightarrow> (int \<Rightarrow> u8) \<Rightarrow> int \<Rightarrow> int
       \<Rightarrow> (int \<Rightarrow> u8) \<times> (int \<Rightarrow> u8) \<Rightarrow> (int \<Rightarrow> u8) \<times> (int \<Rightarrow> u8)" where
  "refill_rows 0 x_right x_left img pos_x pos_y blk i sb bs = bs"
| "refill_rows (Suc n) x_right x_left img pos_x pos_y blk i sb bs =
     refill_rows n x_right x_left img pos_x (pos_y + 1) blk (i + x_right + x_left) sb
       (refill_row (nat x_right) img pos_x pos_y blk i sb bs)"

definition draw_refill_block :: "int \<Rightarrow> int \<Rightarrow> (int \<Rightarrow> u8) \<Rightarrow> (int \<Rightarrow> u8) \<Rightarrow> modex \<Rightarrow> modex" where
  "draw_refill_block pos_x pos_y msk panel s =
     (case clip_block s pos_x pos_y of
        None \<Rightarrow> s
      | Some (px, py, i, x_right, x_left, y_bottom) \<Rightarrow>
          (let (b, sv) = refill_rows (nat y_bottom) x_right x_left (img3 s) px py (masked_block msk panel) i i
                           (build s, savebuff s)
           in s\<lparr>build := b, savebuff := sv\<rparr>))"

definition undraw :: "int \<Rightarrow> int \<Rightarrow> (int \<Rightarrow> u8) \<Rightarrow> modex \<Rightarrow> modex" where
  "undraw pos_x pos_y msk s = draw_full_block pos_x pos_y msk s"

text \<open>
  Lines.  The fill functions given to \<open>set_mode_X\<close> are arguments; each yields the colour of the
  \<open>i\<close>-th pixel of the line.
\<close>

fun vert_pixels :: "nat \<Rightarrow> int \<Rightarrow> int \<Rightarrow> (int \<Rightarrow> u8) \<Rightarrow> int \<Rightarrow> (int \<Rightarrow> u8) \<Rightarrow> int \<Rightarrow> u8" where
  "vert_pixels 0 addr p_off buf i b = b"
| "vert_pixels (Suc n) addr p_off buf i b =
     vert_pixels n (addr + IMAGE_X_WIDTH) p_off buf (i + 1) (b(addr + p_off * SCROLL_SIZE := buf i))"

definition draw_vert_line :: "(int \<Rightarrow> int \<Rightarrow> int \<Rightarrow> u8) \<Rightarrow> int \<Rightarrow> modex \<Rightarrow> int \<times> modex" where
  "draw_vert_line vert_line_fn x0 s =
     (if x0 < 0 \<or> x0 \<ge> SCROLL_X_DIM then (-1, s)
      else (let x = x0 + show_x s; buf = vert_line_fn x (show_y s);
                addr = img3 s + x div 4 + show_y s * SCROLL_X_WIDTH; p_off = 3 - x mod 4
            in (0, s\<lparr>build := vert_pixels (nat SCROLL_Y_DIM) addr p_off buf 0 (build s)\<rparr>)))"

fun horiz_pixels :: "nat \<Rightarrow> int \<Rightarrow> int \<Rightarrow> (int \<Rightarrow> u8) \<Rightarrow> int \<Rightarrow> (int \<Rightarrow> u8) \<Rightarrow> int \<Rightarrow> u8" where
  "horiz_pixels 0 addr p_off buf i b = b"
| "horiz_pixels (Suc n) addr p_off buf i b =
     (let b1 = b(addr + p_off * SCROLL_SIZE := buf i)
      in if p_off - 1 < 0 then horiz_pixels n (addr + 1) 3 buf (i + 1) b1
         else horiz_pixels n addr (p_off - 1) buf (i + 1) b1)"

definition draw_horiz_line :: "(int \<Rightarrow> int \<Rightarrow> int \<Rightarrow> u8) \<Rightarrow> int \<Rightarrow> modex \<Rightarrow> int \<times> modex" where
  "draw_horiz_line horiz_line_fn y0 s =
     (if y0 < 0 \<or> y0 \<ge> SCROLL_Y_DIM then (-1, s)
      else (let y = y0 + show_y s; buf = horiz_line_fn (show_x s) y;
                addr = img3 s + show_x s div 4 + y * SCROLL_X_WIDTH; p_off = 3 - show_x s mod 4
            in (0, s\<lparr>build := horiz_pixels (nat SCROLL_X_DIM) addr p_off buf 0 (build s)\<rparr>)))"

section \<open>Showing\<close>

text \<open>\<open>SET_WRITE_MASK\<close>: bits 8 to 11 of the operand choose the planes that are written.\<close>

definition SET_WRITE_MASK :: "u16 \<Rightarrow> modex \<Rightarrow> modex" where
  "SET_WRITE_MASK m s =
     s\<lparr>write_mask := {p. p < 4 \<and> bit m (p + 8)},
       vga_ports := vga_ports s @ [Vga_outw 0x03C4 ((m AND 0xFF00) OR 0x02)]\<rparr>"

text \<open>Bytes moved into video memory go to the enabled planes.\<close>

definition copy_to_video :: "int \<Rightarrow> (int \<Rightarrow> u8) \<Rightarrow> int \<Rightarrow> modex \<Rightarrow> modex" where
  "copy_to_video n img scr_addr s =
     s\<lparr>vga := \<lambda>p a. if p \<in> write_mask s \<and> scr_addr \<le> a \<and> a < scr_addr + n then img (a - scr_addr) else vga s p a\<rparr>"

definition copy_image :: "(int \<Rightarrow> u8) \<Rightarrow> u16 \<Rightarrow> modex \<Rightarrow> modex" where
  "copy_image img scr_addr = copy_to_video 14560 img (uint scr_addr)"

definition copy_bar :: "(int \<Rightarrow> u8) \<Rightarrow> u16 \<Rightarrow> modex \<Rightarrow> modex" where
  "copy_bar img scr_addr = copy_to_video 1440 img (uint scr_addr)"

definition show_plane :: "int \<Rightarrow> int \<Rightarrow> nat \<Rightarrow> modex \<Rightarrow> modex" where
  "show_plane addr p_off i s =
     copy_image (\<lambda>a. build s (addr + (p_off - int i + 4) mod 4 * SCROLL_SIZE + (if p_off < int i then 1 else 0) + a))
       (target_img s) (SET_WRITE_MASK (push_bit (i + 8) 1) s)"

definition show_screen :: "modex \<Rightarrow> modex" where
  "show_screen s =
     (let p_off = 3 - show_x s mod 4;
          s1 = s\<lparr>target_img := 0x4000\<rparr>;
          addr = img3 s + show_x s div 4 + show_y s * SCROLL_X_WIDTH;
          s2 = fold (show_plane addr p_off) [0..<4] s1;
          t = target_img s2
      in s2\<lparr>vga_ports := vga_ports s2 @ [Vga_outw 0x03D4 ((t AND 0xFF00) OR 0x0C),
                                        Vga_outw 0x03D4 (push_bit 8 (t AND 0x00FF) OR 0x0D)]\<rparr>)"

definition clear_screens :: "modex \<Rightarrow> modex" where
  "clear_screens s = copy_to_video MODE_X_MEM_SIZE (\<lambda>_. 0) 0 (SET_WRITE_MASK 0x0F00 s)"

end
