(* ===== verification/Modex_Spec.thy ===== *)
theory Modex_Spec
  imports Modex
begin

text \<open>
  What the display promises: pixels of the window have distinct places inside the build
  buffer, moving the window keeps what is still visible, each drawing routine changes exactly
  the pixels it should, and \<open>show_screen\<close> puts the window on the screen.  The locale
  \<open>panning\<close> is the interface the game scrolls with.
\<close>

section \<open>Places of pixels\<close>

definition in_win :: "int \<Rightarrow> int \<Rightarrow> int \<Rightarrow> int \<Rightarrow> bool" where
  "in_win sx sy x y \<longleftrightarrow> sx \<le> x \<and> x < sx + 320 \<and> sy \<le> y \<and> y < sy + 182"

abbreviation visible :: "modex \<Rightarrow> int \<Rightarrow> int \<Rightarrow> bool" where
  "visible s \<equiv> in_win (show_x s) (show_y s)"

definition pixel :: "modex \<Rightarrow> int \<Rightarrow> int \<Rightarrow> u8" where
  "pixel s x y = build s (pixel_addr (img3 s) x y)"

definition view_ok :: "modex \<Rightarrow> bool" where
  "view_ok s \<longleftrightarrow> img3 s = img3_off s + MEM_FENCE_WIDTH \<and> view_fits (img3_off s) (show_x s) (show_y s)"

lemma rem4: "(r :: int) = 0 \<or> r = 1 \<or> r = 2 \<or> r = 3" if "0 \<le> r" "r < 4"
  using that by linarith

text \<open>
  A pixel in the window, by its plane \<open>r\<close>, its column in the plane and its row: planes that lie
  further back are shifted by one byte if any are.
\<close>

lemma window_place:
  assumes "in_win sx sy x y"
  obtains a b where "0 \<le> a" "a < 80" "0 \<le> b" "b < 182" "y = sy + b"
    "x div 4 = sx div 4 + a + (if x mod 4 < sx mod 4 then 1 else 0)"
proof -
  let ?d = "if x mod 4 < sx mod 4 then 1 else 0 :: int"
  have r: "0 \<le> x mod 4" "x mod 4 < 4" "0 \<le> sx mod 4" "sx mod 4 < 4" by simp_all
  have "x = 4 * (x div 4) + x mod 4" "sx = 4 * (sx div 4) + sx mod 4" by simp_all
  then have le: "4 * (sx div 4) + sx mod 4 \<le> 4 * (x div 4) + x mod 4"
    "4 * (x div 4) + x mod 4 < 4 * (sx div 4) + sx mod 4 + 320"
    using assms unfolding in_win_def by linarith+
  have "0 \<le> x div 4 - sx div 4 - ?d" "x div 4 - sx div 4 - ?d < 80"
    using le r by (cases "x mod 4 < sx mod 4"; simp; linarith)+
  moreover have "0 \<le> y - sy" "y - sy < 182" using assms by (auto simp: in_win_def)
  ultimately show thesis using that [of "x div 4 - sx div 4 - ?d" "y - sy"] by simp
qed

lemma place_unique:
  fixes a b c d e f r q :: int
  assumes "0 \<le> a" "a < 80" "0 \<le> b" "b < 182" "0 \<le> c" "c < 80" "0 \<le> d" "d < 182"
    and "r < q \<Longrightarrow> f \<le> e" and "q < r \<Longrightarrow> e \<le> f" and "r = q \<Longrightarrow> e = f"
    and eq: "a + 80 * b + e - 14560 * r = c + 80 * d + f - 14560 * q"
  shows "r = q \<and> a = c \<and> b = d"
proof -
  consider "r < q" | "q < r" | "r = q" by linarith
  then have "r = q"
  proof cases
    case 1 then show ?thesis using assms(1-8) assms(9) [OF 1] eq by linarith
  next
    case 2 then show ?thesis using assms(1-8) assms(10) [OF 2] eq by linarith
  qed
  then have e: "a + 80 * b = c + 80 * d" using assms(11) eq by simp
  consider "b < d" | "d < b" | "b = d" by linarith
  then have "b = d"
  proof cases
    case 1 then show ?thesis using e assms(1-8) by linarith
  next
    case 2 then show ?thesis using e assms(1-8) by linarith
  qed
  then show ?thesis using e \<open>r = q\<close> by simp
qed

lemma pixel_addr_inj:
  assumes "in_win sx sy x y" and "in_win sx sy u v" and eq: "pixel_addr img x y = pixel_addr img u v"
  shows "x = u \<and> y = v"
proof -
  obtain a b where ab: "0 \<le> a" "a < 80" "0 \<le> b" "b < 182" "y = sy + b"
      "x div 4 = sx div 4 + a + (if x mod 4 < sx mod 4 then 1 else 0)"
    using window_place [OF assms(1)] .
  obtain c d where cd: "0 \<le> c" "c < 80" "0 \<le> d" "d < 182" "v = sy + d"
      "u div 4 = sx div 4 + c + (if u mod 4 < sx mod 4 then 1 else 0)"
    using window_place [OF assms(2)] .
  let ?e = "(if x mod 4 < sx mod 4 then 1 else 0 :: int)" and ?f = "if u mod 4 < sx mod 4 then 1 else 0 :: int"
  have "a + 80 * b + ?e - 14560 * (x mod 4) = c + 80 * d + ?f - 14560 * (u mod 4)"
    using eq unfolding pixel_addr_def dims ab(5,6) cd(5,6) by (simp only: algebra_simps)
  then have "x mod 4 = u mod 4 \<and> a = c \<and> b = d"
    by (rule place_unique [OF ab(1-4) cd(1-4), rotated 3]) auto
  then have "x mod 4 = u mod 4" "x div 4 = u div 4" "y = v" using ab cd by auto
  then show ?thesis by (metis div_mult_mod_eq)
qed

lemma place_inside:
  fixes off p q r n y sy :: int
  assumes "0 \<le> off + p + sy * 80" "off + 3 * 14560 + n + (sy + 182 - 1) * 80 < 78241"
    and "p \<le> q" "q \<le> n" "sy \<le> y" "y < sy + 182" "0 \<le> r" "r < 4"
  shows "0 \<le> off + q + y * 80 + (3 - r) * 14560 \<and> off + q + y * 80 + (3 - r) * 14560 < 78241"
proof -
  have "0 \<le> (3 - r) * 14560" "(3 - r) * 14560 \<le> 3 * 14560" "y * 80 \<le> (sy + 182 - 1) * 80" "sy * 80 \<le> y * 80"
    using assms by auto
  then show ?thesis using assms(1-4) by auto
qed

lemma pixel_addr_inside:
  assumes "view_ok s" and "visible s x y"
  shows "MEM_FENCE_WIDTH \<le> pixel_addr (img3 s) x y" "pixel_addr (img3 s) x y < MEM_FENCE_WIDTH + BUILD_BUF_SIZE"
proof -
  have f: "0 \<le> img3_off s + show_x s div 4 + show_y s * 80"
    "img3_off s + 3 * 14560 + (show_x s + 320 - 1) div 4 + (show_y s + 182 - 1) * 80 < 78241" "img3 s = img3_off s + 256"
    using assms(1) unfolding view_ok_def view_fits_def dims by blast+
  have w: "show_x s \<le> x" "x \<le> show_x s + 320 - 1" "show_y s \<le> y" "y < show_y s + 182"
    using assms(2) by (simp_all add: in_win_def)
  have "0 \<le> img3_off s + x div 4 + y * 80 + (3 - x mod 4) * 14560
      \<and> img3_off s + x div 4 + y * 80 + (3 - x mod 4) * 14560 < 78241"
    by (rule place_inside [OF f(1,2) zdiv_mono1 [OF w(1)] zdiv_mono1 [OF w(2)] w(3,4)]) simp_all
  then show "MEM_FENCE_WIDTH \<le> pixel_addr (img3 s) x y"
    "pixel_addr (img3 s) x y < MEM_FENCE_WIDTH + BUILD_BUF_SIZE"
    unfolding pixel_addr_def dims f(3) by simp_all
qed

section \<open>Painting\<close>

text \<open>
  \<open>b'\<close> is \<open>b\<close> with the colours of the partial picture \<open>f\<close> put on the window, and nothing else
  changed.
\<close>

definition paints ::
    "int \<Rightarrow> int \<Rightarrow> int \<Rightarrow> (int \<Rightarrow> int \<Rightarrow> u8 option) \<Rightarrow> (int \<Rightarrow> u8) \<Rightarrow> (int \<Rightarrow> u8) \<Rightarrow> bool" where
  "paints img sx sy f b b' \<longleftrightarrow>
     (\<forall>x y. in_win sx sy x y \<longrightarrow>
        b' (pixel_addr img x y) = (case f x y of None \<Rightarrow> b (pixel_addr img x y) | Some c \<Rightarrow> c))
     \<and> (\<forall>a. (\<forall>x y. in_win sx sy x y \<longrightarrow> a \<noteq> pixel_addr img x y) \<longrightarrow> b' a = b a)"

lemma paints_none: "paints img sx sy (\<lambda>_ _. None) b b"
  by (simp add: paints_def)

lemma paints_point:
  "in_win sx sy x y \<Longrightarrow>
     paints img sx sy (\<lambda>u v. if u = x \<and> v = y then Some c else None) b (b(pixel_addr img x y := c))"
  using pixel_addr_inj by (fastforce simp: paints_def)

lemma paints_trans:
  assumes "paints img sx sy f b b1" and "paints img sx sy g b1 b2"
    and "\<And>x y. in_win sx sy x y \<Longrightarrow> h x y = (case g x y of None \<Rightarrow> f x y | Some c \<Rightarrow> Some c)"
  shows "paints img sx sy h b b2"
  using assms by (auto simp: paints_def split: option.splits)

lemma paints_cong:
  "paints img sx sy f b b' \<Longrightarrow> (\<And>x y. in_win sx sy x y \<Longrightarrow> f x y = g x y) \<Longrightarrow> paints img sx sy g b b'"
  by (simp add: paints_def)

text \<open>The rectangle \<open>n\<close> wide and \<open>m\<close> high at \<open>(x, y)\<close>, coloured by \<open>c\<close>.\<close>

definition rect :: "int \<Rightarrow> int \<Rightarrow> int \<Rightarrow> int \<Rightarrow> (int \<Rightarrow> int \<Rightarrow> u8) \<Rightarrow> int \<Rightarrow> int \<Rightarrow> u8 option" where
  "rect x y n m c u v = (if x \<le> u \<and> u < x + n \<and> y \<le> v \<and> v < y + m then Some (c u v) else None)"

lemma rect_alt:
  "rect x y n m c u v = (if (x \<le> u \<and> u < x + n) \<and> y \<le> v \<and> v < y + m then Some (c u v) else None)"
  by (simp add: rect_def)

lemma draw_row_paints:
  assumes "sx \<le> x" and "x + int n \<le> sx + 320" and "sy \<le> y" and "y < sy + 182"
  shows "paints img sx sy (rect x y (int n) 1 (\<lambda>u v. blk (i + (u - x)))) b (draw_row n img x y blk i b)"
  using assms
proof (induction n arbitrary: x i b)
  case 0
  show ?case by (simp, rule paints_cong [OF paints_none]) (auto simp: rect_def)
next
  case (Suc n)
  then have "in_win sx sy x y" by (simp add: in_win_def)
  note first = paints_point [OF this, of img "blk i" b]
  have "paints img sx sy (rect (x + 1) y (int n) 1 (\<lambda>u v. blk (i + 1 + (u - (x + 1)))))
          (b(pixel_addr img x y := blk i)) (draw_row (Suc n) img x y blk i b)"
    using Suc.IH [of "x + 1" "i + 1" "b(pixel_addr img x y := blk i)"] Suc.prems by (simp del: fun_upd_apply)
  then show ?case by (rule paints_trans [OF first]) (auto simp: rect_def algebra_simps)
qed

lemma draw_rows_paints:
  assumes "sx \<le> x" and "x + w \<le> sx + 320" and "sy \<le> y" and "y + int m \<le> sy + 182" and "0 \<le> w"
  shows "paints img sx sy (rect x y w (int m) (\<lambda>u v. blk (i + (v - y) * (w + l) + (u - x)))) b
           (draw_rows m w l img x y blk i b)"
  using assms
proof (induction m arbitrary: y i b)
  case 0
  show ?case by (simp, rule paints_cong [OF paints_none]) (auto simp: rect_def)
next
  case (Suc m)
  let ?b1 = "draw_row (nat w) img x y blk i b"
  have first: "paints img sx sy (rect x y w 1 (\<lambda>u v. blk (i + (u - x)))) b ?b1"
    using draw_row_paints [of sx x "nat w" sy y img blk i b] Suc.prems by simp
  have "paints img sx sy (rect x (y + 1) w (int m) (\<lambda>u v. blk (i + w + l + (v - (y + 1)) * (w + l) + (u - x))))
          ?b1 (draw_rows (Suc m) w l img x y blk i b)"
    using Suc.IH [of "y + 1" "i + w + l" ?b1] Suc.prems by simp
  then show ?case
  proof (rule paints_trans [OF first])
    fix u v
    show "rect x y w (int (Suc m)) (\<lambda>u v. blk (i + (v - y) * (w + l) + (u - x))) u v
      = (case rect x (y + 1) w (int m) (\<lambda>u v. blk (i + w + l + (v - (y + 1)) * (w + l) + (u - x))) u v of
           None \<Rightarrow> rect x y w 1 (\<lambda>u v. blk (i + (u - x))) u v | Some c \<Rightarrow> Some c)"
    proof (cases "v = y")
      case False
      have "i + (v - y) * (w + l) + (u - x) = i + w + l + (v - (y + 1)) * (w + l) + (u - x)"
        by (simp add: algebra_simps)
      then show ?thesis using False by (simp only: rect_def) auto
    qed (simp add: rect_def)
  qed
qed

text \<open>A block of 12 by 12 pixels, clipped to the window.\<close>

lemma clip_block_None:
  "clip_block s px py = None \<Longrightarrow> visible s u v \<Longrightarrow> rect px py 12 12 c u v = None"
  by (auto simp: clip_block_def rect_def in_win_def dims Let_def split: if_splits)

lemma clip_block_Some:
  assumes "clip_block s px py = Some (x, y, i, w, l, h)"
  shows "show_x s \<le> x" "x + w \<le> show_x s + 320" "show_y s \<le> y" "y + int (nat h) \<le> show_y s + 182" "0 \<le> w"
    and "visible s u v \<Longrightarrow> rect x y w (int (nat h)) (\<lambda>u v. blk (i + (v - y) * (w + l) + (u - x))) u v
           = rect px py 12 12 (\<lambda>u v. blk ((u - px) + (v - py) * 12)) u v"
    and "0 \<le> i" "i < 144"
proof -
  define xl where "xl = (if show_x s - px < 0 then 0 else show_x s - px)"
  define xr where "xr = (if show_x s + 320 - px > 12 then 12 else show_x s + 320 - px)"
  define yt where "yt = (if show_y s - py < 0 then 0 else show_y s - py)"
  define yb where "yb = (if show_y s + 182 - py > 12 then 12 else show_y s + 182 - py)"
  have r: "x = px + xl" "y = py + yt" "i = xl + yt * 12" "w = xr - xl" "l = 12 - (xr - xl)" "h = yb - yt"
    and on: "\<not> (px + 12 \<le> show_x s \<or> px \<ge> show_x s + 320 \<or> py + 12 \<le> show_y s \<or> py \<ge> show_y s + 182)"
    using assms by (auto simp: clip_block_def dims xl_def xr_def yt_def yb_def Let_def split: if_splits)
  show le: "show_x s \<le> x" "x + w \<le> show_x s + 320" "show_y s \<le> y" "y + int (nat h) \<le> show_y s + 182" "0 \<le> w"
    using on unfolding r by (auto simp: xl_def xr_def yt_def yb_def)
  have h: "0 \<le> h" using on unfolding r by (auto simp: yt_def yb_def)
  have "0 \<le> xl" "xl \<le> 11" "0 \<le> yt" "yt \<le> 11" using on by (auto simp: xl_def yt_def)
  then show "0 \<le> i" "i < 144" unfolding r by simp_all
  assume "visible s u v"
  then have "x \<le> u \<and> u < x + w \<longleftrightarrow> px \<le> u \<and> u < px + 12"
    "y \<le> v \<and> v < y + int (nat h) \<longleftrightarrow> py \<le> v \<and> v < py + 12"
    using h unfolding r by (auto simp: in_win_def xl_def xr_def yt_def yb_def)
  moreover have "i + (v - y) * (w + l) + (u - x) = (u - px) + (v - py) * 12"
    unfolding r by (simp add: algebra_simps)
  ultimately show "rect x y w (int (nat h)) (\<lambda>u v. blk (i + (v - y) * (w + l) + (u - x))) u v
      = rect px py 12 12 (\<lambda>u v. blk ((u - px) + (v - py) * 12)) u v"
    unfolding rect_alt by (simp only:)
qed

lemma draw_full_block_paints:
  "paints (img3 s) (show_x s) (show_y s) (rect px py 12 12 (\<lambda>u v. blk ((u - px) + (v - py) * 12)))
     (build s) (build (draw_full_block px py blk s))"
proof (cases "clip_block s px py")
  case None
  then show ?thesis
    by (simp add: draw_full_block_def, intro paints_cong [OF paints_none]) (simp add: clip_block_None)
next
  case (Some r)
  then obtain x y i w l h where c: "clip_block s px py = Some (x, y, i, w, l, h)" by (metis prod_cases6)
  have e: "build (draw_full_block px py blk s) = draw_rows (nat h) w l (img3 s) x y blk i (build s)"
    by (simp add: draw_full_block_def c)
  show ?thesis unfolding e
    by (rule paints_cong [OF draw_rows_paints [OF clip_block_Some(1-5) [OF c]] clip_block_Some(6) [OF c]])
qed

text \<open>The player: the pixels of the block that the mask leaves out stay as they are.\<close>

definition opaque :: "(int \<Rightarrow> int \<Rightarrow> u8 option) \<Rightarrow> int \<Rightarrow> int \<Rightarrow> u8 option" where
  "opaque f u v = (case f u v of None \<Rightarrow> None | Some c \<Rightarrow> if c = 0xAA then None else Some c)"

lemma refill_row_paints:
  assumes "sx \<le> x" and "x + int n \<le> sx + 320" and "sy \<le> y" and "y < sy + 182"
  shows "paints img sx sy (opaque (rect x y (int n) 1 (\<lambda>u v. blk (i + (u - x))))) (fst bs)
           (fst (refill_row n img x y blk i sb bs))"
  using assms
proof (induction n arbitrary: x i bs)
  case 0
  show ?case by (simp, rule paints_cong [OF paints_none]) (auto simp: rect_def opaque_def)
next
  case (Suc n)
  let ?p = "pixel_addr img x y" and ?f = "\<lambda>u v. if u = x \<and> v = y then Some (blk i) else None"
  let ?b1 = "if blk i \<noteq> 0xAA then ((fst bs)(?p := blk i), (snd bs)(sb := fst bs ?p)) else (fst bs, (snd bs)(sb := 0xAA))"
  have vis: "in_win sx sy x y" using Suc.prems by (simp add: in_win_def)
  have first: "paints img sx sy (opaque ?f) (fst bs) (fst ?b1)"
  proof (cases "blk i = 0xAA")
    case True
    then show ?thesis by (simp, intro paints_cong [OF paints_none]) (simp add: opaque_def)
  next
    case False
    then show ?thesis
      using paints_cong [OF paints_point [OF vis, of img "blk i" "fst bs"], of "opaque ?f"]
      by (simp add: opaque_def del: fun_upd_apply)
  qed
  have "paints img sx sy (opaque (rect (x + 1) y (int n) 1 (\<lambda>u v. blk (i + 1 + (u - (x + 1)))))) (fst ?b1)
      (fst (refill_row n img (x + 1) y blk (i + 1) sb ?b1))"
    by (rule Suc.IH) (use Suc.prems in simp_all)
  then show ?case unfolding refill_row.simps
    by (rule paints_trans [OF first]) (auto simp: rect_def opaque_def algebra_simps)
qed

lemma refill_rows_paints:
  assumes "sx \<le> x" and "x + w \<le> sx + 320" and "sy \<le> y" and "y + int m \<le> sy + 182" and "0 \<le> w"
  shows "paints img sx sy (opaque (rect x y w (int m) (\<lambda>u v. blk (i + (v - y) * (w + l) + (u - x))))) (fst bs)
           (fst (refill_rows m w l img x y blk i sb bs))"
  using assms
proof (induction m arbitrary: y i bs)
  case 0
  show ?case by (simp, rule paints_cong [OF paints_none]) (auto simp: rect_def opaque_def)
next
  case (Suc m)
  let ?b1 = "refill_row (nat w) img x y blk i sb bs"
  have first: "paints img sx sy (opaque (rect x y w 1 (\<lambda>u v. blk (i + (u - x))))) (fst bs) (fst ?b1)"
    using refill_row_paints [of sx x "nat w" sy y img blk i bs sb] Suc.prems by simp
  have "paints img sx sy (opaque (rect x (y + 1) w (int m) (\<lambda>u v. blk (i + w + l + (v - (y + 1)) * (w + l) + (u - x)))))
          (fst ?b1) (fst (refill_rows m w l img x (y + 1) blk (i + w + l) sb ?b1))"
    by (rule Suc.IH) (use Suc.prems in simp_all)
  then show ?case unfolding refill_rows.simps
  proof (rule paints_trans [OF first])
    fix u v
    show "opaque (rect x y w (int (Suc m)) (\<lambda>u v. blk (i + (v - y) * (w + l) + (u - x)))) u v
      = (case opaque (rect x (y + 1) w (int m) (\<lambda>u v. blk (i + w + l + (v - (y + 1)) * (w + l) + (u - x)))) u v of
           None \<Rightarrow> opaque (rect x y w 1 (\<lambda>u v. blk (i + (u - x)))) u v | Some c \<Rightarrow> Some c)"
    proof (cases "v = y")
      case False
      have "i + (v - y) * (w + l) + (u - x) = i + w + l + (v - (y + 1)) * (w + l) + (u - x)"
        by (simp add: algebra_simps)
      then show ?thesis using False by (simp only: rect_def opaque_def) auto
    qed (simp add: rect_def opaque_def)
  qed
qed

lemma refill_row_saves: "a \<noteq> sb \<Longrightarrow> snd (refill_row n img x y blk i sb bs) a = snd bs a"
  by (induction n img x y blk i sb bs rule: refill_row.induct) auto

lemma refill_rows_saves: "a \<noteq> sb \<Longrightarrow> snd (refill_rows n w l img x y blk i sb bs) a = snd bs a"
  by (induction n w l img x y blk i sb bs rule: refill_rows.induct) (auto simp: refill_row_saves)

lemma draw_refill_block_paints:
  "paints (img3 s) (show_x s) (show_y s)
     (opaque (rect px py 12 12 (\<lambda>u v. masked_block msk panel ((u - px) + (v - py) * 12))))
     (build s) (build (draw_refill_block px py msk panel s))"
proof (cases "clip_block s px py")
  case None
  then show ?thesis
    by (simp add: draw_refill_block_def, intro paints_cong [OF paints_none]) (simp add: clip_block_None opaque_def)
next
  case (Some r)
  then obtain x y i w l h where c: "clip_block s px py = Some (x, y, i, w, l, h)" by (metis prod_cases6)
  have e: "build (draw_refill_block px py msk panel s)
      = fst (refill_rows (nat h) w l (img3 s) x y (masked_block msk panel) i i (build s, savebuff s))"
    by (simp add: draw_refill_block_def c case_prod_beta)
  show ?thesis unfolding e
  proof (rule paints_cong)
    show "paints (img3 s) (show_x s) (show_y s)
        (opaque (rect x y w (int (nat h)) (\<lambda>u v. masked_block msk panel (i + (v - y) * (w + l) + (u - x)))))
        (build s) (fst (refill_rows (nat h) w l (img3 s) x y (masked_block msk panel) i i (build s, savebuff s)))"
      using refill_rows_paints [OF clip_block_Some(1-5) [OF c], of "img3 s" "masked_block msk panel" i l "(build s, savebuff s)" i]
      by simp
  qed (simp only: opaque_def clip_block_Some(6) [OF c])
qed

subsection \<open>Lines\<close>

lemma vert_pixels_paints:
  assumes "sx \<le> x" and "x < sx + 320" and "sy \<le> y" and "y + int n \<le> sy + 182"
  shows "paints img sx sy (rect x y 1 (int n) (\<lambda>u v. buf (i + (v - y)))) b
           (vert_pixels n (img + x div 4 + y * 80) (3 - x mod 4) buf i b)"
  using assms
proof (induction n arbitrary: y i b)
  case 0
  show ?case by (simp, rule paints_cong [OF paints_none]) (auto simp: rect_def)
next
  case (Suc n)
  let ?p = "pixel_addr img x y"
  have "in_win sx sy x y" using Suc.prems by (simp add: in_win_def)
  note first = paints_point [OF this, of img "buf i" b]
  have "img + x div 4 + y * 80 + (3 - x mod 4) * SCROLL_SIZE = ?p" by (simp add: pixel_addr_def dims)
  moreover have "img + x div 4 + y * 80 + IMAGE_X_WIDTH = img + x div 4 + (y + 1) * 80" by (simp add: dims)
  ultimately have step: "vert_pixels (Suc n) (img + x div 4 + y * 80) (3 - x mod 4) buf i b
      = vert_pixels n (img + x div 4 + (y + 1) * 80) (3 - x mod 4) buf (i + 1) (b(?p := buf i))"
    by (simp only: vert_pixels.simps)
  have "paints img sx sy (rect x (y + 1) 1 (int n) (\<lambda>u v. buf (i + 1 + (v - (y + 1))))) (b(?p := buf i))
      (vert_pixels n (img + x div 4 + (y + 1) * 80) (3 - x mod 4) buf (i + 1) (b(?p := buf i)))"
    by (rule Suc.IH) (use Suc.prems in simp_all)
  then show ?case unfolding step by (rule paints_trans [OF first]) (auto simp: rect_def algebra_simps)
qed

lemma next_column: 
  fixes x :: int
  shows "x mod 4 = 3 \<Longrightarrow> (x + 1) div 4 = x div 4 + 1 \<and> (x + 1) mod 4 = 0"
    and "x mod 4 \<noteq> 3 \<Longrightarrow> (x + 1) div 4 = x div 4 \<and> (x + 1) mod 4 = x mod 4 + 1"
  by presburger+

lemma horiz_pixels_paints:
  assumes "sx \<le> x" and "x + int n \<le> sx + 320" and "sy \<le> y" and "y < sy + 182"
  shows "paints img sx sy (rect x y (int n) 1 (\<lambda>u v. buf (i + (u - x)))) b
           (horiz_pixels n (img + x div 4 + y * 80) (3 - x mod 4) buf i b)"
  using assms
proof (induction n arbitrary: x i b)
  case 0
  show ?case by (simp, rule paints_cong [OF paints_none]) (auto simp: rect_def)
next
  case (Suc n)
  let ?p = "pixel_addr img x y"
  have "in_win sx sy x y" using Suc.prems by (simp add: in_win_def)
  note first = paints_point [OF this, of img "buf i" b]
  have p: "img + x div 4 + y * 80 + (3 - x mod 4) * SCROLL_SIZE = ?p" by (simp add: pixel_addr_def dims)
  have step: "horiz_pixels (Suc n) (img + x div 4 + y * 80) (3 - x mod 4) buf i b
      = horiz_pixels n (img + (x + 1) div 4 + y * 80) (3 - (x + 1) mod 4) buf (i + 1) (b(?p := buf i))"
  proof (cases "x mod 4 = 3")
    case True
    have "img + x div 4 + y * 80 + 1 = img + (x + 1) div 4 + y * 80" using next_column(1) [OF True] by simp
    moreover have "3 - x mod 4 - 1 < 0" "3 - (x + 1) mod 4 = 3" using True next_column(1) [OF True] by simp_all
    ultimately show ?thesis by (simp only: horiz_pixels.simps Let_def p if_True)
  next
    case False
    moreover have "x mod 4 < 4" by simp
    ultimately have "\<not> 3 - x mod 4 - 1 < 0" by linarith
    moreover have "3 - (x + 1) mod 4 = 3 - x mod 4 - 1" using next_column(2) [OF False] by simp
    moreover have "(x + 1) div 4 = x div 4" using next_column(2) [OF False] by simp
    ultimately show ?thesis by (simp only: horiz_pixels.simps Let_def p if_False)
  qed
  have "paints img sx sy (rect (x + 1) y (int n) 1 (\<lambda>u v. buf (i + 1 + (u - (x + 1))))) (b(?p := buf i))
      (horiz_pixels n (img + (x + 1) div 4 + y * 80) (3 - (x + 1) mod 4) buf (i + 1) (b(?p := buf i)))"
    by (rule Suc.IH) (use Suc.prems in simp_all)
  then show ?case unfolding step by (rule paints_trans [OF first]) (auto simp: rect_def algebra_simps)
qed

lemma draw_vert_line_paints:
  assumes "0 \<le> x" and "x < 320"
  shows "fst (draw_vert_line fill x s) = 0"
    and "paints (img3 s) (show_x s) (show_y s)
      (rect (x + show_x s) (show_y s) 1 182 (\<lambda>u v. fill (x + show_x s) (show_y s) (v - show_y s)))
      (build s) (build (snd (draw_vert_line fill x s)))"
  using assms vert_pixels_paints [of "show_x s" "x + show_x s" "show_y s" "show_y s" 182 "img3 s" _ 0 "build s"]
  by (simp_all add: draw_vert_line_def dims Let_def)

lemma draw_horiz_line_paints:
  assumes "0 \<le> y" and "y < 182"
  shows "fst (draw_horiz_line fill y s) = 0"
    and "paints (img3 s) (show_x s) (show_y s)
      (rect (show_x s) (y + show_y s) 320 1 (\<lambda>u v. fill (show_x s) (y + show_y s) (u - show_x s)))
      (build s) (build (snd (draw_horiz_line fill y s)))"
  using assms horiz_pixels_paints [of "show_x s" "show_x s" 320 "show_y s" "y + show_y s" "img3 s" _ 0 "build s"]
  by (simp_all add: draw_horiz_line_def dims Let_def)

section \<open>Moving the window\<close>

lemma copy_down_apply:
  "s < t \<Longrightarrow> copy_down t s n b a = (if t \<le> a \<and> a < t + int n then b (s + (a - t)) else b a)"
proof (induction n arbitrary: b)
  case 0
  then show ?case by (auto simp: copy_down_def)
next
  case (Suc n)
  have "copy_down t s (Suc n) b = copy_down t s n (b(t + int n := b (s + int n)))"
    by (simp add: copy_down_def)
  then show ?case using Suc by (auto simp: algebra_simps)
qed

lemma copy_up_apply:
  "t \<le> s \<Longrightarrow> copy_up t s n b a = (if t \<le> a \<and> a < t + int n then b (s + (a - t)) else b a)"
proof (induction n arbitrary: a)
  case 0
  then show ?case by (auto simp: copy_up_def)
next
  case (Suc n)
  have "copy_up t s (Suc n) b = (copy_up t s n b)(t + int n := copy_up t s n b (s + int n))"
    by (simp add: copy_up_def)
  then show ?case using Suc by (auto simp: algebra_simps)
qed

lemma window_copy:
  "(if s < t then copy_down t s n else copy_up t s n) b a
     = (if t \<le> a \<and> a < t + int n then b (s + (a - t)) else b a)"
  using copy_down_apply [of s t n b a] copy_up_apply [of t s n b a] by (cases "s < t") simp_all

lemma window_copy_in:
  "0 \<le> i \<Longrightarrow> i < int n \<Longrightarrow> (if s < t then copy_down t s n else copy_up t s n) b (t + i) = b (s + i)"
  unfolding window_copy by simp

lemma window_copy_out:
  "a < t \<or> t + int n \<le> a \<Longrightarrow> (if s < t then copy_down t s n else copy_up t s n) b a = b a"
  unfolding window_copy by auto

text \<open>The three ways \<open>set_view_window\<close> can go.\<close>

lemma set_view_window_cases:
  obtains
    (fits) "view_fits (img3_off s) x y" "set_view_window x y s = s\<lparr>show_x := x, show_y := y\<rparr>"
  | (apart) "x \<le> show_x s - 320 \<or> x \<ge> show_x s + 320 \<or> y \<le> show_y s - 182 \<or> y \<ge> show_y s + 182"
      "set_view_window x y s = s\<lparr>show_x := x, show_y := y, img3_off := 10000 - x div 4 - y * 80,
         img3 := 10000 - x div 4 - y * 80 + 256\<rparr>"
  | (overlap) start len where
      "start = max x (show_x s) div 4 + max y (show_y s) * 80"
      "len = (min x (show_x s) + 319) div 4 + (min y (show_y s) + 181) * 80 + 1 - start + 43680"
      "show_x s - 320 < x" "x < show_x s + 320" "show_y s - 182 < y" "y < show_y s + 182"
      "set_view_window x y s = s\<lparr>show_x := x, show_y := y, img3_off := 10000 - x div 4 - y * 80,
         img3 := 10000 - x div 4 - y * 80 + 256,
         build := (if img3 s + start < 10000 - x div 4 - y * 80 + 256 + start
                   then copy_down (10000 - x div 4 - y * 80 + 256 + start) (img3 s + start) (nat len)
                   else copy_up (10000 - x div 4 - y * 80 + 256 + start) (img3 s + start) (nat len)) (build s)\<rparr>"
proof (cases "view_fits (img3_off s) x y")
  case True
  show thesis by (rule fits [OF True]) (simp add: set_view_window_def Let_def True)
next
  case False
  show thesis
  proof (cases "x \<le> show_x s - 320 \<or> x \<ge> show_x s + 320 \<or> y \<le> show_y s - 182 \<or> y \<ge> show_y s + 182")
    case True
    show thesis using False True by (intro apart [OF True]) (simp add: set_view_window_def Let_def dims)
  next
    case ov: False
    have m: "(if x > show_x s then (x, show_x s) else (show_x s, x)) = (max x (show_x s), min x (show_x s))"
      "(if y > show_y s then (y, show_y s) else (show_y s, y)) = (max y (show_y s), min y (show_y s))"
      by auto
    show thesis
      by (rule overlap [OF refl refl]) (use False ov in \<open>simp_all add: set_view_window_def Let_def dims m algebra_simps\<close>)
  qed
qed

lemma base_fits: "view_fits (10000 - x div 4 - y * 80) x y"
proof -
  have "(x + 320 - 1) div 4 \<le> x div 4 + 80" by presburger
  then show ?thesis by (simp add: view_fits_def dims)
qed

lemma set_view_window_ok [simp]:
  "show_x (set_view_window x y s) = x" "show_y (set_view_window x y s) = y"
  "view_ok s \<Longrightarrow> view_ok (set_view_window x y s)"
proof -
  have "show_x (set_view_window x y s) = x \<and> show_y (set_view_window x y s) = y
      \<and> (view_ok s \<longrightarrow> view_ok (set_view_window x y s))"
  proof (cases rule: set_view_window_cases [of s x y])
    case fits
    then show ?thesis by (simp add: view_ok_def)
  next
    case apart
    show ?thesis unfolding apart(2) by (simp add: view_ok_def base_fits MEM_FENCE_WIDTH_def)
  next
    case overlap
    show ?thesis unfolding overlap(7) by (simp add: view_ok_def base_fits MEM_FENCE_WIDTH_def)
  qed
  then show "show_x (set_view_window x y s) = x" "show_y (set_view_window x y s) = y"
    "view_ok s \<Longrightarrow> view_ok (set_view_window x y s)" by blast+
qed

lemma sum_mono_int:
  fixes a b c :: int
  shows "a \<le> a' \<Longrightarrow> b \<le> b' \<Longrightarrow> 0 \<le> c \<Longrightarrow> 0 \<le> a' + b' + c - (a + b)"
    and "a \<le> a' \<Longrightarrow> b \<le> b' \<Longrightarrow> c \<le> c' \<Longrightarrow> a + b + c - d < a' + b' + 1 - d + c'"
  by simp_all

text \<open>The run of bytes that is moved covers every pixel in both windows, and stays in the buffer.\<close>

lemma overlap_covers:
  fixes x0 x u y0 y v r :: int
  assumes "x0 \<le> u" "u < x0 + 320" "y0 \<le> v" "v < y0 + 182" "x \<le> u" "u < x + 320" "y \<le> v" "v < y + 182"
  shows "0 \<le> u div 4 + v * 80 + (3 - u mod 4) * 14560 - (max x x0 div 4 + max y y0 * 80)"
    and "u div 4 + v * 80 + (3 - u mod 4) * 14560 - (max x x0 div 4 + max y y0 * 80)
      < (min x x0 + 319) div 4 + (min y y0 + 181) * 80 + 1 - (max x x0 div 4 + max y y0 * 80) + 43680"
proof -
  have d: "max x x0 div 4 \<le> u div 4" "u div 4 \<le> (min x x0 + 319) div 4"
    using assms by (simp_all add: zdiv_mono1)
  have y: "max y y0 * 80 \<le> v * 80" "v * 80 \<le> (min y y0 + 181) * 80" using assms by auto
  have "0 \<le> u mod 4" "u mod 4 < 4" by simp_all
  then have r: "0 \<le> (3 - u mod 4) * 14560" "(3 - u mod 4) * 14560 \<le> 43680" by simp_all
  show "0 \<le> u div 4 + v * 80 + (3 - u mod 4) * 14560 - (max x x0 div 4 + max y y0 * 80)"
    by (rule sum_mono_int(1) [OF d(1) y(1) r(1)])
  show "u div 4 + v * 80 + (3 - u mod 4) * 14560 - (max x x0 div 4 + max y y0 * 80)
      < (min x x0 + 319) div 4 + (min y y0 + 181) * 80 + 1 - (max x x0 div 4 + max y y0 * 80) + 43680"
    by (rule sum_mono_int(2) [OF d(2) y(2) r(2)])
qed

lemma set_view_window_keeps:
  assumes "visible s u v" and "visible (set_view_window x y s) u v"
  shows "pixel (set_view_window x y s) u v = pixel s u v"
proof (cases rule: set_view_window_cases [of s x y])
  case fits
  then show ?thesis by (simp add: pixel_def)
next
  case apart
  then show ?thesis using assms by (auto simp: in_win_def)
next
  case (overlap start len)
  let ?t = "10000 - x div 4 - y * 80 + 256 + start" and ?i = "u div 4 + v * 80 + (3 - u mod 4) * 14560 - start"
  have "0 \<le> ?i" "?i < len"
    unfolding overlap(1,2) using assms by (intro overlap_covers; simp add: in_win_def)+
  then have "0 \<le> ?i" "?i < int (nat len)" by simp_all
  note c = window_copy_in [OF this, of "img3 s + start" ?t "build s"]
  have "pixel_addr (10000 - x div 4 - y * 80 + 256) u v = ?t + ?i" "pixel_addr (img3 s) u v = img3 s + start + ?i"
    by (simp_all add: pixel_addr_def dims)
  then show ?thesis using c unfolding pixel_def overlap(7) by (simp del: nat_le_iff)
qed

lemma set_view_window_inside:
  assumes "a < MEM_FENCE_WIDTH \<or> MEM_FENCE_WIDTH + BUILD_BUF_SIZE \<le> a"
  shows "build (set_view_window x y s) a = build s a"
proof (cases rule: set_view_window_cases [of s x y])
  case (overlap start len)
  let ?t = "10000 - x div 4 - y * 80 + 256 + start"
  have "x div 4 \<le> max x (show_x s) div 4" "y * 80 \<le> max y (show_y s) * 80" by (simp_all add: zdiv_mono1)
  note le1 = this
  have lo: "256 \<le> ?t" unfolding overlap(1) using sum_mono_int(1) [OF le1, of 10000] by simp
  have "(min x (show_x s) + 319) div 4 \<le> (x + 319) div 4" "(min y (show_y s) + 181) * 80 \<le> (y + 181) * 80"
    by (simp_all add: zdiv_mono1)
  note le2 = this
  have "(x + 319) div 4 \<le> x div 4 + 80" by presburger
  then have "(min x (show_x s) + 319) div 4 \<le> x div 4 + 80" using le2(1) by (rule order.trans [rotated])
  then have "?t + len \<le> 78497" unfolding overlap(2) using le2(2) by (simp add: algebra_simps)
  then have "a < ?t \<or> ?t + int (nat len) \<le> a" using lo assms by (auto simp: dims)
  then show ?thesis using window_copy_out [of a ?t "nat len" "img3 s + start" "build s"] unfolding overlap(7) by simp
qed simp_all

section \<open>Showing the window\<close>

lemma plane_bit: "i < 4 \<Longrightarrow> p < 4 \<Longrightarrow> bit (2 ^ (i + 8) :: u16) (p + 8) \<longleftrightarrow> p = i"
  by (auto simp: bit_exp_iff possible_bit_word)

lemma write_mask_plane: "i < 4 \<Longrightarrow> write_mask (SET_WRITE_MASK (push_bit (i + 8) 1) s) = {i}"
  by (auto simp: SET_WRITE_MASK_def plane_bit)

lemma SET_WRITE_MASK_same [simp]:
  "vga (SET_WRITE_MASK m s) = vga s" "build (SET_WRITE_MASK m s) = build s"
  by (simp_all add: SET_WRITE_MASK_def)

lemma show_plane_vga:
  "i < 4 \<Longrightarrow> target_img s = 0x4000 \<Longrightarrow>
     vga (show_plane addr p_off i s) p a =
       (if p = i \<and> 16384 \<le> a \<and> a < 30944
        then build s (addr + (p_off - int i + 4) mod 4 * 14560 + (if p_off < int i then 1 else 0) + (a - 16384))
        else vga s p a)"
  by (simp add: show_plane_def copy_image_def copy_to_video_def write_mask_plane dims del: push_bit_of_1)

lemma show_plane_same [simp]:
  "build (show_plane addr p_off i s) = build s" "target_img (show_plane addr p_off i s) = target_img s"
  "show_x (show_plane addr p_off i s) = show_x s" "show_y (show_plane addr p_off i s) = show_y s"
  "img3 (show_plane addr p_off i s) = img3 s" "img3_off (show_plane addr p_off i s) = img3_off s"
  by (simp_all add: show_plane_def copy_image_def copy_to_video_def SET_WRITE_MASK_def)

lemma upt_4: "[0..<4] = [0, 1, 2, 3 :: nat]"
  by (simp add: upt_rec)

lemma show_screen_vga:
  assumes "p < 4"
  shows "vga (show_screen s) p a =
    (if 16384 \<le> a \<and> a < 30944
     then build s (img3 s + show_x s div 4 + show_y s * 80 + (3 - show_x s mod 4 - int p + 4) mod 4 * 14560
            + (if 3 - show_x s mod 4 < int p then 1 else 0) + (a - 16384))
     else vga s p a)"
proof -
  have "p = 0 \<or> p = 1 \<or> p = 2 \<or> p = 3" using assms by linarith
  then show ?thesis
    unfolding show_screen_def upt_4 Let_def
    by (elim disjE) (simp_all add: show_plane_vga dims)
qed

text \<open>Pixel \<open>(i, j)\<close> of the screen is in plane \<open>i mod 4\<close>, at byte \<open>80 j + i div 4\<close> of the image.\<close>

lemma plane_of_pixel:
  fixes sx :: int and i :: nat
  shows "3 - (sx + int i) mod 4 = (3 - sx mod 4 - int (i mod 4) + 4) mod 4"
    and "(sx + int i) div 4 = sx div 4 + int (i div 4) + (if 3 - sx mod 4 < int (i mod 4) then 1 else 0)"
proof -
  define R where "R = sx mod 4"
  define Q where "Q = sx div 4"
  define p where "p = int (i mod 4)"
  define q where "q = int (i div 4)"
  have i: "int i = 4 * q + p" unfolding q_def p_def by (metis int_ops(7) mult.commute mult_div_mod_eq of_nat_add of_nat_numeral)
  have sx: "sx = 4 * Q + R" unfolding Q_def R_def by simp
  have b: "0 \<le> R" "R < 4" "0 \<le> p" "p < 4" unfolding R_def p_def by auto
  have d: "(sx + int i) mod 4 = (if R + p \<ge> 4 then R + p - 4 else R + p)"
    "(sx + int i) div 4 = Q + q + (if R + p \<ge> 4 then 1 else 0)"
    using b unfolding i sx by presburger+
  have "(3 - R - p + 4) mod 4 = (if R + p \<ge> 4 then 3 - (R + p - 4) else 3 - (R + p))"
    using b by presburger
  then show "3 - (sx + int i) mod 4 = (3 - sx mod 4 - int (i mod 4) + 4) mod 4"
    unfolding R_def [symmetric] p_def [symmetric] d(1) by simp
  show "(sx + int i) div 4 = sx div 4 + int (i div 4) + (if 3 - sx mod 4 < int (i mod 4) then 1 else 0)"
    unfolding R_def [symmetric] p_def [symmetric] q_def [symmetric] Q_def [symmetric] d(2) by auto
qed

lemma show_screen_pixel:
  assumes "i < 320" and "j < 182"
  shows "vga (show_screen s) (i mod 4) (16384 + 80 * int j + int (i div 4)) = pixel s (show_x s + int i) (show_y s + int j)"
proof -
  have b: "16384 \<le> 16384 + 80 * int j + int (i div 4)" "16384 + 80 * int j + int (i div 4) < 30944"
    using assms by auto
  have "pixel_addr (img3 s) (show_x s + int i) (show_y s + int j)
      = img3 s + show_x s div 4 + show_y s * 80 + (3 - show_x s mod 4 - int (i mod 4) + 4) mod 4 * 14560
        + (if 3 - show_x s mod 4 < int (i mod 4) then 1 else 0) + (16384 + 80 * int j + int (i div 4) - 16384)"
    unfolding pixel_addr_def dims plane_of_pixel by (simp add: algebra_simps)
  then show ?thesis using show_screen_vga [of "i mod 4" s] b by (simp add: pixel_def)
qed

section \<open>The interface for scrolling\<close>

text \<open>
  A surface with a window that can be moved and lines that can be redrawn; what the client
  sees are the colours of the visible pixels.
\<close>

locale panning =
  fixes ok :: "'s \<Rightarrow> bool" and org_x org_y :: "'s \<Rightarrow> int" and pix :: "'s \<Rightarrow> int \<Rightarrow> int \<Rightarrow> 'c"
    and move :: "int \<Rightarrow> int \<Rightarrow> 's \<Rightarrow> 's" and vline hline :: "(int \<Rightarrow> int \<Rightarrow> 'c) \<Rightarrow> int \<Rightarrow> 's \<Rightarrow> 's"
  assumes move_ok: "ok s \<Longrightarrow> ok (move x y s)"
    and move_org: "org_x (move x y s) = x" "org_y (move x y s) = y"
    and move_keeps: "in_win (org_x s) (org_y s) u v \<Longrightarrow> in_win x y u v \<Longrightarrow> pix (move x y s) u v = pix s u v"
    and line_ok: "ok s \<Longrightarrow> ok (vline f i s)" "ok s \<Longrightarrow> ok (hline f i s)"
    and line_org: "org_x (vline f i s) = org_x s" "org_y (vline f i s) = org_y s"
      "org_x (hline f i s) = org_x s" "org_y (hline f i s) = org_y s"
    and vline_pix: "ok s \<Longrightarrow> 0 \<le> i \<Longrightarrow> i < 320 \<Longrightarrow> in_win (org_x s) (org_y s) u v \<Longrightarrow>
        pix (vline f i s) u v = (if u = org_x s + i then f u v else pix s u v)"
    and hline_pix: "ok s \<Longrightarrow> 0 \<le> i \<Longrightarrow> i < 182 \<Longrightarrow> in_win (org_x s) (org_y s) u v \<Longrightarrow>
        pix (hline f i s) u v = (if v = org_y s + i then f u v else pix s u v)"
begin

text \<open>One pixel to each side: moving the window and redrawing the new line shows the same picture.\<close>

lemma pan_x:
  assumes "ok s" and "\<And>u v. in_win (org_x s) (org_y s) u v \<Longrightarrow> pix s u v = f u v"
    and "d = 1 \<and> i = 319 \<or> d = -1 \<and> i = 0"
    and vis: "in_win (org_x s + d) (org_y s) u v"
  shows "pix (vline f i (move (org_x s + d) (org_y s) s)) u v = f u v"
proof (cases "u = org_x s + d + i")
  case True
  then show ?thesis using assms move_ok by (auto simp: vline_pix move_org)
next
  case False
  then have "in_win (org_x s) (org_y s) u v" using assms(3) vis by (auto simp: in_win_def)
  then show ?thesis using False assms move_ok by (auto simp: vline_pix move_org move_keeps)
qed

lemma pan_y:
  assumes "ok s" and "\<And>u v. in_win (org_x s) (org_y s) u v \<Longrightarrow> pix s u v = f u v"
    and "d = 1 \<and> i = 181 \<or> d = -1 \<and> i = 0"
    and vis: "in_win (org_x s) (org_y s + d) u v"
  shows "pix (hline f i (move (org_x s) (org_y s + d) s)) u v = f u v"
proof (cases "v = org_y s + d + i")
  case True
  then show ?thesis using assms move_ok by (auto simp: hline_pix move_org)
next
  case False
  then have "in_win (org_x s) (org_y s) u v" using assms(3) vis by (auto simp: in_win_def)
  then show ?thesis using False assms move_ok by (auto simp: hline_pix move_org move_keeps)
qed

text \<open>Drawing the rows from the top shows the whole picture.\<close>

lemma rows_ok:
  "ok s \<Longrightarrow> ok (fold (\<lambda>i. hline f (int i)) is s)
     \<and> org_x (fold (\<lambda>i. hline f (int i)) is s) = org_x s \<and> org_y (fold (\<lambda>i. hline f (int i)) is s) = org_y s"
  by (induction "is" arbitrary: s) (simp_all add: line_ok line_org)

lemma rows_pix:
  "ok s \<Longrightarrow> n \<le> 182 \<Longrightarrow> in_win (org_x s) (org_y s) u v \<Longrightarrow>
     pix (fold (\<lambda>i. hline f (int i)) [0..<n] s) u v = (if v < org_y s + int n then f u v else pix s u v)"
proof (induction n)
  case (Suc n)
  let ?s = "fold (\<lambda>i. hline f (int i)) [0..<n] s"
  have "pix (hline f (int n) ?s) u v = (if v = org_y s + int n then f u v else pix ?s u v)"
    using rows_ok [OF Suc.prems(1), of f "[0..<n]"] Suc.prems by (subst hline_pix) auto
  then show ?case using Suc by auto
qed (simp add: in_win_def)

lemma redraw:
  "ok s \<Longrightarrow> in_win (org_x s) (org_y s) u v \<Longrightarrow> pix (fold (\<lambda>i. hline f (int i)) [0..<182] s) u v = f u v"
  by (subst rows_pix) (auto simp: in_win_def)

end

text \<open>The display provides it.  A line is filled with the picture's colours along it.\<close>

definition column :: "(int \<Rightarrow> int \<Rightarrow> u8) \<Rightarrow> int \<Rightarrow> modex \<Rightarrow> modex" where
  "column f i s = snd (draw_vert_line (\<lambda>x y k. f x (y + k)) i s)"

definition row :: "(int \<Rightarrow> int \<Rightarrow> u8) \<Rightarrow> int \<Rightarrow> modex \<Rightarrow> modex" where
  "row f i s = snd (draw_horiz_line (\<lambda>x y k. f (x + k) y) i s)"

lemma line_same [simp]:
  "show_x (snd (draw_vert_line f i s)) = show_x s" "show_y (snd (draw_vert_line f i s)) = show_y s"
  "img3 (snd (draw_vert_line f i s)) = img3 s" "img3_off (snd (draw_vert_line f i s)) = img3_off s"
  "show_x (snd (draw_horiz_line f i s)) = show_x s" "show_y (snd (draw_horiz_line f i s)) = show_y s"
  "img3 (snd (draw_horiz_line f i s)) = img3 s" "img3_off (snd (draw_horiz_line f i s)) = img3_off s"
  by (simp_all add: draw_vert_line_def draw_horiz_line_def Let_def)

lemma paints_pixel:
  "paints img sx sy f b b' \<Longrightarrow> in_win sx sy u v \<Longrightarrow>
     b' (pixel_addr img u v) = (case f u v of None \<Rightarrow> b (pixel_addr img u v) | Some c \<Rightarrow> c)"
  by (simp add: paints_def)

interpretation pan: panning view_ok show_x show_y pixel set_view_window column row
proof
  show "view_ok s \<Longrightarrow> view_ok (set_view_window x y s)" for s x y by simp
  show "show_x (set_view_window x y s) = x" "show_y (set_view_window x y s) = y" for x y s by simp_all
  show "visible s u v \<Longrightarrow> in_win x y u v \<Longrightarrow> pixel (set_view_window x y s) u v = pixel s u v" for s x y u v
    using set_view_window_keeps [of s u v x y] by simp
  show "view_ok s \<Longrightarrow> view_ok (column f i s)" "view_ok s \<Longrightarrow> view_ok (row f i s)"
    "show_x (column f i s) = show_x s" "show_y (column f i s) = show_y s"
    "show_x (row f i s) = show_x s" "show_y (row f i s) = show_y s" for s f i
    by (simp_all add: column_def row_def view_ok_def)
  show "pixel (column f i s) u v = (if u = show_x s + i then f u v else pixel s u v)"
    if "0 \<le> i" "i < 320" "visible s u v" for s f i u v
    using paints_pixel [OF draw_vert_line_paints(2) [OF that(1,2)] that(3)] that(3)
    by (auto simp: pixel_def column_def rect_def in_win_def add.commute)
  show "pixel (row f i s) u v = (if v = show_y s + i then f u v else pixel s u v)"
    if "0 \<le> i" "i < 182" "visible s u v" for s f i u v
    using paints_pixel [OF draw_horiz_line_paints(2) [OF that(1,2)] that(3)] that(3)
    by (auto simp: pixel_def row_def rect_def in_win_def add.commute)
qed

end
