(* ===== verification/Vga.thy ===== *)
theory Vga
  imports Modex_Spec "HOL-Library.Signed_Division"
begin

text \<open>
  The register programming of the VGA, \<^verbatim>\<open>mp2/modex.c\<close>: the register tables, the palettes, and
  entering and leaving mode X.  What the program writes is the list of its port accesses; the
  bytes it stores through \<open>mem_image\<close> while the VGA is in text mode are the function \<open>text_mem\<close>.
  Whether the operating system grants the ports and maps the memory is a parameter, and so are the
  value read back from the sequencer and the font.
\<close>

section \<open>Register tables\<close>

definition mode_X_seq :: "u16 list" where
  "mode_X_seq =
    [0x0100, 0x2101, 0x0F02, 0x0003, 0x0604]"

definition mode_X_CRTC :: "u16 list" where
  "mode_X_CRTC =
    [0x5F00, 0x4F01, 0x5002, 0x8203, 0x5404, 0x8005, 0xBF06, 0x1F07, 0x0008, 0x0109, 0x000A, 0x000B,
     0x000C, 0x000D, 0x000E, 0x000F, 0x9C10, 0x8E11, 0x8F12, 0x2813, 0x0014, 0x9615, 0xB916, 0xE317,
     0x6B18]"

definition mode_X_graphics :: "u16 list" where
  "mode_X_graphics =
    [0x0000, 0x0001, 0x0002, 0x0003, 0x0004, 0x4005, 0x0506, 0x0F07, 0xFF08]"

definition text_seq :: "u16 list" where
  "text_seq =
    [0x0100, 0x2001, 0x0302, 0x0003, 0x0204]"

definition text_CRTC :: "u16 list" where
  "text_CRTC =
    [0x5F00, 0x4F01, 0x5002, 0x8203, 0x5504, 0x8105, 0xBF06, 0x1F07, 0x0008, 0x4F09, 0x0D0A, 0x0E0B,
     0x000C, 0x000D, 0x000E, 0x000F, 0x9C10, 0x8E11, 0x8F12, 0x2813, 0x1F14, 0x9615, 0xB916, 0xA317,
     0xFF18]"

definition text_graphics :: "u16 list" where
  "text_graphics =
    [0x0000, 0x0001, 0x0002, 0x0003, 0x0004, 0x1005, 0x0E06, 0x0007, 0xFF08]"

definition mode_X_attr :: "u8 list" where
  "mode_X_attr =
    [0x00, 0x00, 0x01, 0x01, 0x02, 0x02, 0x03, 0x03, 0x04, 0x04, 0x05, 0x05, 0x06, 0x06, 0x07, 0x07,
     0x08, 0x08, 0x09, 0x09, 0x0A, 0x0A, 0x0B, 0x0B, 0x0C, 0x0C, 0x0D, 0x0D, 0x0E, 0x0E, 0x0F, 0x0F,
     0x10, 0x41, 0x11, 0x00, 0x12, 0x0F, 0x13, 0x00, 0x14, 0x00, 0x15, 0x00]"

definition text_attr :: "u8 list" where
  "text_attr =
    [0x00, 0x00, 0x01, 0x01, 0x02, 0x02, 0x03, 0x03, 0x04, 0x04, 0x05, 0x05, 0x06, 0x06, 0x07, 0x07,
     0x08, 0x08, 0x09, 0x09, 0x0A, 0x0A, 0x0B, 0x0B, 0x0C, 0x0C, 0x0D, 0x0D, 0x0E, 0x0E, 0x0F, 0x0F,
     0x10, 0x0C, 0x11, 0x00, 0x12, 0x0F, 0x13, 0x08, 0x14, 0x00, 0x15, 0x00]"

definition level_palette :: "u8 list list" where
  "level_palette =
    [[0x00, 0x00, 0x00], [0x00, 0x00, 0x2A], [0x00, 0x2A, 0x00], [0x00, 0x2A, 0x2A], [0x2A, 0x00, 0x00], [0x2A, 0x00, 0x2A],
     [0x2A, 0x15, 0x00], [0x2A, 0x2A, 0x2A], [0x15, 0x15, 0x15], [0x15, 0x15, 0x3F], [0x15, 0x3F, 0x15], [0x15, 0x3F, 0x3F],
     [0x3F, 0x15, 0x15], [0x3F, 0x15, 0x3F], [0x3F, 0x3F, 0x15], [0x3F, 0x3F, 0x3F], [0x00, 0x00, 0x00], [0x05, 0x05, 0x05],
     [0x08, 0x08, 0x08], [0x0B, 0x0B, 0x0B], [0x0E, 0x0E, 0x0E], [0x11, 0x11, 0x11], [0x14, 0x14, 0x14], [0x18, 0x18, 0x18],
     [0x1C, 0x1C, 0x1C], [0x20, 0x20, 0x20], [0x24, 0x24, 0x24], [0x28, 0x28, 0x28], [0x2D, 0x2D, 0x2D], [0x32, 0x32, 0x32],
     [0x38, 0x38, 0x38], [0x3F, 0x3F, 0x3F], [0x00, 0x00, 0x00], [0x3F, 0x3F, 0x3F], [0x00, 0x00, 0x00], [0x00, 0x00, 0x00],
     [0x00, 0x00, 0x00], [0x00, 0x00, 0x00], [0x00, 0x00, 0x00], [0x00, 0x00, 0x00], [0x00, 0x00, 0x00], [0x00, 0x00, 0x00],
     [0x00, 0x00, 0x00], [0x00, 0x00, 0x00], [0x00, 0x00, 0x00], [0x00, 0x00, 0x00], [0x00, 0x00, 0x00], [0x00, 0x00, 0x00],
     [0x10, 0x08, 0x00], [0x18, 0x0C, 0x00], [0x20, 0x10, 0x00], [0x28, 0x14, 0x00], [0x30, 0x18, 0x00], [0x38, 0x1C, 0x00],
     [0x3F, 0x20, 0x00], [0x3F, 0x20, 0x10], [0x20, 0x18, 0x10], [0x28, 0x1C, 0x10], [0x3F, 0x20, 0x10], [0x38, 0x24, 0x10],
     [0x3F, 0x28, 0x10], [0x3F, 0x2C, 0x10], [0x3F, 0x30, 0x10], [0x3F, 0x20, 0x10]]"

definition default_palette :: "u8 list list" where
  "default_palette =
    [[0x00, 0x00, 0x00], [0x00, 0x00, 0x2A], [0x00, 0x2A, 0x00], [0x00, 0x2A, 0x2A], [0x2A, 0x00, 0x00], [0x2A, 0x00, 0x2A],
     [0x2A, 0x15, 0x00], [0x2A, 0x2A, 0x2A], [0x15, 0x15, 0x15], [0x15, 0x15, 0x3F], [0x15, 0x3F, 0x15], [0x15, 0x3F, 0x3F],
     [0x3F, 0x15, 0x15], [0x3F, 0x15, 0x3F], [0x3F, 0x3F, 0x15], [0x3F, 0x3F, 0x3F], [0x00, 0x00, 0x00], [0x05, 0x05, 0x05],
     [0x08, 0x08, 0x08], [0x0B, 0x0B, 0x0B], [0x0E, 0x0E, 0x0E], [0x11, 0x11, 0x11], [0x14, 0x14, 0x14], [0x18, 0x18, 0x18],
     [0x1C, 0x1C, 0x1C], [0x20, 0x20, 0x20], [0x24, 0x24, 0x24], [0x28, 0x28, 0x28], [0x2D, 0x2D, 0x2D], [0x32, 0x32, 0x32],
     [0x38, 0x38, 0x38], [0x3F, 0x3F, 0x3F], [0x3F, 0x3F, 0x3F], [0x3F, 0x3F, 0x3F], [0x00, 0x00, 0x3F], [0x00, 0x00, 0x00],
     [0x00, 0x00, 0x00], [0x00, 0x00, 0x00], [0x00, 0x00, 0x00], [0x00, 0x00, 0x00], [0x00, 0x00, 0x00], [0x00, 0x00, 0x00],
     [0x00, 0x00, 0x00], [0x00, 0x00, 0x00], [0x00, 0x00, 0x00], [0x00, 0x00, 0x00], [0x00, 0x00, 0x00], [0x00, 0x00, 0x00],
     [0x10, 0x08, 0x00], [0x18, 0x0C, 0x00], [0x20, 0x10, 0x00], [0x28, 0x14, 0x00], [0x30, 0x18, 0x00], [0x38, 0x1C, 0x00],
     [0x3F, 0x20, 0x00], [0x3F, 0x20, 0x10], [0x20, 0x18, 0x10], [0x28, 0x1C, 0x10], [0x3F, 0x20, 0x10], [0x38, 0x24, 0x10],
     [0x3F, 0x28, 0x10], [0x3F, 0x2C, 0x10], [0x3F, 0x30, 0x10], [0x3F, 0x20, 0x10]]"

section \<open>Ports\<close>

definition REP_OUTSW :: "u16 \<Rightarrow> u16 list \<Rightarrow> vga_event list" where
  "REP_OUTSW port source = map (Vga_outw port) source"

definition REP_OUTSB :: "u16 \<Rightarrow> u8 list \<Rightarrow> vga_event list" where
  "REP_OUTSB port source = map (Vga_outb port) source"

definition VGA_blank :: "u8 \<Rightarrow> u8 \<Rightarrow> vga_event list" where
  "VGA_blank blank_bit old =
     [Vga_outb 0x03C4 0x01, Vga_inb 0x03C5,
      Vga_outb 0x03C5 ((old AND 0xDF) OR push_bit 5 (blank_bit AND 1)),
      Vga_inb 0x03DA, Vga_outb 0x03C0 0x20]"

definition set_seq_regs_and_reset :: "u16 list \<Rightarrow> u8 \<Rightarrow> vga_event list" where
  "set_seq_regs_and_reset tab val =
     REP_OUTSW 0x03C4 tab @ [Vga_outb 0x03C2 val, Vga_outw 0x03C4 0x0300]"

definition set_CRTC_registers :: "u16 list \<Rightarrow> vga_event list" where
  "set_CRTC_registers tab = Vga_outw 0x03D4 0x0011 # REP_OUTSW 0x03D4 tab"

definition set_attr_registers :: "u8 list \<Rightarrow> vga_event list" where
  "set_attr_registers tab = Vga_inb 0x03DA # REP_OUTSB 0x03C0 tab"

definition set_graphics_registers :: "u16 list \<Rightarrow> vga_event list" where
  "set_graphics_registers tab = REP_OUTSW 0x03CE tab"

definition fill_palette :: "vga_event list" where
  "fill_palette = Vga_outb 0x03C8 0x00 # REP_OUTSB 0x03C9 (concat default_palette)"

text \<open>The colours of the player, by time, and of the wall fill, by level; C division truncates.\<close>

definition player_color :: "int \<Rightarrow> u8 list" where
  "player_color ticks =
     (let c = (ticks sdiv 8) smod 4
      in if c = 0 then [0x00, 0x00, 0x3F] else if c = 1 then [0x3F, 0x00, 0x00]
         else if c = 2 then [0x00, 0x3F, 0x00] else if c = 3 then [0x3F, 0x3F, 0x00] else [0x00, 0x00, 0x00])"

definition wall_color :: "int \<Rightarrow> u8 list" where
  "wall_color lvl =
     (let c = lvl smod 4
      in if c = 0 then [0x3F, 0x00, 0x00] else if c = 1 then [0x00, 0x3F, 0x00]
         else if c = 2 then [0x00, 0x00, 0x3F] else if c = 3 then [0x3F, 0x00, 0x3F] else [0x00, 0x00, 0x00])"

definition set_palette :: "int \<Rightarrow> int \<Rightarrow> vga_event list" where
  "set_palette lvl ticks =
     Vga_outb 0x03C8 0x00
       # REP_OUTSB 0x03C9 (concat (level_palette[32 := player_color ticks, 34 := wall_color lvl]))"

definition out_vga :: "vga_event list \<Rightarrow> modex \<Rightarrow> modex" where
  "out_vga es s = s\<lparr>vga_ports := vga_ports s @ es\<rparr>"

section \<open>Entering and leaving mode X\<close>

definition open_memory_and_ports :: "bool \<Rightarrow> bool \<Rightarrow> bool \<Rightarrow> int" where
  "open_memory_and_ports ioperm_ok open_ok mmap_ok =
     (if \<not> ioperm_ok then -1 else if \<not> open_ok then -1 else if \<not> mmap_ok then -1 else 0)"

text \<open>The loop that sets up the memory fence.\<close>

definition fence_init :: "(int \<Rightarrow> u8) \<Rightarrow> int \<Rightarrow> u8" where
  "fence_init b = fold (\<lambda>i b. b(int i := MEM_FENCE_MAGIC, BUILD_BUF_SIZE + MEM_FENCE_WIDTH + int i := MEM_FENCE_MAGIC))
     [0..<nat MEM_FENCE_WIDTH] b"

type_synonym line_fill = "int \<Rightarrow> int \<Rightarrow> int \<Rightarrow> u8"

definition set_mode_X :: "line_fill option \<Rightarrow> line_fill option \<Rightarrow> int \<Rightarrow> u8 \<Rightarrow> u8 \<Rightarrow> modex \<Rightarrow> int \<times> modex" where
  "set_mode_X horiz_fill_fn vert_fill_fn opened old1 old2 s =
     (if horiz_fill_fn = None \<or> vert_fill_fn = None then (-1, s)
      else (let s1 = s\<lparr>show_x := 0, show_y := 0, img3_off := BUILD_BASE_INIT,
                       img3 := BUILD_BASE_INIT + MEM_FENCE_WIDTH, build := fence_init (build s), target_img := 0x05A0\<rparr>
            in if opened = -1 then (-1, s1)
               else (let s2 = out_vga (VGA_blank 1 old1 @ set_seq_regs_and_reset mode_X_seq 0x63
                                @ set_CRTC_registers mode_X_CRTC @ set_attr_registers mode_X_attr
                                @ set_graphics_registers mode_X_graphics @ fill_palette) s1
                     in (0, out_vga (VGA_blank 0 old2) (clear_screens s2)))))"

text \<open>Text mode: the ports, and what is stored through \<open>mem_image\<close>.\<close>

definition font_ports_before :: "vga_event list" where
  "font_ports_before = [Vga_outw 0x3C4 0x0402, Vga_outw 0x3C4 0x0704, Vga_outw 0x3CE 0x0005,
     Vga_outw 0x3CE 0x0406, Vga_outw 0x3CE 0x0204]"

definition font_ports_after :: "vga_event list" where
  "font_ports_after = [Vga_outw 0x3C4 0x0302, Vga_outw 0x3C4 0x0304, Vga_outw 0x3CE 0x1005,
     Vga_outw 0x3CE 0x0E06, Vga_outw 0x3CE 0x0004]"

definition write_font_data :: "(nat \<Rightarrow> nat \<Rightarrow> u8) \<Rightarrow> (int \<Rightarrow> u8) \<Rightarrow> int \<Rightarrow> u8" where
  "write_font_data font_data m =
     fold (\<lambda>i m. fold (\<lambda>j m. m(32 * int i + int j := font_data i j)) [0..<16] m) [0..<256] m"

text \<open>The word \<open>0x07200720\<close>, lowest byte first, is a grey blank in two cells.\<close>

definition clear_text :: "(int \<Rightarrow> u8) \<Rightarrow> int \<Rightarrow> u8" where
  "clear_text m =
     fold (\<lambda>i m. m(0x18000 + 4 * int i := 0x20, 0x18000 + 4 * int i + 1 := 0x07,
                   0x18000 + 4 * int i + 2 := 0x20, 0x18000 + 4 * int i + 3 := 0x07)) [0..<8192] m"

definition set_text_mode_3 ::
    "(nat \<Rightarrow> nat \<Rightarrow> u8) \<Rightarrow> bool \<Rightarrow> u8 \<Rightarrow> u8 \<Rightarrow> modex \<times> (int \<Rightarrow> u8) \<Rightarrow> modex \<times> (int \<Rightarrow> u8)" where
  "set_text_mode_3 font_data clear_scr old1 old2 sm =
     (let (s, m) = sm;
          s1 = out_vga (VGA_blank 1 old1 @ set_seq_regs_and_reset text_seq 0x67 @ set_CRTC_registers text_CRTC
                 @ set_attr_registers text_attr @ set_graphics_registers text_graphics @ fill_palette) s;
          m1 = (if clear_scr then clear_text m else m)
      in (out_vga (font_ports_before @ font_ports_after @ VGA_blank 0 old2) s1, write_font_data font_data m1))"

text \<open>The fence report of \<open>clear_mode_X\<close>: one message per side, at the first broken byte.\<close>

fun fence_broken :: "nat \<Rightarrow> int \<Rightarrow> (int \<Rightarrow> u8) \<Rightarrow> bool" where
  "fence_broken 0 i b = False"
| "fence_broken (Suc n) i b = (if b i \<noteq> MEM_FENCE_MAGIC then True else fence_broken n (i + 1) b)"

definition clear_mode_X ::
    "(nat \<Rightarrow> nat \<Rightarrow> u8) \<Rightarrow> u8 \<Rightarrow> u8 \<Rightarrow> modex \<times> (int \<Rightarrow> u8) \<Rightarrow> string list \<times> modex \<times> (int \<Rightarrow> u8)" where
  "clear_mode_X font_data old1 old2 sm =
     (let (s, m) = set_text_mode_3 font_data True old1 old2 sm
      in ((if fence_broken (nat MEM_FENCE_WIDTH) 0 (build s) then [''lower build fence was broken''] else [])
            @ (if fence_broken (nat MEM_FENCE_WIDTH) (BUILD_BUF_SIZE + MEM_FENCE_WIDTH) (build s)
               then [''upper build fence was broken''] else []),
          s, m))"

end
