(* ===== verification/Status.thy ===== *)
theory Status
  imports Vga
begin

text \<open>
  The status bar: \<^verbatim>\<open>mp2/text.c\<close>, which draws a string into \<open>drawbuf\<close> with the VGA font, and
  \<open>show_status\<close> of \<^verbatim>\<open>mp2/modex.c\<close>, which composes the string, splits the picture into the four
  planes and copies them to the top of video memory.  The font is a parameter (a table of
  16 rows per character); \<open>None\<close> is the result where the C code leaves its arrays.
\<close>

section \<open>Text to pixels\<close>

definition WIDTH_PIX :: nat where "WIDTH_PIX = 320"
definition HEIGHT_PIX :: nat where "HEIGHT_PIX = 18"

definition on_color :: u8 where "on_color = 0x0F"

definition status_colors :: "u8 list" where
  "status_colors = [0x00, 0x01, 0x02, 0x03, 0x04, 0x05, 0x06, 0x07, 0x08, 0x09]"

definition bitmask :: "u8 list" where
  "bitmask = [0x80, 0x40, 0x20, 0x10, 0x08, 0x04, 0x02, 0x01]"

definition changecolor :: "int \<Rightarrow> u8 option" where
  "changecolor lvl = (if 1 \<le> lvl \<and> lvl \<le> 10 then Some (status_colors ! nat (lvl - 1)) else None)"

text \<open>One character cell, the two inner loops of \<open>_convasc\<close>.\<close>

definition put_glyph :: "(nat \<Rightarrow> nat \<Rightarrow> u8) \<Rightarrow> u8 \<Rightarrow> nat \<Rightarrow> nat \<Rightarrow> (nat \<Rightarrow> nat \<Rightarrow> u8) \<Rightarrow> nat \<Rightarrow> nat \<Rightarrow> u8" where
  "put_glyph font_data off c i buff = (\<lambda>j x.
     if 1 \<le> j \<and> j < HEIGHT_PIX - 1 \<and> i \<le> x \<and> x < i + 8
     then (if font_data c (j - 1) AND bitmask ! (x - i) = bitmask ! (x - i) then on_color else off)
     else buff j x)"

fun convasc :: "(nat \<Rightarrow> nat \<Rightarrow> u8) \<Rightarrow> u8 \<Rightarrow> nat list \<Rightarrow> nat \<Rightarrow> (nat \<Rightarrow> nat \<Rightarrow> u8) \<Rightarrow> nat \<Rightarrow> nat \<Rightarrow> u8" where
  "convasc font_data off [] i buff = buff"
| "convasc font_data off (c # cs) i buff = convasc font_data off cs (i + 8) (put_glyph font_data off c i buff)"

definition clear_columns :: "u8 \<Rightarrow> nat \<Rightarrow> nat \<Rightarrow> (nat \<Rightarrow> nat \<Rightarrow> u8) \<Rightarrow> nat \<Rightarrow> nat \<Rightarrow> u8" where
  "clear_columns off a b buff = (\<lambda>j x. if j < HEIGHT_PIX \<and> a \<le> x \<and> x < b then off else buff j x)"

definition strbuff ::
    "(nat \<Rightarrow> nat \<Rightarrow> u8) \<Rightarrow> string \<Rightarrow> (nat \<Rightarrow> nat \<Rightarrow> u8) \<Rightarrow> int \<Rightarrow> (u8 \<times> (nat \<Rightarrow> nat \<Rightarrow> u8)) option" where
  "strbuff font_data input buff lvl =
     (case changecolor lvl of
        None \<Rightarrow> None
      | Some off \<Rightarrow>
          (let len = length input
           in if len > 40 then None
              else (let gap = 8 * (40 - len) div 2;
                        b1 = (\<lambda>j x. if (j = 0 \<or> j = HEIGHT_PIX - 1) \<and> x < WIDTH_PIX then off else buff j x);
                        b2 = clear_columns off 0 gap b1;
                        b3 = convasc font_data off (map of_char input) gap b2
                    in Some (off, clear_columns off (gap + len * 8) WIDTH_PIX b3))))"

section \<open>The status line\<close>

text \<open>\<open>sprintf\<close> with \<open>%d\<close> and \<open>%02d\<close>.\<close>

fun digits :: "nat \<Rightarrow> string" where
  "digits n = (if n < 10 then [char_of (48 + n)] else digits (n div 10) @ [char_of (48 + n mod 10)])"

declare digits.simps [simp del]

definition sprintf_d :: "int \<Rightarrow> string" where
  "sprintf_d n = (if n < 0 then CHR ''-'' # digits (nat (- n)) else digits (nat n))"

definition sprintf_02d :: "int \<Rightarrow> string" where
  "sprintf_02d n =
     (let s = digits (nat \<bar>n\<bar>)
      in if n < 0 then CHR ''-'' # s else if length s < 2 then CHR ''0'' # s else s)"

text \<open>
  The pieces of the line with the sizes of the arrays they are written into: a piece with its
  NUL must fit, or the write runs past its array.
\<close>

definition status_text :: "int \<Rightarrow> int \<Rightarrow> int \<Rightarrow> string option" where
  "status_text lvl tick froot =
     (let separ = ''    '';
          tot_sec = tick sdiv 32; minutes = tot_sec sdiv 60; rem_sec = tot_sec smod 60;
          fruti = (if froot = 1 then '' fruit'' else '' fruits'');
          levlen = (if lvl < 10 then 2 else 3); frootilen = (if froot < 10 then 2 else 3 :: nat);
          level = sprintf_d lvl; frooti = sprintf_d froot;
          tiempo = sprintf_02d minutes @ CHR '':'' # sprintf_02d rem_sec;
          wordlength = 6 + levlen + 2 * length separ + length fruti + frootilen + 6;
          words = ''Level '' @ level @ separ @ frooti @ fruti @ separ @ tiempo
      in if length level < levlen \<and> length frooti < frootilen \<and> length tiempo < 6 \<and> length words < wordlength
         then Some words else None)"

text \<open>The bytes the splitting loop appends to plane \<open>p\<close>, row by row.\<close>

definition plane_bytes :: "nat \<Rightarrow> (nat \<Rightarrow> nat \<Rightarrow> u8) \<Rightarrow> u8 list" where
  "plane_bytes p buff = concat (map (\<lambda>j. map (buff j) (filter (\<lambda>i. i mod 4 = p) [0..<320])) [0..<18])"

definition show_bar :: "(nat \<Rightarrow> nat \<Rightarrow> u8) \<Rightarrow> nat \<Rightarrow> modex \<Rightarrow> modex" where
  "show_bar buff p s =
     copy_bar (\<lambda>a. plane_bytes p buff ! nat a) 0 (SET_WRITE_MASK (push_bit (p + 8) 1) s)"

definition show_status ::
    "(nat \<Rightarrow> nat \<Rightarrow> u8) \<Rightarrow> int \<Rightarrow> int \<Rightarrow> int \<Rightarrow> modex \<Rightarrow> modex option" where
  "show_status font_data lvl tick froot s =
     (case status_text lvl tick froot of
        None \<Rightarrow> None
      | Some words \<Rightarrow>
          (case strbuff font_data words (drawbuf s) lvl of
             None \<Rightarrow> None
           | Some (off, buff) \<Rightarrow>
               Some (fold (show_bar buff) [0..<4]
                      (out_vga (set_palette lvl tick) (s\<lparr>off_color := off, drawbuf := buff\<rparr>)))))"

section \<open>What is in the picture\<close>

lemma bitmask_nth: "k < 8 \<Longrightarrow> bitmask ! k = 2 ^ (7 - k)"
proof -
  assume "k < 8"
  then have "k = 0 \<or> k = 1 \<or> k = 2 \<or> k = 3 \<or> k = 4 \<or> k = 5 \<or> k = 6 \<or> k = 7" by linarith
  then show ?thesis by (elim disjE) (simp_all add: bitmask_def)
qed

lemma and_bitmask: "k < 8 \<Longrightarrow> (w AND bitmask ! k = bitmask ! k) \<longleftrightarrow> bit (w :: u8) (7 - k)"
proof -
  assume k: "k < 8"
  have "(w AND 2 ^ n = 2 ^ n) \<longleftrightarrow> bit w n" if "n < 8" for n
  proof
    assume "w AND 2 ^ n = 2 ^ n"
    then have "bit (w AND 2 ^ n) n = bit (2 ^ n :: u8) n" by simp
    then show "bit w n" using that by (simp add: bit_and_iff bit_exp_iff possible_bit_word)
  next
    assume "bit w n"
    then show "w AND 2 ^ n = 2 ^ n" by (intro bit_eqI) (auto simp: bit_and_iff bit_exp_iff)
  qed
  then show ?thesis using k by (simp add: bitmask_nth)
qed

text \<open>The picture of a string: its glyphs side by side from column \<open>i\<close> on.\<close>

lemma convasc_apply:
  "convasc font_data off cs i buff j x =
     (if 1 \<le> j \<and> j < 17 \<and> i \<le> x \<and> x < i + 8 * length cs
      then (if bit (font_data (cs ! ((x - i) div 8)) (j - 1)) (7 - (x - i) mod 8) then on_color else off)
      else buff j x)"
proof (induction cs arbitrary: i buff)
  case Nil
  then show ?case by auto
next
  case (Cons c cs)
  show ?case
  proof (cases "1 \<le> j \<and> j < 17 \<and> i \<le> x \<and> x < i + 8 * length (c # cs)")
    case True
    show ?thesis
    proof (cases "x < i + 8")
      case less: True
      then have "(x - i) div 8 = 0" "(x - i) mod 8 = x - i" by simp_all
      then show ?thesis using True less
        by (simp add: Cons.IH put_glyph_def HEIGHT_PIX_def and_bitmask)
    next
      case False
      define m where "m = x - (i + 8)"
      have x: "x - i = 8 + m" "x - (i + 8) = m" using True False by (simp_all add: m_def)
      have d: "(8 + m) div 8 = Suc (m div 8)" "(8 + m) mod 8 = m mod 8" by simp_all
      have "i + 8 \<le> x" "x < i + 8 + 8 * length cs" using True False by simp_all
      then show ?thesis using True unfolding convasc.simps Cons.IH x d by (simp del: div_add_self1)
    qed
  next
    case False
    then show ?thesis by (auto simp: Cons.IH put_glyph_def HEIGHT_PIX_def)
  qed
qed

lemma filter_plane:
  "p < 4 \<Longrightarrow> filter (\<lambda>i. i mod 4 = p) [0..<4 * n] = map (\<lambda>q. 4 * q + p) [0..<n]"
proof (induction n)
  case (Suc n)
  have "[0..<4 * Suc n] = [0..<4 * n] @ [4 * n, 4 * n + 1, 4 * n + 2, 4 * n + 3]"
  proof -
    have "[a..<a + 4] = [a, a + 1, a + 2, a + 3]" for a :: nat by (simp add: upt_rec)
    moreover have "4 * Suc n = 4 * n + 4" by simp
    ultimately show ?thesis using upt_add_eq_append [of 0 "4 * n" 4] by (simp only: le0 add_0)
  qed
  moreover have "p = 0 \<or> p = 1 \<or> p = 2 \<or> p = 3" using Suc.prems by linarith
  moreover have "Suc (Suc (4 * n)) mod 4 = 2" by presburger
  ultimately show ?case using Suc by (elim disjE) simp_all
qed simp

lemma nth_concat_rows:
  "k < w \<Longrightarrow> j < h \<Longrightarrow> (\<And>i. i < h \<Longrightarrow> length (f i) = w) \<Longrightarrow> concat (map f [0..<h]) ! (j * w + k) = f j ! k"
proof (induction h)
  case (Suc h)
  have len: "length (concat (map f [0..<n])) = n * w" if "n \<le> h" for n
    using that Suc.prems(3) by (induction n) simp_all
  show ?case
  proof (cases "j = h")
    case True
    then show ?thesis using len [of h] Suc.prems by (simp add: nth_append)
  next
    case False
    then have "j < h" using Suc.prems by simp
    moreover have "j * w + k < h * w"
    proof -
      have "j * w + k < Suc j * w" using Suc.prems by simp
      also have "\<dots> \<le> h * w" using \<open>j < h\<close> by (intro mult_right_mono) simp_all
      finally show ?thesis .
    qed
    ultimately show ?thesis using len [of h] Suc by (simp add: nth_append)
  qed
qed simp

lemma plane_bytes_nth:
  assumes "p < 4" and "j < 18" and "q < 80"
  shows "plane_bytes p buff ! (j * 80 + q) = buff j (4 * q + p)"
proof -
  have "filter (\<lambda>i. i mod 4 = p) [0..<320] = map (\<lambda>q. 4 * q + p) [0..<80]"
    using filter_plane [OF assms(1), of 80] by simp
  then show ?thesis
    unfolding plane_bytes_def using assms
    by (subst nth_concat_rows) simp_all
qed

end
