(* ===== verification/Display_Spec.thy ===== *)
theory Display_Spec
  imports Status
begin

text \<open>
  The promises of the display as a whole: from \<open>set_mode_X\<close> on the build buffer is never left
  and its fences stay whole, what is drawn is what is shown, and the status bar shows its line.
\<close>

section \<open>The build buffer\<close>

lemma fence_init_apply:
  "fold (\<lambda>i b. b(int i := c, off + int i := c)) [0..<n] b a
     = (if (0 \<le> a \<and> a < int n) \<or> (off \<le> a \<and> a < off + int n) then c else b a)"
proof (induction n)
  case 0
  then show ?case by auto
next
  case (Suc n)
  have "(0 \<le> a \<and> a < int (Suc n)) = ((0 \<le> a \<and> a < int n) \<or> a = int n)"
    "(off \<le> a \<and> a < off + int (Suc n)) = ((off \<le> a \<and> a < off + int n) \<or> a = off + int n)" by auto
  then show ?case using Suc by auto
qed

definition fence_ok :: "(int \<Rightarrow> u8) \<Rightarrow> bool" where
  "fence_ok b \<longleftrightarrow> (\<forall>i. 0 \<le> i \<and> i < 256 \<longrightarrow> b i = MEM_FENCE_MAGIC \<and> b (78497 + i) = MEM_FENCE_MAGIC)"

lemma fence_broken_iff: "fence_broken n i b \<longleftrightarrow> (\<exists>j. i \<le> j \<and> j < i + int n \<and> b j \<noteq> MEM_FENCE_MAGIC)"
proof (induction n arbitrary: i)
  case (Suc n)
  have "(\<exists>j. i \<le> j \<and> j < i + int (Suc n) \<and> b j \<noteq> MEM_FENCE_MAGIC)
      \<longleftrightarrow> b i \<noteq> MEM_FENCE_MAGIC \<or> (\<exists>j. i + 1 \<le> j \<and> j < i + 1 + int n \<and> b j \<noteq> MEM_FENCE_MAGIC)" (is "?l \<longleftrightarrow> ?r")
  proof
    assume ?l
    then obtain j where j: "i \<le> j" "j < i + int (Suc n)" "b j \<noteq> MEM_FENCE_MAGIC" by blast
    then show ?r by (cases "j = i") (auto intro!: exI [of _ j])
  next
    assume ?r
    then consider "b i \<noteq> MEM_FENCE_MAGIC"
      | j where "i + 1 \<le> j" "j < i + 1 + int n" "b j \<noteq> MEM_FENCE_MAGIC" by blast
    then show ?l
    proof cases
      case 1
      then show ?thesis by (intro exI [of _ i]) simp
    next
      case (2 j)
      then show ?thesis by (intro exI [of _ j]) simp
    qed
  qed
  then show ?case using Suc by simp
qed simp

lemma paints_fence:
  assumes "paints (img3 s) (show_x s) (show_y s) f (build s) b'" and "view_ok s" and "fence_ok (build s)"
  shows "fence_ok b'"
proof -
  have "b' a = build s a" if "a < 256 \<or> 78497 \<le> a" for a
  proof -
    have "a \<noteq> pixel_addr (img3 s) x y" if "visible s x y" for x y
      using pixel_addr_inside [OF assms(2) that] \<open>a < 256 \<or> 78497 \<le> a\<close> by (auto simp: dims)
    then show ?thesis using assms(1) by (simp add: paints_def)
  qed
  then show ?thesis using assms(3) by (auto simp: fence_ok_def)
qed

inductive display :: "modex \<Rightarrow> bool" where
  start: "set_mode_X (Some horiz) (Some vert) 0 old1 old2 s0 = (0, s) \<Longrightarrow> display s"
| view: "display s \<Longrightarrow> display (set_view_window x y s)"
| vline: "display s \<Longrightarrow> display (snd (draw_vert_line fill x s))"
| hline: "display s \<Longrightarrow> display (snd (draw_horiz_line fill y s))"
| block: "display s \<Longrightarrow> display (draw_full_block px py blk s)"
| player: "display s \<Longrightarrow> display (draw_refill_block px py msk blk s)"
| shown: "display s \<Longrightarrow> display (show_screen s)"
| status: "display s \<Longrightarrow> show_status font lvl tick froot s = Some s' \<Longrightarrow> display s'"
| cleared: "display s \<Longrightarrow> display (clear_screens s)"

lemma out_vga_same [simp]:
  "build (out_vga es s) = build s" "img3 (out_vga es s) = img3 s" "img3_off (out_vga es s) = img3_off s"
  "show_x (out_vga es s) = show_x s" "show_y (out_vga es s) = show_y s" "vga (out_vga es s) = vga s"
  "drawbuf (out_vga es s) = drawbuf s"
  by (simp_all add: out_vga_def)

lemma video_same [simp]:
  "build (copy_to_video n f a s) = build s" "img3 (copy_to_video n f a s) = img3 s"
  "img3_off (copy_to_video n f a s) = img3_off s" "show_x (copy_to_video n f a s) = show_x s"
  "show_y (copy_to_video n f a s) = show_y s"
  "img3 (SET_WRITE_MASK m s) = img3 s" "img3_off (SET_WRITE_MASK m s) = img3_off s"
  "show_x (SET_WRITE_MASK m s) = show_x s" "show_y (SET_WRITE_MASK m s) = show_y s"
  by (simp_all add: copy_to_video_def SET_WRITE_MASK_def)

text \<open>The parts of the state that the window and the buffer depend on.\<close>

definition place :: "modex \<Rightarrow> (int \<Rightarrow> u8) \<times> int \<times> int \<times> int \<times> int" where
  "place s = (build s, img3 s, img3_off s, show_x s, show_y s)"

lemma place_simps [simp]:
  "place (show_screen s) = place s" "place (clear_screens s) = place s" "place (out_vga es s) = place s"
  "place (show_bar buff p s) = place s"
  by (simp_all add: place_def show_screen_def upt_4 Let_def clear_screens_def show_bar_def copy_bar_def)

lemma place_status: "show_status font lvl tick froot s = Some s' \<Longrightarrow> place s' = place s"
  by (auto simp: show_status_def upt_4 split: option.splits) (simp add: place_def)

lemma place_draw:
  "img3 (draw_full_block px py blk s) = img3 s" "img3_off (draw_full_block px py blk s) = img3_off s"
  "show_x (draw_full_block px py blk s) = show_x s" "show_y (draw_full_block px py blk s) = show_y s"
  "img3 (draw_refill_block px py msk blk s) = img3 s" "img3_off (draw_refill_block px py msk blk s) = img3_off s"
  "show_x (draw_refill_block px py msk blk s) = show_x s" "show_y (draw_refill_block px py msk blk s) = show_y s"
  by (simp_all add: draw_full_block_def draw_refill_block_def case_prod_beta split: option.split)

definition safe :: "modex \<Rightarrow> bool" where
  "safe s \<longleftrightarrow> view_ok s \<and> fence_ok (build s)"

lemma safe_place: "place s' = place s \<Longrightarrow> safe s \<Longrightarrow> safe s'"
  by (simp add: place_def safe_def view_ok_def)

lemma safe_paints:
  assumes "safe s" and "paints (img3 s) (show_x s) (show_y s) f (build s) (build s')"
    and "img3 s' = img3 s" "img3_off s' = img3_off s" "show_x s' = show_x s" "show_y s' = show_y s"
  shows "safe s'"
  using assms paints_fence [OF assms(2)] by (simp add: safe_def view_ok_def)

lemma safe_start:
  assumes "set_mode_X (Some horiz) (Some vert) 0 old1 old2 s0 = (0, s)"
  shows "safe s"
proof -
  have s: "build s = fence_init (build s0)" "img3 s = 10256" "img3_off s = 10000" "show_x s = 0" "show_y s = 0"
    using assms by (auto simp: set_mode_X_def Let_def dims clear_screens_def)
  have "fence_ok (fence_init (build s0))"
    by (auto simp: fence_init_def fence_ok_def fence_init_apply dims)
  moreover have "view_ok s" using base_fits [of 0 0] s by (simp add: view_ok_def dims)
  ultimately show ?thesis by (simp add: safe_def s)
qed

lemma display_invariant: "display s \<Longrightarrow> safe s"
proof (induction rule: display.induct)
  case (start horiz vert old1 old2 s0 s)
  then show ?case by (rule safe_start)
next
  case (view s x y)
  then show ?case
    using set_view_window_inside [of _ x y s] by (auto simp: safe_def fence_ok_def dims)
next
  case (vline s fill x)
  show ?case
  proof (cases "0 \<le> x \<and> x < 320")
    case True
    then show ?thesis using safe_paints [OF vline.IH draw_vert_line_paints(2)] by simp
  next
    case False
    then show ?thesis using vline.IH by (auto simp: draw_vert_line_def dims)
  qed
next
  case (hline s fill y)
  show ?case
  proof (cases "0 \<le> y \<and> y < 182")
    case True
    then show ?thesis using safe_paints [OF hline.IH draw_horiz_line_paints(2)] by simp
  next
    case False
    then show ?thesis using hline.IH by (auto simp: draw_horiz_line_def dims)
  qed
next
  case (block s px py blk)
  then show ?case using safe_paints [OF block.IH draw_full_block_paints] by (simp add: place_draw)
next
  case (player s px py msk blk)
  then show ?case using safe_paints [OF player.IH draw_refill_block_paints] by (simp add: place_draw)
next
  case (shown s)
  show ?case by (rule safe_place [OF _ shown.IH]) simp
next
  case (status s font lvl tick froot s')
  then show ?case using safe_place [OF place_status] by blast
next
  case (cleared s)
  show ?case by (rule safe_place [OF _ cleared.IH]) simp
qed

text \<open>
  C29. From \<open>set_mode_X\<close> on, through any sequence of view changes, drawing and showing, every
  pixel of the window has its place inside the build buffer proper, different pixels have
  different places, and the fences around the buffer are whole: \<open>clear_mode_X\<close> reports nothing.
\<close>

theorem build_buffer_safe:
  assumes "display s"
  shows "(\<forall>x y. visible s x y \<longrightarrow> MEM_FENCE_WIDTH \<le> pixel_addr (img3 s) x y
           \<and> pixel_addr (img3 s) x y < MEM_FENCE_WIDTH + BUILD_BUF_SIZE)
    \<and> (\<forall>x y u v. visible s x y \<and> visible s u v \<and> pixel_addr (img3 s) x y = pixel_addr (img3 s) u v
         \<longrightarrow> x = u \<and> y = v)
    \<and> fst (clear_mode_X font old1 old2 (s, m)) = []"
proof -
  have ok: "view_ok s" "fence_ok (build s)" using display_invariant [OF assms] by (simp_all add: safe_def)
  have "build s j = MEM_FENCE_MAGIC" if "78497 \<le> j" "j < 78753" for j
  proof -
    have "0 \<le> j - 78497 \<and> j - 78497 < 256" using that by simp
    then have "build s (78497 + (j - 78497)) = MEM_FENCE_MAGIC" using ok(2) unfolding fence_ok_def by blast
    then show ?thesis by simp
  qed
  then have "\<not> fence_broken 256 0 (build s) \<and> \<not> fence_broken 256 78497 (build s)"
    using ok(2) unfolding fence_broken_iff fence_ok_def by simp
  moreover have "nat 256 = 256" "78241 + 256 = (78497 :: int)" by simp_all
  ultimately have report: "fst (clear_mode_X font old1 old2 (s, m)) = []"
    unfolding clear_mode_X_def set_text_mode_3_def Let_def prod.case fst_conv out_vga_same dims
    by (simp only: if_False append_Nil)
  have "\<forall>x y u v. visible s x y \<and> visible s u v \<and> pixel_addr (img3 s) x y = pixel_addr (img3 s) u v
      \<longrightarrow> x = u \<and> y = v"
    by (intro allI impI, elim conjE) (rule pixel_addr_inj)
  moreover have "\<forall>x y. visible s x y \<longrightarrow> MEM_FENCE_WIDTH \<le> pixel_addr (img3 s) x y
      \<and> pixel_addr (img3 s) x y < MEM_FENCE_WIDTH + BUILD_BUF_SIZE"
    using pixel_addr_inside [OF ok(1)] by blast
  ultimately show ?thesis using report by (intro conjI)
qed

definition blank_modex :: modex where
  "blank_modex = \<lparr>build = (\<lambda>_. 0), img3_off = 0, img3 = 0, show_x = 0, show_y = 0, target_img = 0,
     savebuff = (\<lambda>_. 0), drawbuf = (\<lambda>_ _. 0), off_color = 0, write_mask = {}, vga = (\<lambda>_ _. 0), vga_ports = []\<rparr>"

definition start_modex :: modex where
  "start_modex = snd (set_mode_X (Some (\<lambda>_ _ _. 0)) (Some (\<lambda>_ _ _. 0)) 0 0 0 blank_modex)"

lemma start_modex_display: "display start_modex"
proof (rule display.start)
  show "set_mode_X (Some (\<lambda>_ _ _. 0)) (Some (\<lambda>_ _ _. 0)) 0 0 0 blank_modex = (0, start_modex)"
    by (simp add: start_modex_def set_mode_X_def Let_def)
qed

lemma build_buffer_safe_witness:
  "fst (clear_mode_X (\<lambda>_ _. 0) 0 0 (draw_full_block 700 (-3) (\<lambda>_. 7) (set_view_window 401 300 start_modex), \<lambda>_. 0)) = []"
  using build_buffer_safe [OF display.block [OF display.view [OF start_modex_display]]] by blast

section \<open>What is shown\<close>

lemma pixel_draw_full_block:
  "visible s x y \<Longrightarrow> pixel (draw_full_block px py blk s) x y
     = (if px \<le> x \<and> x < px + 12 \<and> py \<le> y \<and> y < py + 12 then blk ((x - px) + (y - py) * 12) else pixel s x y)"
  using paints_pixel [OF draw_full_block_paints, of s x y px py blk] by (simp add: pixel_def place_draw rect_def)

lemma pixel_draw_refill_block:
  "visible s x y \<Longrightarrow> pixel (draw_refill_block px py msk blk s) x y
     = (if px \<le> x \<and> x < px + 12 \<and> py \<le> y \<and> y < py + 12 \<and> msk ((x - px) + (y - py) * 12) = 1
           \<and> blk ((x - px) + (y - py) * 12) \<noteq> 0xAA
        then blk ((x - px) + (y - py) * 12) else pixel s x y)"
  using paints_pixel [OF draw_refill_block_paints, of s x y px py msk blk]
  by (simp add: pixel_def place_draw rect_def opaque_def masked_block_def)

text \<open>
  C30. What is drawn is what the monitor shows.  After a block and then the player (a block under
  a mask) are drawn anywhere on the map, partly or wholly outside the window as it may be,
  \<open>show_screen\<close> puts at each pixel of the screen, in the plane and at the byte where the VGA
  looks for it from the start address that is programmed: the player's colour where the mask
  is set, else the block's colour if the block covers the pixel, else what was there before.
\<close>

theorem drawing_is_shown:
  fixes s :: modex and i j :: nat and px py qx qy :: int and blk msk player :: "int \<Rightarrow> u8"
  assumes "i < 320" and "j < 182"
  defines "x \<equiv> show_x s + int i" and "y \<equiv> show_y s + int j"
    and "t \<equiv> show_screen (draw_refill_block qx qy msk player (draw_full_block px py blk s))"
    and "q \<equiv> (show_x s + int i - qx) + (show_y s + int j - qy) * 12"
  shows "vga t (i mod 4) (uint (target_img t) + 80 * int j + int (i div 4)) =
      (if qx \<le> x \<and> x < qx + 12 \<and> qy \<le> y \<and> y < qy + 12 \<and> msk q = 1 \<and> player q \<noteq> 0xAA then player q
       else if px \<le> x \<and> x < px + 12 \<and> py \<le> y \<and> y < py + 12 then blk ((x - px) + (y - py) * 12)
       else pixel s x y)
    \<and> (\<exists>es. vga_ports t = es @ [Vga_outw 0x03D4 0x400C, Vga_outw 0x03D4 0x000D])"
proof -
  let ?s1 = "draw_full_block px py blk s"
  let ?s2 = "draw_refill_block qx qy msk player ?s1"
  have vis: "visible s x y" using assms(1,2) by (simp add: x_def y_def in_win_def)
  have org: "show_x ?s2 = show_x s" "show_y ?s2 = show_y s" "show_x ?s1 = show_x s" "show_y ?s1 = show_y s"
    by (simp_all add: place_draw)
  have "target_img t = 0x4000" by (simp add: t_def show_screen_def upt_4 Let_def)
  moreover from this have "\<exists>es. vga_ports t = es @ [Vga_outw 0x03D4 0x400C, Vga_outw 0x03D4 0x000D]"
    by (simp add: t_def show_screen_def upt_4 Let_def)
  moreover have "vga t (i mod 4) (16384 + 80 * int j + int (i div 4)) = pixel ?s2 x y"
    unfolding t_def x_def y_def using show_screen_pixel [OF assms(1,2), of ?s2] by (simp add: org)
  ultimately show ?thesis
    using vis by (simp add: pixel_draw_refill_block pixel_draw_full_block org q_def x_def [symmetric] y_def [symmetric])
qed

lemma drawing_is_shown_witness:
  "vga (show_screen (draw_refill_block 0 0 (\<lambda>_. 0) (\<lambda>_. 1) (draw_full_block (-5) 3 (\<lambda>i. of_int i) start_modex))) 2
     (uint (target_img (show_screen (draw_refill_block 0 0 (\<lambda>_. 0) (\<lambda>_. 1) (draw_full_block (-5) 3 (\<lambda>i. of_int i) start_modex))))
        + 80 * 4 + 1) = 23"
proof -
  have o: "show_x start_modex = 0" "show_y start_modex = 0"
    by (simp_all add: start_modex_def set_mode_X_def Let_def clear_screens_def)
  show ?thesis
    using drawing_is_shown [where i = 6 and j = 4 and s = start_modex and qx = 0 and qy = 0 and msk = "\<lambda>_. 0"
        and player = "\<lambda>_. 1" and px = "-5" and py = 3 and blk = "\<lambda>i. of_int i"]
    by (simp add: o)
qed

text \<open>
  The buffer \<open>savebuff\<close>, meant to hold what the player covers, holds one byte of it: drawing the
  player changes at most the byte at the clipped corner, and nothing when the player is off
  the screen.
\<close>

theorem savebuff_one_byte:
  "\<exists>i. 0 \<le> i \<and> i < 144 \<and> {a. savebuff (draw_refill_block px py msk blk s) a \<noteq> savebuff s a} \<subseteq> {i}"
proof (cases "clip_block s px py")
  case None
  then show ?thesis by (intro exI [of _ 0]) (simp add: draw_refill_block_def)
next
  case (Some r)
  then obtain x y i w l h where c: "clip_block s px py = Some (x, y, i, w, l, h)" by (metis prod_cases6)
  have "savebuff (draw_refill_block px py msk blk s) a = savebuff s a" if "a \<noteq> i" for a
    using that by (simp add: draw_refill_block_def c case_prod_beta refill_rows_saves)
  then have "{a. savebuff (draw_refill_block px py msk blk s) a \<noteq> savebuff s a} \<subseteq> {i}" by blast
  then show ?thesis using clip_block_Some(7,8) [OF c] by blast
qed

section \<open>The status bar\<close>

lemma digits_length: "n < 10 \<Longrightarrow> length (digits n) = 1" "10 \<le> n \<Longrightarrow> n < 100 \<Longrightarrow> length (digits n) = 2"
proof -
  show one: "length (digits n) = 1" if "n < 10" for n using that by (subst digits.simps) simp
  assume n: "10 \<le> n" "n < 100"
  then have "length (digits (n div 10)) = 1" by (intro one) simp
  then show "length (digits n) = 2" using n by (subst digits.simps) simp
qed

lemma sprintf_02d_length: "0 \<le> n \<Longrightarrow> n < 100 \<Longrightarrow> length (sprintf_02d n) = 2"
  using digits_length [of "nat n"] by (cases "n < 10") (simp_all add: sprintf_02d_def Let_def)

text \<open>The status line of level \<open>lvl\<close>, \<open>t\<close> seconds and \<open>froot\<close> fruits.\<close>

definition status_words :: "nat \<Rightarrow> nat \<Rightarrow> nat \<Rightarrow> string" where
  "status_words lvl t froot =
     ''Level '' @ digits lvl @ ''    '' @ digits froot @ (if froot = 1 then '' fruit'' else '' fruits'') @ ''    ''
       @ sprintf_02d (int (t div 60)) @ CHR '':'' # sprintf_02d (int (t mod 60))"

lemma c_div_nat: "(int a) sdiv (int b) = int (a div b)" "(int a) smod (int b) = int (a mod b)"
  by (cases "a = 0"; cases "b = 0"; simp add: signed_divide_int_def signed_modulo_int_def zdiv_int zmod_int)+

lemma status_text_ok:
  assumes "1 \<le> lvl" "lvl \<le> 10" "froot < 100" "tick < 192000"
  shows "status_text (int lvl) (int tick) (int froot) = Some (status_words lvl (tick div 32) froot)"
    and "length (status_words lvl (tick div 32) froot) \<le> 40"
proof -
  have d: "(int tick) sdiv 32 = int (tick div 32)" "int t sdiv 60 = int (t div 60)" "int t smod 60 = int (t mod 60)" for t
    using c_div_nat [of tick 32] c_div_nat [of t 60] by simp_all
  have m: "tick div 32 div 60 < 100" using assms(4) by simp
  have l2: "length (sprintf_02d (int (tick div 32 div 60))) = 2" "length (sprintf_02d (int (tick div 32 mod 60))) = 2"
    using m sprintf_02d_length [of "int (tick div 32 div 60)"] sprintf_02d_length [of "int (tick div 32 mod 60)"] by simp_all
  have ll: "length (digits lvl) < (if int lvl < 10 then 2 else 3)" "length (digits froot) < (if int froot < 10 then 2 else 3)"
    "length (digits lvl) \<le> 2" "length (digits froot) \<le> 2"
    using assms digits_length [of lvl] digits_length [of froot] by (cases "lvl < 10"; cases "froot < 10"; simp)+
  show "status_text (int lvl) (int tick) (int froot) = Some (status_words lvl (tick div 32) froot)"
    using ll(1,2) l2 unfolding status_text_def Let_def d
    by (simp add: sprintf_d_def status_words_def)
  show "length (status_words lvl (tick div 32) froot) \<le> 40"
    using ll(3,4) l2 by (auto simp: status_words_def)
qed

text \<open>The picture of a line, centred in 320 by 18 pixels on the background of the level.\<close>

definition bar_pixel :: "(nat \<Rightarrow> nat \<Rightarrow> u8) \<Rightarrow> nat \<Rightarrow> string \<Rightarrow> nat \<Rightarrow> nat \<Rightarrow> u8" where
  "bar_pixel font lvl words j i =
     (let gap = 4 * (40 - length words)
      in if 1 \<le> j \<and> j < 17 \<and> gap \<le> i \<and> i < gap + 8 * length words
            \<and> bit (font (of_char (words ! ((i - gap) div 8))) (j - 1)) (7 - (i - gap) mod 8)
         then 0x0F else of_nat (lvl - 1))"

lemma status_colors_nth: "n < 10 \<Longrightarrow> status_colors ! n = of_nat n"
proof -
  have "list_all (\<lambda>n. status_colors ! n = of_nat n) [0..<10]"
    by (simp add: status_colors_def upt_rec)
  then show "n < 10 \<Longrightarrow> status_colors ! n = of_nat n" by (simp add: list_all_iff)
qed

lemma strbuff_picture:
  assumes "1 \<le> lvl" "lvl \<le> 10" "length words \<le> 40"
  shows "\<exists>buff. strbuff font words b0 (int lvl) = Some (of_nat (lvl - 1), buff)
    \<and> (\<forall>j < 18. \<forall>i < 320. buff j i = bar_pixel font lvl words j i)"
proof -
  have c: "changecolor (int lvl) = Some (of_nat (lvl - 1))"
    using assms status_colors_nth [of "lvl - 1"] by (simp add: changecolor_def nat_diff_distrib)
  let ?g = "4 * (40 - length words)"
  have g: "8 * (40 - length words) div 2 = ?g" by simp
  have e: "?g + length words * 8 + ?g = 320" "?g + 8 * length words \<le> 320" using assms(3) by simp_all
  show ?thesis
    using assms(3) e unfolding strbuff_def c option.case Let_def g
    by (auto simp: convasc_apply clear_columns_def bar_pixel_def HEIGHT_PIX_def WIDTH_PIX_def on_color_def Let_def
        mult.commute [of "length words"])
qed

lemma show_bar_vga:
  "p < 4 \<Longrightarrow> vga (show_bar buff p s) q a
     = (if q = p \<and> 0 \<le> a \<and> a < 1440 then plane_bytes p buff ! nat a else vga s q a)"
  by (simp add: show_bar_def copy_bar_def copy_to_video_def write_mask_plane del: push_bit_of_1)

lemma show_bars_vga:
  assumes "p < 4"
  shows "vga (fold (show_bar buff) [0..<4] s) p a
     = (if 0 \<le> a \<and> a < 1440 then plane_bytes p buff ! nat a else vga s p a)"
proof -
  have "p = 0 \<or> p = 1 \<or> p = 2 \<or> p = 3" using assms by linarith
  then show ?thesis unfolding upt_4 by (elim disjE) (simp_all add: show_bar_vga)
qed

text \<open>
  C31. On every level, with fewer than 100 fruits and in the first 100 minutes, \<open>show_status\<close> stays
  inside its arrays and shows level, fruits and time: every pixel of the 320 by 18 bar has, in
  its plane, the colour of the centred status line in the VGA font, and the image below the
  bar is not touched.
\<close>

theorem status_bar_shows_line:
  assumes "1 \<le> lvl" and "lvl \<le> 10" and "froot < 100" and "tick < 192000"
  shows "\<exists>t. show_status font (int lvl) (int tick) (int froot) s = Some t
    \<and> (\<forall>i < 320. \<forall>j < 18. vga t (i mod 4) (80 * int j + int (i div 4))
         = bar_pixel font lvl (status_words lvl (tick div 32) froot) j i)
    \<and> (\<forall>p < 4. \<forall>a \<ge> 1440. vga t p a = vga s p a)"
proof -
  let ?w = "status_words lvl (tick div 32) froot"
  obtain buff where b: "strbuff font ?w (drawbuf s) (int lvl) = Some (of_nat (lvl - 1), buff)"
    "\<And>j i. j < 18 \<Longrightarrow> i < 320 \<Longrightarrow> buff j i = bar_pixel font lvl ?w j i"
    using strbuff_picture [OF assms(1,2) status_text_ok(2) [OF assms]] by blast
  let ?t = "fold (show_bar buff) [0..<4]
      (out_vga (set_palette (int lvl) (int tick)) (s\<lparr>off_color := of_nat (lvl - 1), drawbuf := buff\<rparr>))"
  have t: "show_status font (int lvl) (int tick) (int froot) s = Some ?t"
    by (simp add: show_status_def status_text_ok(1) [OF assms] b(1))
  have "vga ?t (i mod 4) (80 * int j + int (i div 4)) = bar_pixel font lvl ?w j i" if ij: "i < 320" "j < 18" for i j
  proof -
    have e: "80 * int j + int (i div 4) = int (j * 80 + i div 4)" by simp
    have "j * 80 + i div 4 < 1440" "i div 4 < 80" using ij by auto
    then show ?thesis unfolding e
      using plane_bytes_nth [of "i mod 4" j "i div 4" buff] ij b(2)
      by (simp add: show_bars_vga del: of_nat_add of_nat_mult)
  qed
  moreover have "vga ?t p a = vga s p a" if "p < 4" "1440 \<le> a" for p a using that by (simp add: show_bars_vga)
  ultimately show ?thesis using t by blast
qed

lemma status_bar_shows_line_witness:
  "\<exists>t. show_status (\<lambda>c r. of_nat (c + r)) 3 2000 1 start_modex = Some t
     \<and> vga t 0 0 = bar_pixel (\<lambda>c r. of_nat (c + r)) 3 (status_words 3 62 1) 0 0"
proof -
  obtain t where t: "show_status (\<lambda>c r. of_nat (c + r)) 3 2000 1 start_modex = Some t"
    "\<forall>i < 320. \<forall>j < 18. vga t (i mod 4) (80 * int j + int (i div 4))
         = bar_pixel (\<lambda>c r. of_nat (c + r)) 3 (status_words 3 62 1) j i"
    using status_bar_shows_line [of 3 1 2000 "\<lambda>c r. of_nat (c + r)" start_modex] by auto
  from t(2) [rule_format, of 0 0] have "vga t 0 0 = bar_pixel (\<lambda>c r. of_nat (c + r)) 3 (status_words 3 62 1) 0 0" by simp
  then show ?thesis using t(1) by blast
qed

end
