(* ===== verification/Maze.thy ===== *)
theory Maze
  imports Display_Spec
begin

text \<open>
  The maze, \<^verbatim>\<open>mp2/maze.c\<close>: its array of bit vectors, breadth-first marking, generation by worms
  and by connecting what they left apart, fruits, the exit, and the pictures of the maze.

  The array is a function on its indices (the lemmas of \<open>Maze_Spec\<close> keep the indices inside).
  \<open>random\<close> is a list of the values it will deliver: a function that draws returns what is left of
  it, and \<open>None\<close> when the list ends before it does.  \<open>None\<close> also stands for a loop that does not
  end.  The block images of \<^verbatim>\<open>blocks.s\<close> are a parameter, a function from block number
  and byte to colour.
\<close>

section \<open>State\<close>

definition SHOW_MIN :: int where "SHOW_MIN = 6"

definition MAZE_MIN_X_DIM :: int where
  "MAZE_MIN_X_DIM = (SCROLL_X_DIM + (BLOCK_X_DIM - 1) + 2 * SHOW_MIN) div (2 * BLOCK_X_DIM)"
definition MAZE_MAX_X_DIM :: int where "MAZE_MAX_X_DIM = 50"
definition MAZE_MIN_Y_DIM :: int where
  "MAZE_MIN_Y_DIM = (SCROLL_Y_DIM + (BLOCK_Y_DIM - 1) + 2 * SHOW_MIN) div (2 * BLOCK_Y_DIM)"
definition MAZE_MAX_Y_DIM :: int where "MAZE_MAX_Y_DIM = 30"

definition MAZE_NONE :: u8 where "MAZE_NONE = 0"
definition MAZE_WALL :: u8 where "MAZE_WALL = 1"
definition MAZE_FRUIT_1 :: u8 where "MAZE_FRUIT_1 = 2"
definition MAZE_FRUIT :: u8 where "MAZE_FRUIT = 2 OR 4 OR 8"
definition MAZE_EXIT :: u8 where "MAZE_EXIT = 16"
definition MAZE_REACH :: u8 where "MAZE_REACH = 128"

definition MAZE_BYTES :: int where "MAZE_BYTES = 2 * MAZE_MAX_X_DIM * (2 * MAZE_MAX_Y_DIM + 3) + 1"

record maze =
  cells :: "int \<Rightarrow> u8"
  maze_x_dim :: int
  maze_y_dim :: int
  n_fruits :: int
  exit_x :: int
  exit_y :: int

definition maze_index :: "int \<Rightarrow> int \<Rightarrow> int \<Rightarrow> int" where
  "maze_index xd a b = a + (b + 1) * xd * 2"

abbreviation idx :: "maze \<Rightarrow> int \<Rightarrow> int \<Rightarrow> int" where
  "idx s \<equiv> maze_index (maze_x_dim s)"

definition cell :: "maze \<Rightarrow> int \<Rightarrow> int \<Rightarrow> u8" where
  "cell s x y = cells s (idx s x y)"

definition set_cell :: "int \<Rightarrow> int \<Rightarrow> u8 \<Rightarrow> maze \<Rightarrow> maze" where
  "set_cell x y v s = s\<lparr>cells := (cells s)(idx s x y := v)\<rparr>"

section \<open>Marking\<close>

text \<open>One of the four \<open>if\<close> statements: \<open>d\<close> is the offset of the neighbour.\<close>

definition explore :: "int \<Rightarrow> int \<Rightarrow> (int \<Rightarrow> u8) \<times> int list \<Rightarrow> (int \<Rightarrow> u8) \<times> int list" where
  "explore cur d mq =
     (let (m, q) = mq
      in if m (cur + d) AND MAZE_WALL = 0 \<and> m (cur + 2 * d) AND MAZE_REACH = 0
         then (m(cur + 2 * d := m (cur + 2 * d) OR MAZE_REACH), q @ [cur + 2 * d]) else (m, q))"

definition explore_all :: "int \<Rightarrow> int \<Rightarrow> (int \<Rightarrow> u8) \<times> int list \<Rightarrow> (int \<Rightarrow> u8) \<times> int list" where
  "explore_all xd cur mq =
     (let mq1 = explore cur (-2 * xd) mq; mq2 = explore cur 1 mq1; mq3 = explore cur (2 * xd) mq2
      in explore cur (-1) mq3)"

partial_function (option) mark_loop ::
    "int \<Rightarrow> (int \<Rightarrow> u8) \<times> int list \<Rightarrow> nat \<Rightarrow> ((int \<Rightarrow> u8) \<times> int list) option" where
  "mark_loop xd mq q_start =
     (if q_start \<noteq> length (snd mq)
      then mark_loop xd (explore_all xd (snd mq ! q_start) mq) (q_start + 1)
      else Some mq)"

definition mark_maze_area :: "int \<Rightarrow> int \<Rightarrow> maze \<Rightarrow> (int \<times> maze) option" where
  "mark_maze_area x y s =
     (let p = idx s x y
      in map_option (\<lambda>(m, q). (int (length q), s\<lparr>cells := m\<rparr>))
           (mark_loop (maze_x_dim s) ((cells s)(p := cells s p OR MAZE_REACH), [p]) 0))"

section \<open>Generation\<close>

text \<open>The loops that draw a lattice point until one is acceptable.\<close>

fun pick_until :: "(int \<Rightarrow> int \<Rightarrow> bool) \<Rightarrow> int \<Rightarrow> int \<Rightarrow> nat list \<Rightarrow> (int \<times> int \<times> nat list) option" where
  "pick_until acceptable xd yd (r1 # r2 # rs) =
     (let x = int r1 mod xd * 2 + 1; y = int r2 mod yd * 2 + 1
      in if acceptable x y then Some (x, y, rs) else pick_until acceptable xd yd rs)"
| "pick_until acceptable xd yd [r] = None"
| "pick_until acceptable xd yd [] = None"

text \<open>The turn weights: by the turn from the preferred direction, and whether the space is a wall.\<close>

definition turn_wt :: "nat \<Rightarrow> bool \<Rightarrow> nat" where
  "turn_wt turn wall = (if wall then [84, 9, 3, 9] else [1, 1, 3, 1]) ! turn"

definition weights :: "maze \<Rightarrow> int \<Rightarrow> int \<Rightarrow> nat \<Rightarrow> nat list" where
  "weights s x y pref_dir =
     (let w0 = (if y > 1 then turn_wt pref_dir (cell s x (y - 2) = MAZE_WALL) else 0);
          w1 = w0 + (if x < maze_x_dim s * 2 - 1 then turn_wt ((pref_dir + 3) mod 4) (cell s (x + 2) y = MAZE_WALL) else 0);
          w2 = w1 + (if y < maze_y_dim s * 2 - 1 then turn_wt ((pref_dir + 2) mod 4) (cell s x (y + 2) = MAZE_WALL) else 0);
          w3 = w2 + (if x > 1 then turn_wt ((pref_dir + 1) mod 4) (cell s (x - 2) y = MAZE_WALL) else 0)
      in [w0, w1, w2, w3])"

text \<open>The direction whose range of the cumulative weights the drawn number falls into.\<close>

fun pick_dir :: "nat \<Rightarrow> nat list \<Rightarrow> nat" where
  "pick_dir pick [] = 0"
| "pick_dir pick (w # ws) = (if pick \<ge> w then Suc (pick_dir pick ws) else 0)"

text \<open>One step of a worm: it opens the space between and moves on; up, right, down, left.\<close>

definition dig :: "nat \<Rightarrow> maze \<Rightarrow> int \<Rightarrow> int \<Rightarrow> maze \<times> int \<times> int" where
  "dig dir s x y =
     (if dir = 0 then (set_cell x (y - 1) MAZE_NONE s, x, y - 2)
      else if dir = 1 then (set_cell (x + 1) y MAZE_NONE s, x + 2, y)
      else if dir = 2 then (set_cell x (y + 1) MAZE_NONE s, x, y + 2)
      else if dir = 3 then (set_cell (x - 1) y MAZE_NONE s, x - 2, y)
      else (s, x, y))"

fun worm :: "maze \<Rightarrow> int \<Rightarrow> int \<Rightarrow> int \<Rightarrow> nat \<Rightarrow> nat list \<Rightarrow> (maze \<times> int \<times> int \<times> int \<times> nat list) option" where
  "worm s remaining x y pref_dir [] = None"
| "worm s remaining x y pref_dir (r # rs) =
     (let wt = weights s x y pref_dir
      in if wt ! 3 = 0 then None
         else (let dir = pick_dir (r mod wt ! 3) wt
               in if (dir + 4 - pref_dir) mod 4 = 2 then Some (s, remaining, x, y, rs)
                  else (let (s1, x1, y1) = dig dir s x y;
                            left = (if cell s1 x1 y1 = MAZE_WALL then remaining - 1 else remaining)
                        in worm (set_cell x1 y1 MAZE_NONE s1) left x1 y1 dir rs)))"

partial_function (option) worms :: "maze \<Rightarrow> int \<Rightarrow> nat list \<Rightarrow> (maze \<times> int \<times> int \<times> nat list) option" where
  "worms s remaining rs =
     (case pick_until (\<lambda>x y. cell s x y AND MAZE_WALL \<noteq> 0) (maze_x_dim s) (maze_y_dim s) rs of
        None \<Rightarrow> None
      | Some (x, y, []) \<Rightarrow> None
      | Some (x, y, r # rs2) \<Rightarrow>
          (case worm (set_cell x y MAZE_NONE s) (remaining - 1) x y (r mod 4) rs2 of
             None \<Rightarrow> None
           | Some (s2, left, x2, y2, rs3) \<Rightarrow>
               if left > 0 then worms s2 left rs3 else Some (s2, x2, y2, rs3)))"

text \<open>The wall that is knocked down next to the lattice point \<open>(x, y)\<close>, if there is one.\<close>

definition join_wall :: "maze \<Rightarrow> int \<Rightarrow> int \<Rightarrow> maze option" where
  "join_wall s x y =
     (if y > 1 \<and> cell s x (y - 2) AND MAZE_REACH \<noteq> 0 then Some (set_cell x (y - 1) MAZE_NONE s)
      else if x > 1 \<and> cell s (x - 2) y AND MAZE_REACH \<noteq> 0 then Some (set_cell (x - 1) y MAZE_NONE s)
      else if x < 2 * maze_x_dim s - 1 \<and> cell s (x + 2) y AND MAZE_REACH \<noteq> 0 then Some (set_cell (x + 1) y MAZE_NONE s)
      else if y < 2 * maze_y_dim s - 1 \<and> cell s x (y + 2) AND MAZE_REACH \<noteq> 0 then Some (set_cell x (y + 1) MAZE_NONE s)
      else None)"

text \<open>The next point of the scan.\<close>

definition scan_next :: "maze \<Rightarrow> int \<Rightarrow> int \<Rightarrow> int \<times> int" where
  "scan_next s x y =
     (if x + 2 > maze_x_dim s * 2
      then (x + 2 - maze_x_dim s * 2, if y + 2 > 2 * maze_y_dim s then y + 2 - 2 * maze_y_dim s else y + 2)
      else (x + 2, y))"

text \<open>
  The second phase.  \<open>continue\<close> goes to the test at the end of the loop, as does a round that
  joins nothing.
\<close>

partial_function (option) connect ::
    "maze \<Rightarrow> int \<Rightarrow> int \<Rightarrow> int \<Rightarrow> int \<Rightarrow> nat list \<Rightarrow> (maze \<times> nat list) option" where
  "connect s remaining trials x y rs =
     (let scan = remaining < 20 \<or> trials + 1 > 100; trials1 = (if remaining < 20 then trials else trials + 1)
      in case (if scan then (let (x1, y1) = scan_next s x y in Some (x1, y1, rs))
               else pick_until (\<lambda>x y. cell s x y AND MAZE_REACH = 0) (maze_x_dim s) (maze_y_dim s) rs) of
           None \<Rightarrow> None
         | Some (x1, y1, rs1) \<Rightarrow>
             (case (if scan \<and> cell s x1 y1 AND MAZE_REACH \<noteq> 0 then None else join_wall s x1 y1) of
                None \<Rightarrow> if remaining > 0 then connect s remaining trials1 x1 y1 rs1 else Some (s, rs1)
              | Some s1 \<Rightarrow>
                  (case mark_maze_area x1 y1 s1 of
                     None \<Rightarrow> None
                   | Some (n, s2) \<Rightarrow>
                       if remaining - n > 0 then connect s2 (remaining - n) trials1 x1 y1 rs1 else Some (s2, rs1))))"

definition for_cells :: "int list \<Rightarrow> int list \<Rightarrow> (u8 \<Rightarrow> u8) \<Rightarrow> maze \<Rightarrow> maze" where
  "for_cells xs ys f s = fold (\<lambda>x s. fold (\<lambda>y s. set_cell x y (f (cell s x y)) s) ys s) xs s"

text \<open>The lattice coordinates \<open>1, 3, \<dots>\<close> and all inner coordinates \<open>1, 2, \<dots>\<close> below \<open>2 n\<close>.\<close>

definition odds :: "int \<Rightarrow> int list" where
  "odds n = map (\<lambda>i. 2 * int i + 1) [0..<nat n]"

definition inner :: "int \<Rightarrow> int list" where
  "inner n = map (\<lambda>i. int i + 1) [0..<nat (2 * n) - 1]"

text \<open>\<open>_add_a_fruit\<close> without its drawing; it returns where the fruit is.\<close>

definition NUM_FRUIT_TYPES :: nat where "NUM_FRUIT_TYPES = 7"

definition add_fruit :: "maze \<Rightarrow> nat list \<Rightarrow> (int \<times> int \<times> maze \<times> nat list) option" where
  "add_fruit s rs =
     (case pick_until (\<lambda>x y. cell s x y AND MAZE_FRUIT = 0) (maze_x_dim s) (maze_y_dim s) rs of
        None \<Rightarrow> None
      | Some (x, y, []) \<Rightarrow> None
      | Some (x, y, r # rs2) \<Rightarrow>
          (let s1 = set_cell x y (cell s x y OR of_nat (r mod NUM_FRUIT_TYPES + 1) * MAZE_FRUIT_1) s
           in Some (x, y, s1\<lparr>n_fruits := n_fruits s1 + 1\<rparr>, rs2)))"

fun add_fruits :: "nat \<Rightarrow> maze \<Rightarrow> nat list \<Rightarrow> (maze \<times> nat list) option" where
  "add_fruits 0 s rs = Some (s, rs)"
| "add_fruits (Suc n) s rs =
     (case add_fruit s rs of None \<Rightarrow> None | Some (x, y, s1, rs1) \<Rightarrow> add_fruits n s1 rs1)"

definition place_exit :: "maze \<Rightarrow> nat list \<Rightarrow> (maze \<times> nat list) option" where
  "place_exit s rs =
     (case pick_until (\<lambda>x y. cell s x y AND MAZE_FRUIT = 0) (maze_x_dim s) (maze_y_dim s) rs of
        None \<Rightarrow> None
      | Some (x, y, rs1) \<Rightarrow>
          Some ((set_cell x y (cell s x y OR MAZE_EXIT) s)\<lparr>exit_x := x, exit_y := y\<rparr>, rs1))"

text \<open>The two phases, up to and including the removal of the marks.\<close>

definition build_walls :: "maze \<Rightarrow> nat list \<Rightarrow> (maze \<times> nat list) option" where
  "build_walls s rs =
     (case worms s (maze_x_dim s * maze_y_dim s) rs of
        None \<Rightarrow> None
      | Some (s1, x, y, rs1) \<Rightarrow>
          (case mark_maze_area 1 1 s1 of
             None \<Rightarrow> None
           | Some (n, s2) \<Rightarrow> connect s2 (maze_x_dim s * maze_y_dim s - n) 0 x y rs1))"

text \<open>The new dimensions, and \<open>memset\<close> of the array with \<open>MAZE_WALL\<close>.\<close>

definition fill_walls :: "int \<Rightarrow> int \<Rightarrow> maze \<Rightarrow> maze" where
  "fill_walls x_dim y_dim s =
     s\<lparr>maze_x_dim := x_dim, maze_y_dim := y_dim,
       cells := \<lambda>a. if 0 \<le> a \<and> a < MAZE_BYTES then MAZE_WALL else cells s a\<rparr>"

definition make_maze :: "int \<Rightarrow> int \<Rightarrow> int \<Rightarrow> maze \<Rightarrow> nat list \<Rightarrow> (int \<times> maze \<times> nat list) option" where
  "make_maze x_dim y_dim start_fruits s rs =
     (if x_dim < MAZE_MIN_X_DIM \<or> x_dim > MAZE_MAX_X_DIM \<or> y_dim < MAZE_MIN_Y_DIM \<or> y_dim > MAZE_MAX_Y_DIM
      then Some (-1, s, rs)
      else (case build_walls (fill_walls x_dim y_dim s) rs of
              None \<Rightarrow> None
            | Some (s2, rs2) \<Rightarrow>
                (let s3 = for_cells (odds x_dim) (odds y_dim) (\<lambda>v. v AND NOT MAZE_REACH) s2;
                     s4 = for_cells (inner x_dim) (inner y_dim) (\<lambda>_. MAZE_NONE) s3
                 in case add_fruits (nat start_fruits) (s4\<lparr>n_fruits := 0\<rparr>) rs2 of
                      None \<Rightarrow> None
                    | Some (s5, rs5) \<Rightarrow> map_option (\<lambda>(s6, rs6). (0, s6, rs6)) (place_exit s5 rs5))))"

section \<open>Pictures\<close>

definition BLOCK_EMPTY :: nat where "BLOCK_EMPTY = 16"
definition BLOCK_SHADOW :: nat where "BLOCK_SHADOW = 17"
definition BLOCK_PLAYER_UP :: nat where "BLOCK_PLAYER_UP = 18"
definition BLOCK_PLAYER_MASK_UP :: nat where "BLOCK_PLAYER_MASK_UP = 22"
definition BLOCK_FRUIT_1 :: nat where "BLOCK_FRUIT_1 = 26"
definition BLOCK_FRUIT_SHADOW :: nat where "BLOCK_FRUIT_SHADOW = 33"
definition BLOCK_EXIT :: nat where "BLOCK_EXIT = 34"

definition fruit_num :: "u8 \<Rightarrow> nat" where
  "fruit_num v = unat (v AND MAZE_FRUIT) div unat MAZE_FRUIT_1"

definition wall_bit :: "maze \<Rightarrow> int \<Rightarrow> int \<Rightarrow> nat" where
  "wall_bit s x y = (if cell s x y AND MAZE_WALL \<noteq> 0 then 1 else 0)"

definition find_block :: "maze \<Rightarrow> int \<Rightarrow> int \<Rightarrow> nat" where
  "find_block s x y =
     (let fnum = fruit_num (cell s x y)
      in if n_fruits s = 0 \<and> cell s x y AND MAZE_EXIT \<noteq> 0 then BLOCK_EXIT
         else if cell s x y AND MAZE_REACH = 0
         then (if fnum \<noteq> 0 then BLOCK_FRUIT_SHADOW else BLOCK_SHADOW)
         else if fnum \<noteq> 0 then BLOCK_FRUIT_1 + fnum - 1
         else if cell s x y AND MAZE_WALL = 0 then BLOCK_EMPTY
         else wall_bit s x (y - 1) + 2 * wall_bit s (x + 1) y + 4 * wall_bit s x (y + 1) + 8 * wall_bit s (x - 1) y)"

definition get_player_block :: "nat \<Rightarrow> nat" where "get_player_block cur_dir = BLOCK_PLAYER_UP + cur_dir"
definition get_player_mask :: "nat \<Rightarrow> nat" where "get_player_mask cur_dir = BLOCK_PLAYER_MASK_UP + cur_dir"
definition get_floor :: nat where "get_floor = BLOCK_EMPTY"
definition get_num_fruits :: "maze \<Rightarrow> int" where "get_num_fruits s = n_fruits s"

text \<open>The inner loop of a fill function: bytes of one block until the block or the line ends.\<close>

function fill_run :: "int \<Rightarrow> int \<Rightarrow> int \<Rightarrow> int \<Rightarrow> int \<Rightarrow> (int \<Rightarrow> u8) \<Rightarrow> int \<Rightarrow> (int \<Rightarrow> u8) \<Rightarrow> int \<times> (int \<Rightarrow> u8)" where
  "fill_run len dim stride i sub block at buf =
     (if i < len \<and> sub < dim
      then fill_run len dim stride (i + 1) (sub + 1) block (at + stride) (buf(i := block at))
      else (i, buf))"
  by pat_completeness auto
termination
  by (relation "measure (\<lambda>(len, dim, stride, i, sub, block, at, buf). nat (len - i))") auto

declare fill_run.simps [simp del]

text \<open>A first position within a block past its end would make the outer loop spin for ever.\<close>

partial_function (option) fill_horiz ::
    "(nat \<Rightarrow> int \<Rightarrow> u8) \<Rightarrow> maze \<Rightarrow> int \<Rightarrow> int \<Rightarrow> int \<Rightarrow> int \<Rightarrow> int \<Rightarrow> (int \<Rightarrow> u8) \<Rightarrow> (int \<Rightarrow> u8) option" where
  "fill_horiz blocks s i map_x map_y sub_x sub_y buf =
     (if i < SCROLL_X_DIM
      then (let (i1, buf1) = fill_run SCROLL_X_DIM BLOCK_X_DIM 1 i sub_x (blocks (find_block s map_x map_y))
                               (sub_y * BLOCK_X_DIM + sub_x) buf
            in fill_horiz blocks s i1 (map_x + 1) map_y 0 sub_y buf1)
      else Some buf)"

definition fill_horiz_buffer ::
    "(nat \<Rightarrow> int \<Rightarrow> u8) \<Rightarrow> maze \<Rightarrow> int \<Rightarrow> int \<Rightarrow> (int \<Rightarrow> u8) \<Rightarrow> (int \<Rightarrow> u8) option" where
  "fill_horiz_buffer blocks s x y buf =
     (let map_x = x sdiv BLOCK_X_DIM; map_y = y sdiv BLOCK_Y_DIM;
          sub_x = x - map_x * BLOCK_X_DIM; sub_y = y - map_y * BLOCK_Y_DIM
      in fill_horiz blocks s 0 map_x map_y sub_x sub_y buf)"

partial_function (option) fill_vert ::
    "(nat \<Rightarrow> int \<Rightarrow> u8) \<Rightarrow> maze \<Rightarrow> int \<Rightarrow> int \<Rightarrow> int \<Rightarrow> int \<Rightarrow> int \<Rightarrow> (int \<Rightarrow> u8) \<Rightarrow> (int \<Rightarrow> u8) option" where
  "fill_vert blocks s i map_x map_y sub_x sub_y buf =
     (if i < SCROLL_Y_DIM
      then (let (i1, buf1) = fill_run SCROLL_Y_DIM BLOCK_Y_DIM BLOCK_X_DIM i sub_y (blocks (find_block s map_x map_y))
                               (sub_y * BLOCK_X_DIM + sub_x) buf
            in fill_vert blocks s i1 map_x (map_y + 1) sub_x 0 buf1)
      else Some buf)"

definition fill_vert_buffer ::
    "(nat \<Rightarrow> int \<Rightarrow> u8) \<Rightarrow> maze \<Rightarrow> int \<Rightarrow> int \<Rightarrow> (int \<Rightarrow> u8) \<Rightarrow> (int \<Rightarrow> u8) option" where
  "fill_vert_buffer blocks s x y buf =
     (let map_x = x sdiv BLOCK_X_DIM; map_y = y sdiv BLOCK_Y_DIM;
          sub_x = x - map_x * BLOCK_X_DIM; sub_y = y - map_y * BLOCK_Y_DIM
      in fill_vert blocks s 0 map_x map_y sub_x sub_y buf)"

section \<open>The player in the maze\<close>

text \<open>These change the maze and draw; the display is a second component of the state.\<close>

type_synonym scene = "maze \<times> modex"

definition draw_cell :: "(nat \<Rightarrow> int \<Rightarrow> u8) \<Rightarrow> int \<Rightarrow> int \<Rightarrow> scene \<Rightarrow> scene" where
  "draw_cell blocks x y sc =
     (fst sc, draw_full_block (x * BLOCK_X_DIM) (y * BLOCK_Y_DIM) (blocks (find_block (fst sc) x y)) (snd sc))"

definition unveil_space :: "(nat \<Rightarrow> int \<Rightarrow> u8) \<Rightarrow> int \<Rightarrow> int \<Rightarrow> scene \<Rightarrow> scene" where
  "unveil_space blocks x y sc =
     (let s = fst sc
      in if x < 0 \<or> x > 2 * maze_x_dim s \<or> y < 0 \<or> y > 2 * maze_y_dim s then sc
         else if cell s x y AND MAZE_REACH \<noteq> 0 then sc
         else draw_cell blocks x y (set_cell x y (cell s x y OR MAZE_REACH) s, snd sc))"

definition check_for_fruit :: "(nat \<Rightarrow> int \<Rightarrow> u8) \<Rightarrow> int \<Rightarrow> int \<Rightarrow> scene \<Rightarrow> nat \<times> scene" where
  "check_for_fruit blocks x y sc =
     (let s = fst sc
      in if x < 0 \<or> x \<ge> 2 * maze_x_dim s \<or> y < 0 \<or> y \<ge> 2 * maze_y_dim s then (0, sc)
         else (let fnum = fruit_num (cell s x y)
               in if fnum \<noteq> 0
                  then (let s1 = set_cell x y (cell s x y AND NOT MAZE_FRUIT) s;
                            s2 = s1\<lparr>n_fruits := n_fruits s1 - 1\<rparr>;
                            sc1 = (if n_fruits s2 = 0 then draw_cell blocks (exit_x s2) (exit_y s2) (s2, snd sc)
                                   else (s2, snd sc))
                        in (fnum, draw_cell blocks x y sc1))
                  else (fnum, sc)))"

definition check_for_win :: "int \<Rightarrow> int \<Rightarrow> maze \<Rightarrow> bool" where
  "check_for_win x y s =
     (if x < 0 \<or> x \<ge> 2 * maze_x_dim s \<or> y < 0 \<or> y \<ge> 2 * maze_y_dim s then False
      else n_fruits s = 0 \<and> cell s x y AND MAZE_EXIT \<noteq> 0)"

definition add_a_fruit :: "(nat \<Rightarrow> int \<Rightarrow> u8) \<Rightarrow> scene \<Rightarrow> nat list \<Rightarrow> (int \<times> scene \<times> nat list) option" where
  "add_a_fruit blocks sc rs =
     (case add_fruit (fst sc) rs of
        None \<Rightarrow> None
      | Some (x, y, s1, rs1) \<Rightarrow>
          (let sc1 = draw_cell blocks x y (s1, snd sc);
               sc2 = (if n_fruits s1 = 1 then draw_cell blocks (exit_x s1) (exit_y s1) sc1 else sc1)
           in Some (n_fruits s1, sc2, rs1)))"

definition find_open_directions :: "int \<Rightarrow> int \<Rightarrow> maze \<Rightarrow> bool list" where
  "find_open_directions x y s =
     [cell s x (y - 1) AND MAZE_WALL = 0, cell s (x + 1) y AND MAZE_WALL = 0,
      cell s x (y + 1) AND MAZE_WALL = 0, cell s (x - 1) y AND MAZE_WALL = 0]"

end
