(* ===== verification/Maze_Walls.thy ===== *)
theory Maze_Walls
  imports Maze
begin

text \<open>
  The walls of the maze.  Marking is a breadth-first search: it returns, and marks what
  open passages connect to its start.  The worms and the joining end for some random numbers,
  and leave every lattice point linked to (1, 1).
\<close>

section \<open>Bits of a cell\<close>

lemma reach_keeps_wall [simp]: "(v OR MAZE_REACH) AND MAZE_WALL = v AND MAZE_WALL"
  by (simp add: MAZE_REACH_def MAZE_WALL_def bit.conj_disj_distrib2)

lemma reach_is_set [simp]: "(v OR MAZE_REACH) AND MAZE_REACH \<noteq> 0"
  by (simp add: MAZE_REACH_def bit.conj_disj_distrib2 or_eq_0_iff)

lemma bits_nonzero [simp]: "MAZE_REACH \<noteq> 0" "MAZE_WALL \<noteq> 0"
  by (simp_all add: MAZE_REACH_def MAZE_WALL_def)

lemma wall_is_wall [simp]: "MAZE_WALL AND MAZE_WALL \<noteq> 0" "MAZE_NONE AND v = 0"
  by (simp_all add: MAZE_WALL_def MAZE_NONE_def)

section \<open>Marking\<close>

text \<open>The offsets of the four directions and the open passages between points two apart.\<close>

definition offsets :: "int \<Rightarrow> int set" where
  "offsets xd = {-2 * xd, 1, 2 * xd, -1}"

definition passage :: "int \<Rightarrow> (int \<Rightarrow> u8) \<Rightarrow> (int \<times> int) set" where
  "passage xd m = {(p, q). \<exists>d\<in>offsets xd. m (p + d) AND MAZE_WALL = 0 \<and> q = p + 2 * d}"

definition unmarked :: "(int \<Rightarrow> u8) \<Rightarrow> int set" where
  "unmarked m = {a. m a AND MAZE_REACH = 0}"

text \<open>What a search from \<open>p\<close> finds: along open passages, without passing a marked point.\<close>

definition region :: "int \<Rightarrow> (int \<Rightarrow> u8) \<Rightarrow> int \<Rightarrow> int set" where
  "region xd m p = (passage xd m \<inter> UNIV \<times> unmarked m)\<^sup>* `` {p}"

definition mark :: "int set \<Rightarrow> (int \<Rightarrow> u8) \<Rightarrow> int \<Rightarrow> u8" where
  "mark Q m = (\<lambda>a. if a \<in> Q then m a OR MAZE_REACH else m a)"

lemma mark_wall [simp]: "mark Q m a AND MAZE_WALL = m a AND MAZE_WALL"
  by (simp add: mark_def)

lemma mark_reach: "mark Q m a AND MAZE_REACH = 0 \<longleftrightarrow> a \<notin> Q \<and> a \<in> unmarked m"
  by (auto simp: mark_def unmarked_def)

lemma mark_insert: "a \<notin> Q \<Longrightarrow> (mark Q m)(a := mark Q m a OR MAZE_REACH) = mark (insert a Q) m"
  by (auto simp: mark_def fun_eq_iff)

lemma region_start [simp]: "p \<in> region xd m p"
  by (simp add: region_def)

lemma region_step:
  "a \<in> region xd m p \<Longrightarrow> d \<in> offsets xd \<Longrightarrow> m (a + d) AND MAZE_WALL = 0 \<Longrightarrow> a + 2 * d \<in> unmarked m
   \<Longrightarrow> a + 2 * d \<in> region xd m p"
  unfolding region_def by (auto simp: passage_def intro: rtrancl_into_rtrancl)

text \<open>The state of a search: what is marked is the queue, without repetition, and in the region.\<close>

definition searching :: "int \<Rightarrow> (int \<Rightarrow> u8) \<Rightarrow> int \<Rightarrow> (int \<Rightarrow> u8) \<times> int list \<Rightarrow> bool" where
  "searching xd m p mq \<longleftrightarrow>
     fst mq = mark (set (snd mq)) m \<and> distinct (snd mq) \<and> p \<in> set (snd mq) \<and> set (snd mq) \<subseteq> region xd m p"

definition known :: "(int \<Rightarrow> u8) \<Rightarrow> int \<Rightarrow> int \<Rightarrow> int list \<Rightarrow> bool" where
  "known m a d q \<longleftrightarrow> (m (a + d) AND MAZE_WALL = 0 \<longrightarrow> a + 2 * d \<in> unmarked m \<longrightarrow> a + 2 * d \<in> set q)"

lemma known_append: "known m a d q \<Longrightarrow> known m a d (q @ ys)"
  by (auto simp: known_def)

lemma explore_searching:
  assumes "searching xd m p mq" and "a \<in> region xd m p" and "d \<in> offsets xd"
  shows "searching xd m p (explore a d mq)"
    and "\<exists>ys. snd (explore a d mq) = snd mq @ ys"
    and "known m a d (snd (explore a d mq))"
proof -
  obtain m1 q where mq: "mq = (m1, q)" by (cases mq)
  have m1: "m1 = mark (set q) m" and q: "distinct q" "p \<in> set q" "set q \<subseteq> region xd m p"
    using assms(1) by (simp_all add: searching_def mq)
  show "searching xd m p (explore a d mq)"
    using q region_step [OF assms(2,3)]
    by (auto simp: explore_def mq m1 searching_def mark_reach mark_insert)
  show "\<exists>ys. snd (explore a d mq) = snd mq @ ys"
    by (simp add: explore_def mq)
  show "known m a d (snd (explore a d mq))"
    by (auto simp: explore_def mq m1 known_def mark_reach)
qed

lemma explore_all_searching:
  assumes s: "searching xd m p mq" and a: "a \<in> region xd m p"
  shows "searching xd m p (explore_all xd a mq)"
    and "\<exists>ys. snd (explore_all xd a mq) = snd mq @ ys"
    and "\<forall>d\<in>offsets xd. known m a d (snd (explore_all xd a mq))"
proof -
  have d: "-2 * xd \<in> offsets xd" "1 \<in> offsets xd" "2 * xd \<in> offsets xd" "-1 \<in> offsets xd"
    by (simp_all add: offsets_def)
  define e1 e2 e3 where "e1 = explore a (-2 * xd) mq" and "e2 = explore a 1 e1" and "e3 = explore a (2 * xd) e2"
  note x1 = explore_searching [OF s a d(1), folded e1_def]
  note x2 = explore_searching [OF x1(1) a d(2), folded e2_def]
  note x3 = explore_searching [OF x2(1) a d(3), folded e3_def]
  note x4 = explore_searching [OF x3(1) a d(4)]
  have all: "explore_all xd a mq = explore a (-1) e3"
    by (simp add: explore_all_def e1_def e2_def e3_def Let_def)
  obtain y2 y3 y4 where ys: "snd e2 = snd e1 @ y2" "snd e3 = snd e2 @ y3" "snd (explore a (-1) e3) = snd e3 @ y4"
    using x2(2) x3(2) x4(2) by metis
  show "searching xd m p (explore_all xd a mq)" using x4(1) all by simp
  show "\<exists>ys. snd (explore_all xd a mq) = snd mq @ ys" using x1(2) ys all by auto
  show "\<forall>d\<in>offsets xd. known m a d (snd (explore_all xd a mq))"
    using known_append [OF x1(3)] known_append [OF x2(3)] known_append [OF x3(3)] x4(3)
    by (simp add: offsets_def all ys)
qed

lemma mark_loop_region:
  assumes "searching xd m p mq" and "k \<le> length (snd mq)" and "finite (region xd m p)"
    and "\<forall>i<k. \<forall>d\<in>offsets xd. known m (snd mq ! i) d (snd mq)"
  shows "\<exists>q. mark_loop xd mq k = Some (mark (region xd m p) m, q) \<and> length q = card (region xd m p)"
  using assms
proof (induction "card (region xd m p) - k" arbitrary: mq k rule: less_induct)
  case less
  obtain m1 q where mq: "mq = (m1, q)" by (cases mq)
  have q: "m1 = mark (set q) m" "distinct q" "p \<in> set q" "set q \<subseteq> region xd m p"
    using less.prems(1) by (simp_all add: searching_def mq)
  have len: "length q \<le> card (region xd m p)"
    using card_mono [OF less.prems(3) q(4)] distinct_card [OF q(2)] by simp
  show ?case
  proof (cases "k = length q")
    case True
    have "region xd m p \<subseteq> set q"
    proof
      fix b assume "b \<in> region xd m p"
      then have "(p, b) \<in> (passage xd m \<inter> UNIV \<times> unmarked m)\<^sup>*" by (simp add: region_def)
      then show "b \<in> set q"
      proof induction
        case base show ?case by (rule q(3))
      next
        case (step b c)
        obtain i where "i < k" "b = q ! i" using step.IH True by (auto simp: in_set_conv_nth)
        moreover obtain d where "d \<in> offsets xd" "m (b + d) AND MAZE_WALL = 0" "c = b + 2 * d" "c \<in> unmarked m"
          using step.hyps(2) by (auto simp: passage_def)
        ultimately show ?case using less.prems(4) by (auto simp: mq known_def)
      qed
    qed
    then have "set q = region xd m p" using q(4) by blast
    then show ?thesis
      using True q distinct_card [OF q(2)] by (subst mark_loop.simps) (simp add: mq)
  next
    case False
    then have k: "k < length q" using less.prems(2) by (simp add: mq)
    define r where "r = explore_all xd (q ! k) mq"
    have "q ! k \<in> region xd m p" using q(4) k by auto
    note r = explore_all_searching [OF less.prems(1) this, folded r_def]
    obtain ys where ys: "snd r = q @ ys" using r(2) mq by auto
    have "known m (snd r ! i) d (snd r)" if "i < k + 1" "d \<in> offsets xd" for i d
    proof (cases "i = k")
      case True then show ?thesis using r(3) that k by (simp add: ys nth_append)
    next
      case False
      then have "known m (q ! i) d q" using less.prems(4) that by (simp add: mq)
      then show ?thesis using that k by (simp add: ys nth_append known_append)
    qed
    then have "\<exists>q'. mark_loop xd r (k + 1) = Some (mark (region xd m p) m, q') \<and> length q' = card (region xd m p)"
      using less.hyps [of "k + 1" r] r(1) ys k len less.prems(3) by auto
    then show ?thesis
      using False by (subst mark_loop.simps) (simp add: mq r_def)
  qed
qed

section \<open>The lattice\<close>

lemma in_odds: "x \<in> set (odds n) \<longleftrightarrow> odd x \<and> 0 < x \<and> x < 2 * n"
proof
  assume "x \<in> set (odds n)"
  then show "odd x \<and> 0 < x \<and> x < 2 * n" by (auto simp: odds_def)
next
  assume x: "odd x \<and> 0 < x \<and> x < 2 * n"
  then obtain k where k: "x = 2 * k + 1" by (auto elim: oddE)
  have "x = 2 * int (nat k) + 1" "nat k < nat n" using x k by auto
  then show "x \<in> set (odds n)" unfolding odds_def by (auto simp: image_iff intro!: bexI [of _ "nat k"])
qed

lemma odds_range: "x \<in> set (odds n) \<Longrightarrow> 0 < x \<and> x < 2 * n"
  by (simp add: in_odds)

lemma odds_step:
  "x \<in> set (odds n) \<Longrightarrow> x + 1 \<noteq> 2 * n \<Longrightarrow> x + 2 \<in> set (odds n)"
  "x \<in> set (odds n) \<Longrightarrow> x - 1 \<noteq> 0 \<Longrightarrow> x - 2 \<in> set (odds n)"
  unfolding in_odds by presburger+

lemma length_odds [simp]: "length (odds n) = nat n"
  by (simp add: odds_def)

lemma distinct_odds [simp]: "distinct (odds n)"
  by (simp add: odds_def distinct_map inj_on_def)

definition lattice :: "int \<Rightarrow> int \<Rightarrow> int set" where
  "lattice xd yd = (\<lambda>(x, y). maze_index xd x y) ` (set (odds xd) \<times> set (odds yd))"

lemma latticeI: "x \<in> set (odds xd) \<Longrightarrow> y \<in> set (odds yd) \<Longrightarrow> maze_index xd x y \<in> lattice xd yd"
  by (auto simp: lattice_def)

lemma latticeE:
  assumes "p \<in> lattice xd yd"
  obtains x y where "p = maze_index xd x y" "x \<in> set (odds xd)" "y \<in> set (odds yd)"
  using assms by (auto simp: lattice_def)

text \<open>Positions in one row are distinct indices; column \<open>2 xd\<close> is column 0 of the next row.\<close>

lemma maze_index_eq:
  assumes "0 \<le> x" "x < 2 * xd" "0 \<le> x'" "x' < 2 * xd"
  shows "maze_index xd x y = maze_index xd x' y' \<longleftrightarrow> x = x' \<and> y = y'"
proof
  assume e: "maze_index xd x y = maze_index xd x' y'"
  have d: "(a + (b + 1) * xd * 2) div (2 * xd) = b + 1" if "0 \<le> a" "a < 2 * xd" for a b
    using that by (simp add: div_add1_eq ac_simps)
  have "y = y'"
    using d [of x y] d [of x' y'] assms e by (simp add: maze_index_def)
  then show "x = x' \<and> y = y'" using e by (simp add: maze_index_def)
qed simp

lemma card_lattice: "card (lattice xd yd) = nat xd * nat yd"
proof -
  have "inj_on (\<lambda>(x, y). maze_index xd x y) (set (odds xd) \<times> set (odds yd))"
    by (intro inj_onI) (auto simp: maze_index_eq dest!: odds_range)
  then show ?thesis
    by (simp add: lattice_def card_image card_cartesian_product distinct_card)
qed

lemma finite_lattice [simp]: "finite (lattice xd yd)"
  by (simp add: lattice_def)

lemma in_inner: "x \<in> set (inner n) \<longleftrightarrow> 0 < x \<and> x < 2 * n"
proof
  assume "x \<in> set (inner n)"
  then show "0 < x \<and> x < 2 * n" by (auto simp: inner_def)
next
  assume "0 < x \<and> x < 2 * n"
  then show "x \<in> set (inner n)" unfolding inner_def by (auto simp: image_iff intro!: bexI [of _ "nat (x - 1)"])
qed

lemma distinct_inner [simp]: "distinct (inner n)"
  by (simp add: inner_def distinct_map inj_on_def)

lemma odds_inner: "set (odds n) \<subseteq> set (inner n)"
  by (auto simp: in_odds in_inner)

text \<open>The frame: the boundary is a wall, but for its corners.\<close>

definition framed :: "int \<Rightarrow> int \<Rightarrow> (int \<Rightarrow> u8) \<Rightarrow> bool" where
  "framed xd yd m \<longleftrightarrow>
     (\<forall>y\<in>set (inner yd). m (maze_index xd 0 y) AND MAZE_WALL \<noteq> 0 \<and> m (maze_index xd (2 * xd) y) AND MAZE_WALL \<noteq> 0) \<and>
     (\<forall>x\<in>set (inner xd). m (maze_index xd x 0) AND MAZE_WALL \<noteq> 0 \<and> m (maze_index xd x (2 * yd)) AND MAZE_WALL \<noteq> 0)"

lemma index_moves:
  "maze_index xd x y + 1 = maze_index xd (x + 1) y" "maze_index xd x y - 1 = maze_index xd (x - 1) y"
  "maze_index xd x y + 2 = maze_index xd (x + 2) y" "maze_index xd x y - 2 = maze_index xd (x - 2) y"
  "maze_index xd x y + 2 * xd = maze_index xd x (y + 1)" "maze_index xd x y - 2 * xd = maze_index xd x (y - 1)"
  "maze_index xd x y + 4 * xd = maze_index xd x (y + 2)" "maze_index xd x y - 4 * xd = maze_index xd x (y - 2)"
  by (simp_all add: maze_index_def algebra_simps)

lemma passage_lattice:
  assumes "framed xd yd m" and "p \<in> lattice xd yd" and "(p, q) \<in> passage xd m"
  shows "q \<in> lattice xd yd"
proof -
  obtain x y where p: "p = maze_index xd x y" and x: "x \<in> set (odds xd)" and y: "y \<in> set (odds yd)"
    using assms(2) by (rule latticeE)
  obtain d where d: "d \<in> offsets xd" "m (p + d) AND MAZE_WALL = 0" "q = p + 2 * d"
    using assms(3) by (auto simp: passage_def)
  have fx: "m (maze_index xd 0 y) AND MAZE_WALL \<noteq> 0" "m (maze_index xd (2 * xd) y) AND MAZE_WALL \<noteq> 0"
    and fy: "m (maze_index xd x 0) AND MAZE_WALL \<noteq> 0" "m (maze_index xd x (2 * yd)) AND MAZE_WALL \<noteq> 0"
    using assms(1) x y odds_inner by (auto simp: framed_def)
  consider "d = -2 * xd" | "d = 1" | "d = 2 * xd" | "d = -1"
    using d(1) by (auto simp: offsets_def)
  then show ?thesis
  proof cases
    case 1
    have "y - 1 \<noteq> 0" using d(2) fy(1) 1 p index_moves(6) by auto
    then show ?thesis using latticeI [OF x odds_step(2) [OF y]] d(3) 1 p by (simp add: index_moves)
  next
    case 2
    have "x + 1 \<noteq> 2 * xd" using d(2) fx(2) 2 p index_moves(1) by auto
    then show ?thesis using latticeI [OF odds_step(1) [OF x] y] d(3) 2 p by (simp add: index_moves)
  next
    case 3
    have "y + 1 \<noteq> 2 * yd" using d(2) fy(2) 3 p index_moves(5) by auto
    then show ?thesis using latticeI [OF x odds_step(1) [OF y]] d(3) 3 p by (simp add: index_moves)
  next
    case 4
    have "x - 1 \<noteq> 0" using d(2) fx(1) 4 p index_moves(2) by auto
    then show ?thesis using latticeI [OF odds_step(2) [OF x] y] d(3) 4 p by (simp add: index_moves)
  qed
qed

lemma region_lattice:
  assumes "framed xd yd m" and "p \<in> lattice xd yd"
  shows "region xd m p \<subseteq> lattice xd yd"
proof
  fix q assume "q \<in> region xd m p"
  then have "(p, q) \<in> (passage xd m \<inter> UNIV \<times> unmarked m)\<^sup>*" by (simp add: region_def)
  then show "q \<in> lattice xd yd"
    by induction (use assms passage_lattice in blast)+
qed

lemma mark_maze_area_region:
  assumes "framed (maze_x_dim s) (maze_y_dim s) (cells s)"
    and "x \<in> set (odds (maze_x_dim s))" and "y \<in> set (odds (maze_y_dim s))"
  shows "mark_maze_area x y s =
    Some (int (card (region (maze_x_dim s) (cells s) (idx s x y))),
          s\<lparr>cells := mark (region (maze_x_dim s) (cells s) (idx s x y)) (cells s)\<rparr>)"
proof -
  let ?p = "idx s x y"
  let ?R = "region (maze_x_dim s) (cells s) ?p"
  have "finite ?R"
    using region_lattice [OF assms(1) latticeI [OF assms(2,3)]] finite_lattice by (rule finite_subset)
  moreover have "searching (maze_x_dim s) (cells s) ?p ((cells s)(?p := cells s ?p OR MAZE_REACH), [?p])"
    by (auto simp: searching_def mark_def)
  ultimately obtain q where
    "mark_loop (maze_x_dim s) ((cells s)(?p := cells s ?p OR MAZE_REACH), [?p]) 0 = Some (mark ?R (cells s), q)"
    "length q = card ?R"
    using mark_loop_region [of "maze_x_dim s" "cells s" ?p _ 0] by auto
  then show ?thesis by (simp add: mark_maze_area_def Let_def)
qed

section \<open>Connecting\<close>

lemma in_odds_1: "1 \<in> set (odds n) \<longleftrightarrow> 0 < n"
  by (auto simp: in_odds)

lemma framed_upd:
  assumes "framed xd yd m" and "0 < a" "a < 2 * xd" "0 < b" "b < 2 * yd"
  shows "framed xd yd (m(maze_index xd a b := v))"
proof -
  have w: "maze_index xd (2 * xd) y = maze_index xd 0 (y + 1)" for y
    by (simp add: maze_index_def algebra_simps)
  have "maze_index xd 0 y \<noteq> maze_index xd a b" "maze_index xd (2 * xd) y \<noteq> maze_index xd a b" for y
    using assms(2-) by (simp_all add: w maze_index_eq)
  moreover have "maze_index xd x 0 \<noteq> maze_index xd a b" "maze_index xd x (2 * yd) \<noteq> maze_index xd a b"
    if "x \<in> set (inner xd)" for x
    using assms(2-) that by (simp_all add: maze_index_eq in_inner)
  ultimately show ?thesis using assms(1) by (simp add: framed_def)
qed

lemma between_not_lattice:
  assumes "0 < a" "a < 2 * xd" and "\<not> (odd a \<and> odd b)"
  shows "maze_index xd a b \<notin> lattice xd yd"
proof
  assume "maze_index xd a b \<in> lattice xd yd"
  then obtain x y where e: "maze_index xd a b = maze_index xd x y" and x: "x \<in> set (odds xd)" and y: "y \<in> set (odds yd)"
    by (rule latticeE)
  have "a = x \<and> b = y"
    using e assms(1,2) odds_range [OF x] by (simp add: maze_index_eq)
  then show False using assms(3) x y by (simp add: in_odds)
qed

definition marked :: "int \<Rightarrow> int \<Rightarrow> (int \<Rightarrow> u8) \<Rightarrow> int set" where
  "marked xd yd m = lattice xd yd - unmarked m"

definition linked :: "int \<Rightarrow> (int \<Rightarrow> u8) \<Rightarrow> int set" where
  "linked xd m = (passage xd m)\<^sup>* `` {maze_index xd 1 1}"

lemma linked_step: "p \<in> linked xd m \<Longrightarrow> (p, q) \<in> passage xd m \<Longrightarrow> q \<in> linked xd m"
  unfolding linked_def by (auto intro: rtrancl_into_rtrancl)

lemma finite_marked [simp]: "finite (marked xd yd m)"
  by (simp add: marked_def)

lemma card_marked_le: "0 \<le> xd \<Longrightarrow> 0 \<le> yd \<Longrightarrow> int (card (marked xd yd m)) \<le> xd * yd"
  using card_mono [of "lattice xd yd" "marked xd yd m"] card_lattice [of xd yd]
  by (simp add: marked_def) (metis int_nat_eq nat_mult_distrib of_nat_le_iff of_nat_mult)

lemma all_marked:
  assumes "0 \<le> xd" "0 \<le> yd" and "xd * yd \<le> int (card (marked xd yd m))"
  shows "marked xd yd m = lattice xd yd"
proof (rule card_subset_eq)
  show "marked xd yd m \<subseteq> lattice xd yd" by (auto simp: marked_def)
  have "int (card (marked xd yd m)) = xd * yd"
    using card_marked_le [of xd yd m] assms by simp
  then show "card (marked xd yd m) = card (lattice xd yd)"
    using assms by (simp add: card_lattice nat_mult_distrib flip: nat_mult_distrib)
qed simp

text \<open>The wall \<open>join_wall\<close> takes lies between the point and a marked one.\<close>

lemma join_wall_SomeD:
  assumes "join_wall s x y = Some s1" and "x \<in> set (odds (maze_x_dim s))" and "y \<in> set (odds (maze_y_dim s))"
  obtains a b d where "s1 = set_cell a b MAZE_NONE s" "0 < a" "a < 2 * maze_x_dim s" "0 < b" "b < 2 * maze_y_dim s"
    "\<not> (odd a \<and> odd b)" "d \<in> offsets (maze_x_dim s)" "idx s a b = idx s x y + d"
    "idx s x y + 2 * d \<in> marked (maze_x_dim s) (maze_y_dim s) (cells s)"
proof -
  let ?X = "maze_x_dim s" and ?Y = "maze_y_dim s"
  note r = odds_range [OF assms(2)] odds_range [OF assms(3)]
  have o: "odd x" "odd y" using assms(2,3) by (simp_all add: in_odds)
  have mk: "maze_index ?X a b \<in> marked ?X ?Y (cells s)"
    if "cell s a b AND MAZE_REACH \<noteq> 0" "a \<in> set (odds ?X)" "b \<in> set (odds ?Y)" for a b
    using that by (simp add: marked_def unmarked_def cell_def latticeI)
  consider (up) "y > 1" "cell s x (y - 2) AND MAZE_REACH \<noteq> 0" "s1 = set_cell x (y - 1) MAZE_NONE s"
    | (left) "x > 1" "cell s (x - 2) y AND MAZE_REACH \<noteq> 0" "s1 = set_cell (x - 1) y MAZE_NONE s"
    | (right) "x < 2 * ?X - 1" "cell s (x + 2) y AND MAZE_REACH \<noteq> 0" "s1 = set_cell (x + 1) y MAZE_NONE s"
    | (down) "y < 2 * ?Y - 1" "cell s x (y + 2) AND MAZE_REACH \<noteq> 0" "s1 = set_cell x (y + 1) MAZE_NONE s"
    using assms(1) by (auto simp: join_wall_def split: if_splits)
  then show ?thesis
  proof cases
    case up
    show ?thesis
      using that [of x "y - 1" "-2 * ?X"] up r o mk [OF up(2) assms(2) odds_step(2) [OF assms(3)]]
      by (simp add: offsets_def index_moves)
  next
    case left
    show ?thesis
      using that [of "x - 1" y "-1"] left r o mk [OF left(2) odds_step(2) [OF assms(2)] assms(3)]
      by (simp add: offsets_def index_moves)
  next
    case right
    show ?thesis
      using that [of "x + 1" y 1] right r o mk [OF right(2) odds_step(1) [OF assms(2)] assms(3)]
      by (simp add: offsets_def index_moves)
  next
    case down
    show ?thesis
      using that [of x "y + 1" "2 * ?X"] down r o mk [OF down(2) assms(2) odds_step(1) [OF assms(3)]]
      by (simp add: offsets_def index_moves)
  qed
qed

text \<open>The bytes from the upper left to the lower right corner of the boundary, and what worms and joining leave there.\<close>

definition field :: "int \<Rightarrow> int \<Rightarrow> int set" where
  "field xd yd = {maze_index xd 0 0 .. maze_index xd (2 * xd) (2 * yd)}"

definition bare :: "int \<Rightarrow> int \<Rightarrow> (int \<Rightarrow> u8) \<Rightarrow> bool" where
  "bare xd yd m \<longleftrightarrow>
     (\<forall>p\<in>field xd yd. m p AND MAZE_FRUIT = 0 \<and> m p AND MAZE_EXIT = 0 \<and> (p \<notin> lattice xd yd \<longrightarrow> m p AND MAZE_REACH = 0))"

lemma bare_upd [simp]: "bare xd yd m \<Longrightarrow> bare xd yd (m(p := MAZE_NONE))"
  by (simp add: bare_def)

lemma reach_keeps_rest [simp]:
  "(v OR MAZE_REACH) AND MAZE_FRUIT = v AND MAZE_FRUIT" "(v OR MAZE_REACH) AND MAZE_EXIT = v AND MAZE_EXIT"
  by (simp_all add: MAZE_REACH_def MAZE_FRUIT_def MAZE_EXIT_def bit.conj_disj_distrib2)

lemma bare_mark: "R \<subseteq> lattice xd yd \<Longrightarrow> bare xd yd m \<Longrightarrow> bare xd yd (mark R m)"
  by (auto simp: bare_def mark_def)

text \<open>The state between rounds: \<open>remaining\<close> counts the unmarked points, and marked points are linked.\<close>

definition connecting :: "int \<Rightarrow> int \<Rightarrow> maze \<Rightarrow> int \<Rightarrow> bool" where
  "connecting xd yd s remaining \<longleftrightarrow>
     maze_x_dim s = xd \<and> maze_y_dim s = yd \<and> 0 < xd \<and> 0 < yd \<and> framed xd yd (cells s) \<and>
     maze_index xd 1 1 \<in> marked xd yd (cells s) \<and> marked xd yd (cells s) \<subseteq> linked xd (cells s) \<and>
     (\<forall>p\<in>lattice xd yd. cells s p AND MAZE_WALL = 0) \<and> bare xd yd (cells s) \<and>
     remaining = xd * yd - int (card (marked xd yd (cells s)))"

lemma passage_mono:
  assumes "\<And>a. m a AND MAZE_WALL = 0 \<Longrightarrow> m' a AND MAZE_WALL = 0"
  shows "passage xd m \<subseteq> passage xd m'" and "linked xd m \<subseteq> linked xd m'"
proof -
  show "passage xd m \<subseteq> passage xd m'" using assms by (auto simp: passage_def)
  then show "linked xd m \<subseteq> linked xd m'" unfolding linked_def by (meson Image_mono rtrancl_mono subset_refl)
qed

lemma marked_mark:
  "R \<subseteq> lattice xd yd \<Longrightarrow> marked xd yd (mark R m) = marked xd yd m \<union> R"
  by (auto simp: marked_def unmarked_def mark_def)

lemma region_linked:
  assumes "p \<in> linked xd m" shows "region xd m p \<subseteq> linked xd m"
proof
  fix q assume "q \<in> region xd m p"
  then have "(p, q) \<in> (passage xd m \<inter> UNIV \<times> unmarked m)\<^sup>*" by (simp add: region_def)
  then show "q \<in> linked xd m" by induction (use assms linked_step in blast)+
qed

lemma region_unmarked: "p \<in> unmarked m \<Longrightarrow> region xd m p \<subseteq> unmarked m"
  by (auto simp: region_def elim: rtranclE)

text \<open>Marking from an unmarked linked point keeps the state and counts what it marks.\<close>

lemma connecting_mark:
  assumes c: "connecting xd yd s remaining" and x: "x \<in> set (odds xd)" and y: "y \<in> set (odds yd)"
    and p: "maze_index xd x y \<in> unmarked (cells s)" "maze_index xd x y \<in> linked xd (cells s)"
  shows "\<exists>n s2. mark_maze_area x y s = Some (n, s2) \<and> 0 < n \<and> connecting xd yd s2 (remaining - n)"
proof -
  let ?m = "cells s" and ?R = "region xd (cells s) (maze_index xd x y)"
  have d: "maze_x_dim s = xd" "maze_y_dim s = yd" "framed xd yd ?m" using c by (simp_all add: connecting_def)
  have R: "?R \<subseteq> lattice xd yd" using region_lattice [OF d(3) latticeI [OF x y]] .
  then have fin: "finite ?R" using finite_lattice by (rule finite_subset)
  have lm: "linked xd (mark ?R ?m) = linked xd ?m" by (simp add: linked_def passage_def)
  have un: "marked xd yd ?m \<inter> ?R = {}" using region_unmarked [OF p(1)] by (auto simp: marked_def)
  have "connecting xd yd (s\<lparr>cells := mark ?R ?m\<rparr>) (remaining - int (card ?R))"
    using c region_linked [OF p(2)] d(3)
    by (auto simp: connecting_def marked_mark [OF R] bare_mark [OF R] lm framed_def card_Un_disjoint [OF _ fin un])
  moreover have "0 < card ?R" using fin region_start by (metis card_gt_0_iff empty_iff)
  ultimately show ?thesis
    using mark_maze_area_region [of s x y] d x y by simp
qed

lemma connecting_join:
  assumes c: "connecting xd yd s remaining" and x: "x \<in> set (odds xd)" and y: "y \<in> set (odds yd)"
    and p: "maze_index xd x y \<in> unmarked (cells s)" and j: "join_wall s x y = Some s1"
  shows "\<exists>n s2. mark_maze_area x y s1 = Some (n, s2) \<and> 0 < n \<and> connecting xd yd s2 (remaining - n)"
proof -
  let ?p = "maze_index xd x y"
  have d: "maze_x_dim s = xd" "maze_y_dim s = yd" using c by (simp_all add: connecting_def)
  obtain a b d where j: "s1 = set_cell a b MAZE_NONE s" "0 < a" "a < 2 * xd" "0 < b" "b < 2 * yd"
    "\<not> (odd a \<and> odd b)" "d \<in> offsets xd" "maze_index xd a b = ?p + d" "?p + 2 * d \<in> marked xd yd (cells s)"
    using join_wall_SomeD [OF j] x y d by metis
  let ?m = "(cells s)(maze_index xd a b := MAZE_NONE)"
  have nl: "maze_index xd a b \<notin> lattice xd yd" using between_not_lattice j(2,3,6) by blast
  have mk: "marked xd yd ?m = marked xd yd (cells s)"
    using nl by (auto simp: marked_def unmarked_def)
  have lk: "linked xd (cells s) \<subseteq> linked xd ?m" by (rule passage_mono) (simp add: fun_upd_def)
  have "connecting xd yd s1 remaining"
    using c framed_upd [OF _ j(2-5), of "cells s" MAZE_NONE] lk nl d
    by (auto simp: connecting_def j(1) set_cell_def mk)
  moreover have "?p \<in> linked xd ?m"
  proof (rule linked_step)
    show "?p + 2 * d \<in> linked xd ?m" using c j(9) lk by (auto simp: connecting_def)
    have "-d \<in> offsets xd" using j(7) by (auto simp: offsets_def)
    then show "(?p + 2 * d, ?p) \<in> passage xd ?m"
      by (auto simp: passage_def j(8) intro!: bexI [of _ "-d"])
  qed
  moreover have "?p \<in> unmarked ?m" using p by (auto simp: unmarked_def)
  ultimately show ?thesis using connecting_mark [OF _ x y, of s1 remaining] d by (simp add: j(1) set_cell_def)
qed

lemma odd_of_below: "a < n \<Longrightarrow> a * 2 + 1 < 2 * (n :: int)"
  by simp

lemma odd_below: "odd a \<Longrightarrow> \<not> 2 * n < a + 2 \<Longrightarrow> a + 2 < 2 * (n :: int)"
  by presburger

lemma pick_until_SomeD:
  assumes "pick_until acceptable xd yd rs = Some (x, y, rs')" and "0 < xd" and "0 < yd"
  shows "acceptable x y \<and> x \<in> set (odds xd) \<and> y \<in> set (odds yd)"
  using assms
proof (induction acceptable xd yd rs rule: pick_until.induct)
  case (1 acceptable xd yd r1 r2 rs)
  have "int r1 mod xd * 2 + 1 \<in> set (odds xd)" "int r2 mod yd * 2 + 1 \<in> set (odds yd)"
    using 1(3,4) odd_of_below [of "int r1 mod xd" xd] odd_of_below [of "int r2 mod yd" yd]
    by (simp_all add: in_odds add_pos_nonneg)
  then show ?case using 1 by (auto simp: Let_def split: if_splits)
qed simp_all

lemma scan_next_odds:
  assumes "x \<in> set (odds (maze_x_dim s))" and "y \<in> set (odds (maze_y_dim s))"
    and "scan_next s x y = (x1, y1)"
  shows "x1 \<in> set (odds (maze_x_dim s))" and "y1 \<in> set (odds (maze_y_dim s))"
  using assms using odd_below [of x "maze_x_dim s"] odd_below [of y "maze_y_dim s"]
  by (auto simp: scan_next_def in_odds mult.commute split: if_splits)

lemma connecting_cell:
  "connecting xd yd s r \<Longrightarrow> x \<in> set (odds xd) \<Longrightarrow> y \<in> set (odds yd) \<Longrightarrow>
   cell s x y AND MAZE_REACH = 0 \<longleftrightarrow> maze_index xd x y \<in> unmarked (cells s)"
  by (simp add: connecting_def cell_def unmarked_def)

lemmas connect_induct = connect.raw_induct
  [where xa = "(((((s, remaining), trials), x), y), rs)" for s remaining trials x y rs,
   unfolded prod.case, rotated, consumes 1, case_names step]

lemma connect_correct:
  assumes "connect s remaining trials x y rs = Some (s', rs')"
    and "connecting xd yd s remaining" and "x \<in> set (odds xd)" and "y \<in> set (odds yd)"
  shows "\<exists>r\<le>0. connecting xd yd s' r"
  using assms
proof (induction s remaining trials x y rs "(s', rs')" rule: connect_induct)
  case (step connect s remaining trials x y rs)
  let ?scan = "remaining < 20 \<or> trials + 1 > 100"
  let ?point = "if ?scan then (let (x1, y1) = scan_next s x y in Some (x1, y1, rs))
                else pick_until (\<lambda>x y. cell s x y AND MAZE_REACH = 0) (maze_x_dim s) (maze_y_dim s) rs"
  have d: "maze_x_dim s = xd" "maze_y_dim s = yd" "0 < xd" "0 < yd" using step(3) by (simp_all add: connecting_def)
  obtain x1 y1 rs1 where p: "?point = Some (x1, y1, rs1)"
    using step(2) by (auto simp: Let_def split: option.splits)
  have odd: "x1 \<in> set (odds xd)" "y1 \<in> set (odds yd)" and un: "\<not> ?scan \<Longrightarrow> cell s x1 y1 AND MAZE_REACH = 0"
    using p scan_next_odds [of x s y x1 y1] step(4,5) d
      pick_until_SomeD [of "\<lambda>x y. cell s x y AND MAZE_REACH = 0" xd yd rs x1 y1 rs1]
    by (auto split: if_splits prod.splits)
  let ?joined = "if ?scan \<and> cell s x1 y1 AND MAZE_REACH \<noteq> 0 then None else join_wall s x1 y1"
  show ?case
  proof (cases ?joined)
    case None
    then have "\<exists>t. (if remaining > 0 then connect s remaining t x1 y1 rs1 else Some (s, rs1)) = Some (s', rs')"
      using step(2) p by (auto simp: Let_def)
    then show ?thesis using step(1) [OF _ step(3) odd] step(3) by (auto simp: not_less split: if_splits)
  next
    case (Some s1)
    then have "cell s x1 y1 AND MAZE_REACH = 0" "join_wall s x1 y1 = Some s1" using un by (auto split: if_splits)
    then obtain n s2 where m: "mark_maze_area x1 y1 s1 = Some (n, s2)" "connecting xd yd s2 (remaining - n)"
      using connecting_join [OF step(3) odd] connecting_cell [OF step(3) odd] by blast
    have "\<exists>t. (if remaining - n > 0 then connect s2 (remaining - n) t x1 y1 rs1 else Some (s2, rs1)) = Some (s', rs')"
      using step(2) p Some m(1) by (auto simp: Let_def)
    then show ?thesis
      using step(1) [OF _ m(2) odd] exI [of "\<lambda>r. r \<le> 0 \<and> connecting xd yd s2 r" "remaining - n"] m(2)
      by (auto simp: not_less split: if_splits)
  qed
qed

text \<open>The scan visits every lattice point.\<close>

definition scans :: "maze \<Rightarrow> ((int \<times> int) \<times> (int \<times> int)) set" where
  "scans s = {((x, y), scan_next s x y) |x y. True}"

lemma scan_row:
  assumes "x \<in> set (odds (maze_x_dim s))" and "x + 2 * int k < 2 * maze_x_dim s"
  shows "((x, y), (x + 2 * int k, y)) \<in> (scans s)\<^sup>*"
  using assms(2)
proof (induction k)
  case (Suc k)
  have "((x + 2 * int k, y), (x + 2 * int (Suc k), y)) \<in> scans s"
    using Suc.prems by (auto simp: scans_def scan_next_def)
  then show ?case using Suc by (auto intro: rtrancl_into_rtrancl)
qed simp

lemma odds_upto:
  assumes "x \<in> set (odds n)" and "x' \<in> set (odds n)" and "x \<le> x'"
  obtains k where "x' = x + 2 * int k"
proof -
  have "even (x' - x)" using assms by (simp add: in_odds)
  then obtain i where i: "x' - x = 2 * i" by (rule evenE)
  then show ?thesis using that [of "nat i"] assms(3) by simp
qed

lemma scan_to_row:
  assumes "x \<in> set (odds (maze_x_dim s))"
  shows "((x, y), (1, if y + 2 > 2 * maze_y_dim s then y + 2 - 2 * maze_y_dim s else y + 2)) \<in> (scans s)\<^sup>+"
proof -
  have l: "2 * maze_x_dim s - 1 \<in> set (odds (maze_x_dim s))" using assms by (auto simp: in_odds)
  obtain k where k: "2 * maze_x_dim s - 1 = x + 2 * int k"
    using odds_upto [OF assms l] odds_range [OF assms] by auto
  have "((x, y), (2 * maze_x_dim s - 1, y)) \<in> (scans s)\<^sup>*"
    using scan_row [OF assms, of k y] k by simp
  moreover have "((2 * maze_x_dim s - 1, y), (1, if y + 2 > 2 * maze_y_dim s then y + 2 - 2 * maze_y_dim s else y + 2)) \<in> scans s"
    by (auto simp: scans_def scan_next_def)
  ultimately show ?thesis by (rule rtrancl_into_trancl1)
qed

lemma scan_rows:
  assumes "0 < maze_x_dim s" and "y \<in> set (odds (maze_y_dim s))" and "y + 2 * int k < 2 * maze_y_dim s"
  shows "((1, y), (1, y + 2 * int k)) \<in> (scans s)\<^sup>*"
  using assms(3)
proof (induction k)
  case (Suc k)
  have "((1, y), (1, y + 2 * int k)) \<in> (scans s)\<^sup>*" by (rule Suc.IH) (use Suc.prems in simp)
  moreover have "((1, y + 2 * int k), (1, y + 2 * int (Suc k))) \<in> (scans s)\<^sup>+"
    using scan_to_row [of 1 s "y + 2 * int k"] assms(1) Suc.prems by (simp add: in_odds_1 algebra_simps)
  ultimately show ?case by (meson rtrancl_trans trancl_into_rtrancl)
qed simp

lemma scan_reaches:
  assumes x: "x \<in> set (odds (maze_x_dim s))" "x' \<in> set (odds (maze_x_dim s))"
    and y: "y \<in> set (odds (maze_y_dim s))" "y' \<in> set (odds (maze_y_dim s))"
  shows "((x, y), (x', y')) \<in> (scans s)\<^sup>+"
proof -
  let ?X = "maze_x_dim s" and ?Y = "maze_y_dim s"
  have pos: "0 < ?X" "0 < ?Y" using odds_range [OF x(1)] odds_range [OF y(1)] by auto
  have l: "2 * ?Y - 1 \<in> set (odds ?Y)" using pos by (auto simp: in_odds)
  have to_last: "((1, z), (1, 2 * ?Y - 1)) \<in> (scans s)\<^sup>*" if z: "z \<in> set (odds ?Y)" for z
  proof -
    obtain k where "2 * ?Y - 1 = z + 2 * int k" using odds_upto [OF z l] odds_range [OF z] by auto
    then show ?thesis using scan_rows [OF pos(1) z, of k] by simp
  qed
  have from1: "((1, 1), (x', y')) \<in> (scans s)\<^sup>*"
  proof -
    obtain k where k: "y' = 1 + 2 * int k" using odds_upto [of 1 ?Y y'] y(2) odds_range [OF y(2)] pos by (auto simp: in_odds_1)
    obtain j where j: "x' = 1 + 2 * int j" using odds_upto [of 1 ?X x'] x(2) odds_range [OF x(2)] pos by (auto simp: in_odds_1)
    have "((1, 1), (1, y')) \<in> (scans s)\<^sup>*"
      using scan_rows [OF pos(1), of 1 k] k odds_range [OF y(2)] pos by (simp add: in_odds_1)
    moreover have "((1, y'), (x', y')) \<in> (scans s)\<^sup>*"
      using scan_row [of 1 s j y'] j odds_range [OF x(2)] pos by (simp add: in_odds_1)
    ultimately show ?thesis by (rule rtrancl_trans)
  qed
  define z where "z = (if y + 2 > 2 * ?Y then y + 2 - 2 * ?Y else y + 2)"
  have z: "z \<in> set (odds ?Y)" using y(1) by (auto simp: z_def in_odds odd_below)
  have "((1, 2 * ?Y - 1), (1, 1)) \<in> (scans s)\<^sup>+"
    using scan_to_row [of 1 s "2 * ?Y - 1"] pos by (simp add: in_odds_1)
  then have "((1, z), (x', y')) \<in> (scans s)\<^sup>*"
    using to_last [OF z] from1 by (meson rtrancl_trans trancl_into_rtrancl)
  then show ?thesis using scan_to_row [OF x(1), of y] unfolding z_def by (rule trancl_rtrancl_trancl [rotated])
qed

lemma join_wall_up: "y > 1 \<Longrightarrow> cell s x (y - 2) AND MAZE_REACH \<noteq> 0 \<Longrightarrow> join_wall s x y \<noteq> None"
  and join_wall_left: "x > 1 \<Longrightarrow> cell s (x - 2) y AND MAZE_REACH \<noteq> 0 \<Longrightarrow> join_wall s x y \<noteq> None"
  by (simp_all add: join_wall_def)

text \<open>While points are unmarked, one of them has a marked neighbour.\<close>

lemma joinable_exists:
  assumes c: "connecting xd yd s remaining" and r: "0 < remaining"
  obtains x y where "x \<in> set (odds xd)" "y \<in> set (odds yd)"
    "maze_index xd x y \<in> unmarked (cells s)" "join_wall s x y \<noteq> None"
proof -
  have d: "maze_x_dim s = xd" "maze_y_dim s = yd" "0 < xd" "0 < yd" using c by (simp_all add: connecting_def)
  have "\<exists>x y. x \<in> set (odds xd) \<and> y \<in> set (odds yd) \<and> cell s x y AND MAZE_REACH = 0 \<and> join_wall s x y \<noteq> None"
  proof (rule ccontr)
    assume "\<not> ?thesis"
    then have stuck: "cell s x y AND MAZE_REACH \<noteq> 0"
      if "join_wall s x y \<noteq> None" "x \<in> set (odds xd)" "y \<in> set (odds yd)" for x y
      using that by blast
    have first: "cell s 1 1 AND MAZE_REACH \<noteq> 0"
      using c by (simp add: connecting_def marked_def unmarked_def cell_def)
    have row: "cell s (1 + 2 * int i) 1 AND MAZE_REACH \<noteq> 0" if "1 + 2 * int i < 2 * xd" for i
      using that
    proof (induction i)
      case (Suc i)
      have "cell s (1 + 2 * int i) 1 AND MAZE_REACH \<noteq> 0" by (rule Suc.IH) (use Suc.prems in simp)
      then show ?case
        using stuck [OF join_wall_left, of "1 + 2 * int (Suc i)" 1] Suc.prems d by (simp add: in_odds)
    qed (simp add: first)
    have all: "cell s x (1 + 2 * int j) AND MAZE_REACH \<noteq> 0"
      if j: "1 + 2 * int j < 2 * yd" and x: "x \<in> set (odds xd)" for j x
      using j
    proof (induction j)
      case 0
      obtain i where "x = 1 + 2 * int i"
        using odds_upto [of 1 xd x] x odds_range [OF x] d by (auto simp: in_odds_1)
      then show ?case using row [of i] odds_range [OF x] by simp
    next
      case (Suc j)
      have "cell s x (1 + 2 * int j) AND MAZE_REACH \<noteq> 0" by (rule Suc.IH) (use Suc.prems in simp)
      then show ?case
        using stuck [OF join_wall_up, of "1 + 2 * int (Suc j)" x] Suc.prems x by (simp add: in_odds)
    qed
    have "marked xd yd (cells s) = lattice xd yd"
    proof
      show "lattice xd yd \<subseteq> marked xd yd (cells s)"
      proof
        fix p assume "p \<in> lattice xd yd"
        then obtain x y where p: "p = maze_index xd x y" and x: "x \<in> set (odds xd)" and y: "y \<in> set (odds yd)"
          by (rule latticeE)
        obtain j where "y = 1 + 2 * int j"
          using odds_upto [of 1 yd y] y odds_range [OF y] d by (auto simp: in_odds_1)
        then have "cell s x y AND MAZE_REACH \<noteq> 0" using all [of j x] x odds_range [OF y] by simp
        then show "p \<in> marked xd yd (cells s)"
          using p latticeI [OF x y] d by (simp add: marked_def unmarked_def cell_def)
      qed
    qed (auto simp: marked_def)
    then show False using c r d by (simp add: connecting_def card_lattice)
  qed
  then show ?thesis using that connecting_cell [OF c] by blast
qed

text \<open>Once the scan has begun it joins everything without further random numbers, from anywhere.\<close>

lemma connect_scan:
  assumes "remaining < 20 \<or> trials + 1 > 100"
  shows "connect s remaining trials x y rs =
    (let (x1, y1) = scan_next s x y; t = (if remaining < 20 then trials else trials + 1)
     in case (if cell s x1 y1 AND MAZE_REACH \<noteq> 0 then None else join_wall s x1 y1) of
          None \<Rightarrow> if remaining > 0 then connect s remaining t x1 y1 rs else Some (s, rs)
        | Some s1 \<Rightarrow>
            (case mark_maze_area x1 y1 s1 of
               None \<Rightarrow> None
             | Some (n, s2) \<Rightarrow>
                 if remaining - n > 0 then connect s2 (remaining - n) t x1 y1 rs else Some (s2, rs)))"
  using assms by (subst connect.simps) (simp add: Let_def split: prod.split)

lemma connect_scan_total:
  assumes "connecting xd yd s remaining" and "remaining < 20 \<or> trials + 1 > 100"
    and "x \<in> set (odds xd)" and "y \<in> set (odds yd)"
  shows "\<exists>s'. \<forall>rs. connect s remaining trials x y rs = Some (s', rs)"
  using assms
proof (induction "nat remaining" arbitrary: s remaining trials x y rule: less_induct)
  case less
  have d: "maze_x_dim s = xd" "maze_y_dim s = yd" "0 < xd" "0 < yd" using less.prems(1) by (simp_all add: connecting_def)
  have join: "\<exists>s'. \<forall>rs. connect s remaining t x y rs = Some (s', rs)"
    if t: "remaining < 20 \<or> t + 1 > 100" and n: "scan_next s x y = (x1, y1)"
      and o: "x1 \<in> set (odds xd)" "y1 \<in> set (odds yd)"
      and j: "maze_index xd x1 y1 \<in> unmarked (cells s)" "join_wall s x1 y1 = Some s1" for t x y x1 y1 s1
  proof -
    obtain k s2 where m: "mark_maze_area x1 y1 s1 = Some (k, s2)" "0 < k" "connecting xd yd s2 (remaining - k)"
      using connecting_join [OF less.prems(1) o j] by blast
    let ?t = "if remaining < 20 then t else t + 1"
    have "remaining - k > 0 \<Longrightarrow> \<exists>s'. \<forall>rs. connect s2 (remaining - k) ?t x1 y1 rs = Some (s', rs)"
      using less.hyps [of "remaining - k" s2 ?t x1 y1] m(2,3) o t by auto
    then have "\<exists>s'. \<forall>rs. (if remaining - k > 0 then connect s2 (remaining - k) ?t x1 y1 rs else Some (s2, rs)) = Some (s', rs)"
      by (cases "remaining - k > 0") simp_all
    then show ?thesis
      using m(1) j connecting_cell [OF less.prems(1) o] by (simp add: connect_scan [OF t] n)
  qed
  show ?case
  proof (cases "remaining > 0")
    case False
    have "marked xd yd (cells s) = lattice xd yd"
      using all_marked [of xd yd "cells s"] less.prems(1) False by (simp add: connecting_def)
    moreover obtain x1 y1 where n: "scan_next s x y = (x1, y1)" by (cases "scan_next s x y")
    moreover have "x1 \<in> set (odds xd)" "y1 \<in> set (odds yd)" using scan_next_odds [OF _ _ n] less.prems(3,4) d by auto
    ultimately have "cell s x1 y1 AND MAZE_REACH \<noteq> 0"
      using latticeI [of x1 xd y1 yd] d by (auto simp: marked_def unmarked_def cell_def)
    then show ?thesis using False by (simp add: connect_scan [OF less.prems(2)] n)
  next
    case True
    obtain xj yj where j: "xj \<in> set (odds xd)" "yj \<in> set (odds yd)"
      "maze_index xd xj yj \<in> unmarked (cells s)" "join_wall s xj yj \<noteq> None"
      using joinable_exists [OF less.prems(1) True] .
    have "((x, y), (xj, yj)) \<in> (scans s)\<^sup>+" using scan_reaches d less.prems(3,4) j(1,2) by simp
    then have "fst (x, y) \<in> set (odds xd) \<Longrightarrow> snd (x, y) \<in> set (odds yd) \<Longrightarrow> remaining < 20 \<or> trials + 1 > 100 \<Longrightarrow>
       \<exists>s'. \<forall>rs. connect s remaining trials (fst (x, y)) (snd (x, y)) rs = Some (s', rs)"
    proof (induction arbitrary: trials rule: converse_trancl_induct)
      case (base p)
      then have "scan_next s (fst p) (snd p) = (xj, yj)" by (auto simp: scans_def)
      then show ?case using join [OF base(4)] j by blast
    next
      case (step p q)
      have n: "scan_next s (fst p) (snd p) = (fst q, snd q)" using step.hyps(1) by (auto simp: scans_def)
      have o: "fst q \<in> set (odds xd)" "snd q \<in> set (odds yd)" using scan_next_odds [OF _ _ n] step.prems(1,2) d by auto
      show ?case
      proof (cases "maze_index xd (fst q) (snd q) \<in> unmarked (cells s) \<and> join_wall s (fst q) (snd q) \<noteq> None")
        case True
        then show ?thesis using join [OF step.prems(3) n o] by blast
      next
        case False
        obtain a b where q: "q = (a, b)" by (cases q)
        have "(if cell s a b AND MAZE_REACH \<noteq> 0 then None else join_wall s a b) = None"
          using False connecting_cell [OF less.prems(1) o] q by auto
        moreover have "\<exists>s'. \<forall>rs. connect s remaining (if remaining < 20 then trials else trials + 1) a b rs = Some (s', rs)"
          using step.IH [OF o] step.prems(3) q by auto
        ultimately show ?thesis
          using True n q by (subst connect_scan [OF step.prems(3)]) (cases "remaining < 20"; simp)
      qed
    qed
    then show ?thesis using less.prems(2-4) by simp
  qed
qed

section \<open>Worms\<close>

definition walls :: "int \<Rightarrow> int \<Rightarrow> (int \<Rightarrow> u8) \<Rightarrow> int set" where
  "walls xd yd m = {p \<in> lattice xd yd. m p = MAZE_WALL}"

text \<open>While worms dig, lattice points are walls or empty, and \<open>left\<close> counts the walls.\<close>

definition digging :: "int \<Rightarrow> int \<Rightarrow> maze \<Rightarrow> int \<Rightarrow> bool" where
  "digging xd yd s left \<longleftrightarrow>
     maze_x_dim s = xd \<and> maze_y_dim s = yd \<and> 0 < xd \<and> 0 < yd \<and> framed xd yd (cells s) \<and>
     (\<forall>p\<in>lattice xd yd. cells s p = MAZE_NONE \<or> cells s p = MAZE_WALL) \<and> bare xd yd (cells s) \<and>
     left = int (card (walls xd yd (cells s)))"

lemma finite_walls [simp]: "finite (walls xd yd m)"
  by (simp add: walls_def)

lemma none_not_wall [simp]: "MAZE_NONE \<noteq> MAZE_WALL" "MAZE_WALL \<noteq> MAZE_NONE"
  by (simp_all add: MAZE_NONE_def MAZE_WALL_def)

lemma digging_between:
  assumes "digging xd yd s left" and "0 < a" "a < 2 * xd" "0 < b" "b < 2 * yd" and "\<not> (odd a \<and> odd b)"
  shows "digging xd yd (set_cell a b MAZE_NONE s) left"
proof -
  have nl: "maze_index xd a b \<notin> lattice xd yd" using between_not_lattice assms(2,3,6) by blast
  then have "walls xd yd ((cells s)(maze_index xd a b := MAZE_NONE)) = walls xd yd (cells s)"
    by (auto simp: walls_def)
  then show ?thesis
    using assms(1) framed_upd [OF _ assms(2-5), of "cells s" MAZE_NONE] nl
    by (auto simp: digging_def set_cell_def)
qed

lemma digging_eat:
  assumes "digging xd yd s left" and x: "x \<in> set (odds xd)" and y: "y \<in> set (odds yd)"
  shows "digging xd yd (set_cell x y MAZE_NONE s) (if cell s x y = MAZE_WALL then left - 1 else left)"
proof -
  let ?p = "maze_index xd x y"
  have "walls xd yd ((cells s)(?p := MAZE_NONE)) = walls xd yd (cells s) - {?p}"
    by (auto simp: walls_def)
  moreover have "cell s x y = MAZE_WALL \<longleftrightarrow> ?p \<in> walls xd yd (cells s)"
    using assms(1) latticeI [OF x y] by (simp add: walls_def cell_def digging_def)
  moreover have "0 < card (walls xd yd (cells s))" if "?p \<in> walls xd yd (cells s)"
    using that by (auto simp: card_gt_0_iff)
  ultimately show ?thesis
    using assms(1) framed_upd [of xd yd "cells s" x y MAZE_NONE] odds_range [OF x] odds_range [OF y]
    by (auto simp: digging_def set_cell_def of_nat_diff Suc_le_eq)
qed

text \<open>A drawn direction is one whose weight is not zero, so it stays inside.\<close>

definition allowed :: "maze \<Rightarrow> int \<Rightarrow> int \<Rightarrow> nat \<Rightarrow> bool" where
  "allowed s x y dir \<longleftrightarrow>
     dir = 0 \<and> y > 1 \<or> dir = 1 \<and> x < maze_x_dim s * 2 - 1 \<or> dir = 2 \<and> y < maze_y_dim s * 2 - 1 \<or> dir = 3 \<and> x > 1"

lemma pick_dir_weight:
  assumes "pick < a + b + c + d"
  shows "let dir = pick_dir pick [a, a + b, a + b + c, a + b + c + d]
         in dir = 0 \<and> a \<noteq> 0 \<or> dir = 1 \<and> b \<noteq> 0 \<or> dir = 2 \<and> c \<noteq> 0 \<or> dir = 3 \<and> d \<noteq> 0"
  using assms by (auto simp: Let_def)

lemma pick_dir_allowed:
  assumes "pick < weights s x y pref_dir ! 3"
  shows "allowed s x y (pick_dir pick (weights s x y pref_dir))"
proof -
  define a where "a = (if y > 1 then turn_wt pref_dir (cell s x (y - 2) = MAZE_WALL) else 0)"
  define b where "b = (if x < maze_x_dim s * 2 - 1 then turn_wt ((pref_dir + 3) mod 4) (cell s (x + 2) y = MAZE_WALL) else 0)"
  define c where "c = (if y < maze_y_dim s * 2 - 1 then turn_wt ((pref_dir + 2) mod 4) (cell s x (y + 2) = MAZE_WALL) else 0)"
  define d where "d = (if x > 1 then turn_wt ((pref_dir + 1) mod 4) (cell s (x - 2) y = MAZE_WALL) else 0)"
  have w: "weights s x y pref_dir = [a, a + b, a + b + c, a + b + c + d]"
    unfolding weights_def a_def b_def c_def d_def Let_def ..
  have "a \<noteq> 0 \<Longrightarrow> y > 1" "b \<noteq> 0 \<Longrightarrow> x < maze_x_dim s * 2 - 1" "c \<noteq> 0 \<Longrightarrow> y < maze_y_dim s * 2 - 1" "d \<noteq> 0 \<Longrightarrow> x > 1"
    by (simp_all add: a_def b_def c_def d_def split: if_splits)
  then show ?thesis
    using pick_dir_weight [of pick a b c d] assms unfolding w allowed_def Let_def by auto
qed

lemma digging_dig:
  assumes "digging xd yd s left" and x: "x \<in> set (odds xd)" and y: "y \<in> set (odds yd)"
    and "allowed s x y dir" and "dig dir s x y = (s1, x1, y1)"
  shows "digging xd yd s1 left \<and> x1 \<in> set (odds xd) \<and> y1 \<in> set (odds yd)"
proof -
  have d: "maze_x_dim s = xd" "maze_y_dim s = yd" using assms(1) by (simp_all add: digging_def)
  have o: "odd x" "odd y" using x y by (simp_all add: in_odds)
  note r = odds_range [OF x] odds_range [OF y]
  consider "dir = 0" "y > 1" | "dir = 1" "x < 2 * xd - 1" | "dir = 2" "y < 2 * yd - 1" | "dir = 3" "x > 1"
    using assms(4) d by (auto simp: allowed_def)
  then show ?thesis
  proof cases
    case 1 then show ?thesis
      using digging_between [OF assms(1), of x "y - 1"] odds_step(2) [OF y] assms(5) r o x by (auto simp: dig_def)
  next
    case 2 then show ?thesis
      using digging_between [OF assms(1), of "x + 1" y] odds_step(1) [OF x] assms(5) r o y by (auto simp: dig_def)
  next
    case 3 then show ?thesis
      using digging_between [OF assms(1), of x "y + 1"] odds_step(1) [OF y] assms(5) r o x by (auto simp: dig_def)
  next
    case 4 then show ?thesis
      using digging_between [OF assms(1), of "x - 1" y] odds_step(2) [OF x] assms(5) r o y by (auto simp: dig_def)
  qed
qed

lemma digging_worm:
  assumes "worm s left x y pref_dir rs = Some (s', left', x', y', rs')"
    and "digging xd yd s left" and "x \<in> set (odds xd)" and "y \<in> set (odds yd)"
  shows "digging xd yd s' left' \<and> x' \<in> set (odds xd) \<and> y' \<in> set (odds yd)"
  using assms
proof (induction rs arbitrary: s left x y pref_dir)
  case (Cons r rs)
  let ?wt = "weights s x y pref_dir"
  let ?dir = "pick_dir (r mod ?wt ! 3) ?wt"
  have w: "?wt ! 3 \<noteq> 0" by (rule notI) (use Cons.prems(1) in simp)
  then have al: "allowed s x y ?dir" by (intro pick_dir_allowed) simp
  obtain s1 x1 y1 where g: "dig ?dir s x y = (s1, x1, y1)" by (metis prod_cases3)
  note d = digging_dig [OF Cons.prems(2-4) al g]
  show ?case
  proof (cases "(?dir + 4 - pref_dir) mod 4 = 2")
    case True
    then show ?thesis using Cons.prems w by (simp add: Let_def)
  next
    case False
    then have "worm (set_cell x1 y1 MAZE_NONE s1) (if cell s1 x1 y1 = MAZE_WALL then left - 1 else left) x1 y1 ?dir rs
      = Some (s', left', x', y', rs')"
      using Cons.prems(1) w g by (simp add: Let_def)
    then show ?thesis
      using Cons.IH digging_eat d by blast
  qed
qed simp

lemma digging_start:
  assumes "digging xd yd s left" and "x \<in> set (odds xd)" "y \<in> set (odds yd)" and "cell s x y AND MAZE_WALL \<noteq> 0"
  shows "digging xd yd (set_cell x y MAZE_NONE s) (left - 1)"
proof -
  have "cell s x y = MAZE_WALL"
    using assms latticeI [OF assms(2,3)] by (auto simp: digging_def cell_def)
  then show ?thesis using digging_eat [OF assms(1-3)] by simp
qed

lemmas worms_induct = worms.raw_induct [rotated, consumes 1, case_names step]

lemma digging_worms:
  assumes "worms s left rs = Some (s', x', y', rs')" and "digging xd yd s left"
  shows "digging xd yd s' 0 \<and> x' \<in> set (odds xd) \<and> y' \<in> set (odds yd)"
  using assms
proof (induction s left rs "(s', x', y', rs')" rule: worms_induct)
  case (step worms s left rs)
  have d: "maze_x_dim s = xd" "maze_y_dim s = yd" "0 < xd" "0 < yd" using step(3) by (simp_all add: digging_def)
  obtain x y r rs2 where p: "pick_until (\<lambda>x y. cell s x y AND MAZE_WALL \<noteq> 0) xd yd rs = Some (x, y, r # rs2)"
    using step(2) d by (auto split: option.splits list.splits)
  have o: "cell s x y AND MAZE_WALL \<noteq> 0" "x \<in> set (odds xd)" "y \<in> set (odds yd)"
    using pick_until_SomeD [OF p d(3,4)] by auto
  obtain s2 left2 x2 y2 rs3 where w: "worm (set_cell x y MAZE_NONE s) (left - 1) x y (r mod 4) rs2 = Some (s2, left2, x2, y2, rs3)"
    using step(2) p d by (auto split: option.splits)
  note g = digging_worm [OF w digging_start [OF step(3) o(2,3,1)] o(2,3)]
  have "(if left2 > 0 then worms s2 left2 rs3 else Some (s2, x2, y2, rs3)) = Some (s', x', y', rs')"
    using step(2) p d w by simp
  moreover have "left2 = 0" if "\<not> left2 > 0" using g that by (simp add: digging_def)
  ultimately show ?thesis using step(1) g by (auto split: if_splits)
qed

text \<open>Numbers for which they end: every worm turns back at once.\<close>

lemma pick_until_hit:
  assumes "x \<in> set (odds xd)" and "y \<in> set (odds yd)" and "acceptable x y"
  shows "pick_until acceptable xd yd (nat (x div 2) # nat (y div 2) # rs) = Some (x, y, rs)"
proof -
  have "int (nat (z div 2)) mod n * 2 + 1 = z" if "z \<in> set (odds n)" for z n
  proof -
    have "0 \<le> z div 2" "z div 2 < n" "z = 2 * (z div 2) + 1" using that by (auto simp: in_odds)
    then show ?thesis by simp
  qed
  then show ?thesis using assms by (simp add: Let_def)
qed

lemma worm_turns_back:
  assumes x: "x \<in> set (odds (maze_x_dim s))" and y: "y \<in> set (odds (maze_y_dim s))" and "2 \<le> maze_y_dim s"
  shows "\<exists>pref r. pref < 4 \<and> (\<forall>rs left. worm s left x y pref (r # rs) = Some (s, left, x, y, rs))"
proof (cases "y < maze_y_dim s * 2 - 1")
  case True
  have "\<forall>rs left. worm s left x y 0 (weights s x y 0 ! 1 # rs) = Some (s, left, x, y, rs)"
    using True by (simp add: weights_def turn_wt_def)
  then show ?thesis using zero_less_numeral by blast
next
  case False
  then have "y > 1" using assms(3) by simp
  then have "\<forall>rs left. worm s left x y 2 (0 # rs) = Some (s, left, x, y, rs)"
    using False by (simp add: weights_def turn_wt_def)
  moreover have "2 < (4 :: nat)" by simp
  ultimately show ?thesis by blast
qed

declare pick_until.simps [simp del] worm.simps [simp del]

lemma digging_wall_exists:
  assumes "digging xd yd s left" and "0 < left"
  obtains x y where "x \<in> set (odds xd)" "y \<in> set (odds yd)" "cell s x y AND MAZE_WALL \<noteq> 0"
proof -
  have "walls xd yd (cells s) \<noteq> {}" using assms by (auto simp: digging_def)
  then obtain p where p: "p \<in> lattice xd yd" "cells s p = MAZE_WALL" by (auto simp: walls_def)
  obtain x y where "p = maze_index xd x y" "x \<in> set (odds xd)" "y \<in> set (odds yd)"
    using p(1) by (rule latticeE)
  then show ?thesis using that [of x y] p assms(1) by (simp add: digging_def cell_def)
qed

lemma worms_total:
  assumes "digging xd yd s left" and "0 < left" and "2 \<le> yd"
  shows "\<exists>rs s' x' y'. \<forall>rest. worms s left (rs @ rest) = Some (s', x', y', rest)"
  using assms(1,2)
proof (induction "nat left" arbitrary: s left rule: less_induct)
  case less
  have d: "maze_x_dim s = xd" "maze_y_dim s = yd" using less.prems(1) by (simp_all add: digging_def)
  obtain x y where xy: "x \<in> set (odds xd)" "y \<in> set (odds yd)" "cell s x y AND MAZE_WALL \<noteq> 0"
    using digging_wall_exists [OF less.prems] .
  let ?s1 = "set_cell x y MAZE_NONE s"
  note g = digging_start [OF less.prems(1) xy]
  have d1: "maze_x_dim ?s1 = xd" "maze_y_dim ?s1 = yd" using g by (simp_all add: digging_def)
  obtain pref r where w: "pref < 4" "\<And>rs left. worm ?s1 left x y pref (r # rs) = Some (?s1, left, x, y, rs)"
    using worm_turns_back [of x ?s1 y] xy assms(3) d1 by blast
  have hit: "pick_until (\<lambda>x y. cell s x y AND MAZE_WALL \<noteq> 0) xd yd (nat (x div 2) # nat (y div 2) # rest) = Some (x, y, rest)" for rest
    using pick_until_hit [of x xd y yd "\<lambda>x y. cell s x y AND MAZE_WALL \<noteq> 0"] xy by blast
  have unfold: "worms s left (nat (x div 2) # nat (y div 2) # pref # r # rest) =
      (if left - 1 > 0 then worms ?s1 (left - 1) rest else Some (?s1, x, y, rest))" for rest
    using w by (subst worms.simps) (simp add: d hit)
  show ?case
  proof (cases "left - 1 > 0")
    case True
    obtain rs s' x' y' where "\<And>rest. worms ?s1 (left - 1) (rs @ rest) = Some (s', x', y', rest)"
      using less.hyps [OF _ g True] True by auto
    then have "\<forall>rest. worms s left ((nat (x div 2) # nat (y div 2) # pref # r # rs) @ rest) = Some (s', x', y', rest)"
      using True by (simp add: unfold)
    then show ?thesis by blast
  next
    case False
    then have "\<forall>rest. worms s left ([nat (x div 2), nat (y div 2), pref, r] @ rest) = Some (?s1, x, y, rest)"
      by (simp add: unfold)
    then show ?thesis by blast
  qed
qed

lemma connect_total:
  assumes "connecting xd yd s remaining" and "x \<in> set (odds xd)" and "y \<in> set (odds yd)"
  shows "\<exists>rs s'. \<forall>rest. connect s remaining trials x y (rs @ rest) = Some (s', rest)"
  using assms
proof (induction "nat (100 - trials)" arbitrary: s remaining trials x y rule: less_induct)
  case less
  show ?case
  proof (cases "remaining < 20 \<or> trials + 1 > 100")
    case True
    then obtain s' where "\<forall>rest. connect s remaining trials x y ([] @ rest) = Some (s', rest)"
      using connect_scan_total [OF less.prems(1) True less.prems(2,3)] by auto
    then show ?thesis by blast
  next
    case False
    have d: "maze_x_dim s = xd" "maze_y_dim s = yd" using less.prems(1) by (simp_all add: connecting_def)
    obtain x1 y1 s1 where j: "x1 \<in> set (odds xd)" "y1 \<in> set (odds yd)"
      "maze_index xd x1 y1 \<in> unmarked (cells s)" "join_wall s x1 y1 = Some s1"
      using joinable_exists [OF less.prems(1)] False by (metis not_less option.exhaust zero_less_numeral order_less_le_trans)
    obtain n s2 where m: "mark_maze_area x1 y1 s1 = Some (n, s2)" "connecting xd yd s2 (remaining - n)"
      using connecting_join [OF less.prems(1) j] by blast
    have "pick_until (\<lambda>x y. cell s x y AND MAZE_REACH = 0) xd yd (nat (x1 div 2) # nat (y1 div 2) # rest) = Some (x1, y1, rest)" for rest
      using pick_until_hit [of x1 xd y1 yd "\<lambda>x y. cell s x y AND MAZE_REACH = 0"] j connecting_cell [OF less.prems(1)] by blast
    then have unfold: "connect s remaining trials x y (nat (x1 div 2) # nat (y1 div 2) # rest) =
       (if remaining - n > 0 then connect s2 (remaining - n) (trials + 1) x1 y1 rest else Some (s2, rest))" for rest
      using False j(4) m(1) by (subst connect.simps) (simp add: d Let_def)
    show ?thesis
    proof (cases "remaining - n > 0")
      case True
      obtain rs s' where "\<And>rest. connect s2 (remaining - n) (trials + 1) x1 y1 (rs @ rest) = Some (s', rest)"
        using less.hyps [OF _ m(2) j(1,2), of "trials + 1"] False by auto
      then have "\<forall>rest. connect s remaining trials x y ((nat (x1 div 2) # nat (y1 div 2) # rs) @ rest) = Some (s', rest)"
        using True by (simp add: unfold)
      then show ?thesis by blast
    next
      case False
      then have "\<forall>rest. connect s remaining trials x y ([nat (x1 div 2), nat (y1 div 2)] @ rest) = Some (s2, rest)"
        by (simp add: unfold)
      then show ?thesis by blast
    qed
  qed
qed

section \<open>The walls of a new maze\<close>

lemma digging_walled:
  assumes "0 < xd" "0 < yd" and "maze_x_dim s = xd" "maze_y_dim s = yd"
    and "\<And>p. p \<in> lattice xd yd \<Longrightarrow> cells s p = MAZE_WALL" and "framed xd yd (cells s)" and "bare xd yd (cells s)"
  shows "digging xd yd s (xd * yd)"
proof -
  have "walls xd yd (cells s) = lattice xd yd" using assms(5) by (auto simp: walls_def)
  then show ?thesis using assms by (simp add: digging_def card_lattice nat_mult_distrib)
qed

lemma connecting_start:
  assumes g: "digging xd yd s 0"
  shows "\<exists>n s2. mark_maze_area 1 1 s = Some (n, s2) \<and> connecting xd yd s2 (xd * yd - n)"
proof -
  let ?R = "region xd (cells s) (maze_index xd 1 1)"
  have d: "maze_x_dim s = xd" "maze_y_dim s = yd" "0 < xd" "0 < yd" "framed xd yd (cells s)" "bare xd yd (cells s)"
    using g by (simp_all add: digging_def)
  have "walls xd yd (cells s) = {}" using g by (simp add: digging_def)
  then have empty: "cells s p = MAZE_NONE" if "p \<in> lattice xd yd" for p
    using g that by (auto simp: digging_def walls_def)
  then have un: "marked xd yd (cells s) = {}" by (auto simp: marked_def unmarked_def)
  have o: "1 \<in> set (odds xd)" "1 \<in> set (odds yd)" using d by (simp_all add: in_odds_1)
  have R: "?R \<subseteq> lattice xd yd" using region_lattice [OF d(5) latticeI [OF o]] .
  have lm: "linked xd (mark ?R (cells s)) = linked xd (cells s)" by (simp add: linked_def passage_def)
  have "maze_index xd 1 1 \<in> linked xd (cells s)" by (simp add: linked_def)
  then have "connecting xd yd (s\<lparr>cells := mark ?R (cells s)\<rparr>) (xd * yd - int (card ?R))"
    using d empty region_linked [of "maze_index xd 1 1" xd "cells s"]
    by (simp add: connecting_def marked_mark [OF R] bare_mark [OF R] un lm framed_def)
  then show ?thesis using mark_maze_area_region [of s 1 1] d o by simp
qed

lemma build_walls_linked:
  assumes "build_walls s rs = Some (s', rs')" and "digging xd yd s (xd * yd)"
  shows "connecting xd yd s' 0"
proof -
  have d: "maze_x_dim s = xd" "maze_y_dim s = yd" using assms(2) by (simp_all add: digging_def)
  obtain s1 x y rs1 where w: "worms s (xd * yd) rs = Some (s1, x, y, rs1)"
    using assms(1) d by (auto simp: build_walls_def split: option.splits)
  note g = digging_worms [OF w assms(2)]
  obtain n s2 where m: "mark_maze_area 1 1 s1 = Some (n, s2)" "connecting xd yd s2 (xd * yd - n)"
    using connecting_start g by blast
  have "connect s2 (xd * yd - n) 0 x y rs1 = Some (s', rs')"
    using assms(1) d w m(1) by (simp add: build_walls_def)
  from connect_correct [OF this m(2)] g obtain r where "r \<le> 0" "connecting xd yd s' r" by blast
  moreover have "0 \<le> r" using \<open>connecting xd yd s' r\<close> card_marked_le [of xd yd "cells s'"] by (simp add: connecting_def)
  ultimately show ?thesis by simp
qed

lemma build_walls_total:
  assumes g: "digging xd yd s (xd * yd)" and "2 \<le> yd"
  shows "\<exists>rs s'. \<forall>rest. build_walls s (rs @ rest) = Some (s', rest)"
proof -
  have d: "maze_x_dim s = xd" "maze_y_dim s = yd" "0 < xd" "0 < yd" using g by (simp_all add: digging_def)
  then have pos: "0 < xd * yd" by simp
  obtain rs s1 x y where w: "\<And>rest. worms s (xd * yd) (rs @ rest) = Some (s1, x, y, rest)"
    using worms_total [OF g pos assms(2)] by blast
  note g1 = digging_worms [OF w g]
  obtain n s2 where m: "mark_maze_area 1 1 s1 = Some (n, s2)" "connecting xd yd s2 (xd * yd - n)"
    using connecting_start g1 by blast
  obtain rs2 s' where c: "\<And>rest. connect s2 (xd * yd - n) 0 x y (rs2 @ rest) = Some (s', rest)"
    using connect_total [OF m(2)] g1 by blast
  have "\<forall>rest. build_walls s ((rs @ rs2) @ rest) = Some (s', rest)"
    using w m(1) c d by (simp add: build_walls_def)
  then show ?thesis by blast
qed

lemma dims_good:
  assumes "MAZE_MIN_X_DIM \<le> xd" "xd \<le> MAZE_MAX_X_DIM" "MAZE_MIN_Y_DIM \<le> yd" "yd \<le> MAZE_MAX_Y_DIM"
  shows "13 \<le> xd" "xd \<le> 50" "8 \<le> yd" "yd \<le> 30"
  using assms by (simp_all add: MAZE_MIN_X_DIM_def MAZE_MAX_X_DIM_def MAZE_MIN_Y_DIM_def MAZE_MAX_Y_DIM_def
      SCROLL_X_DIM_def SCROLL_Y_DIM_def IMAGE_X_DIM_def IMAGE_Y_DIM_def BLOCK_X_DIM_def BLOCK_Y_DIM_def SHOW_MIN_def)

text \<open>The whole field lies inside the array.\<close>

lemma field_bytes:
  assumes "0 < xd" "xd \<le> 50" "0 < yd" "yd \<le> 30" and "p \<in> field xd yd"
  shows "0 \<le> p \<and> p < MAZE_BYTES"
proof -
  have "(2 * yd + 1) * (xd * 2) \<le> 61 * 100" using assms by (intro mult_mono) auto
  then show ?thesis
    using assms(1-5) by (auto simp: field_def maze_index_def MAZE_BYTES_def MAZE_MAX_X_DIM_def MAZE_MAX_Y_DIM_def algebra_simps)
qed

lemma field_row:
  assumes "0 \<le> x" "x \<le> 2 * xd" "0 \<le> y" "y \<le> 2 * yd"
  shows "maze_index xd x y \<in> field xd yd"
proof -
  have "0 \<le> y * xd" "y * xd \<le> 2 * yd * xd" using assms by (auto intro: mult_right_mono)
  then show ?thesis using assms by (simp add: field_def maze_index_def algebra_simps)
qed

lemma lattice_field: "lattice xd yd \<subseteq> field xd yd"
proof
  fix p assume "p \<in> lattice xd yd"
  then obtain x y where p: "p = maze_index xd x y" "x \<in> set (odds xd)" "y \<in> set (odds yd)" by (rule latticeE)
  then show "p \<in> field xd yd" using odds_range [OF p(2)] odds_range [OF p(3)] field_row [of x xd y yd] by simp
qed

lemma fill_walls_digging:
  assumes "0 < xd" "xd \<le> 50" "0 < yd" "yd \<le> 30"
  shows "digging xd yd (fill_walls xd yd s) (xd * yd)"
proof -
  have w: "cells (fill_walls xd yd s) p = MAZE_WALL" if "p \<in> field xd yd" for p
    using field_bytes [OF assms that] by (simp add: fill_walls_def)
  have "framed xd yd (cells (fill_walls xd yd s))"
    using assms by (auto simp: framed_def w field_row in_inner)
  moreover have "bare xd yd (cells (fill_walls xd yd s))"
    by (simp add: bare_def w) (simp add: MAZE_WALL_def MAZE_FRUIT_def MAZE_EXIT_def MAZE_REACH_def)
  moreover have "cells (fill_walls xd yd s) p = MAZE_WALL" if "p \<in> lattice xd yd" for p
    using that lattice_field w by blast
  ultimately show ?thesis
    using assms by (intro digging_walled) (simp_all add: fill_walls_def)
qed

text \<open>
  C32. Marking a maze returns from every lattice point of a framed maze: it marks exactly the points
  that open passages connect to the start without passing a marked point, all of them lattice points,
  and returns how many they are, which is never more than the queue can hold.
\<close>

theorem mark_maze_area_marks:
  assumes "framed (maze_x_dim s) (maze_y_dim s) (cells s)"
    and "x \<in> set (odds (maze_x_dim s))" and "y \<in> set (odds (maze_y_dim s))"
    and "maze_x_dim s \<le> MAZE_MAX_X_DIM" and "maze_y_dim s \<le> MAZE_MAX_Y_DIM"
  shows "\<exists>n. mark_maze_area x y s = Some (n, s\<lparr>cells := mark (region (maze_x_dim s) (cells s) (idx s x y)) (cells s)\<rparr>)
    \<and> n = int (card (region (maze_x_dim s) (cells s) (idx s x y)))
    \<and> region (maze_x_dim s) (cells s) (idx s x y) \<subseteq> lattice (maze_x_dim s) (maze_y_dim s)
    \<and> n \<le> MAZE_MAX_X_DIM * MAZE_MAX_Y_DIM"
proof -
  let ?R = "region (maze_x_dim s) (cells s) (idx s x y)"
  have R: "?R \<subseteq> lattice (maze_x_dim s) (maze_y_dim s)" using region_lattice [OF assms(1) latticeI [OF assms(2,3)]] .
  have "int (card ?R) \<le> maze_x_dim s * maze_y_dim s"
    using card_mono [OF finite_lattice R] odds_range [OF assms(2)] odds_range [OF assms(3)]
    by (simp add: card_lattice le_nat_iff flip: nat_mult_distrib)
  also have "\<dots> \<le> MAZE_MAX_X_DIM * MAZE_MAX_Y_DIM"
    using assms(4,5) odds_range [OF assms(2)] odds_range [OF assms(3)] by (intro mult_mono) auto
  finally show ?thesis using mark_maze_area_region [OF assms(1-3)] R by simp
qed

definition corridor :: maze where
  "corridor = \<lparr>cells = \<lambda>a. if a = maze_index 2 2 1 then MAZE_NONE else MAZE_WALL, maze_x_dim = 2, maze_y_dim = 1,
               n_fruits = 0, exit_x = 1, exit_y = 1\<rparr>"

theorem mark_maze_area_marks_witness:
  "\<exists>n. mark_maze_area 3 1 corridor = Some (n, corridor\<lparr>cells := mark (region 2 (cells corridor) (maze_index 2 3 1)) (cells corridor)\<rparr>)
     \<and> n \<le> MAZE_MAX_X_DIM * MAZE_MAX_Y_DIM"
proof -
  have "framed 2 1 (cells corridor)"
    by (simp add: framed_def corridor_def inner_def maze_index_def upt_conv_Cons)
  then show ?thesis
    using mark_maze_area_marks [of corridor 3 1]
    by (simp add: corridor_def in_odds MAZE_MAX_X_DIM_def MAZE_MAX_Y_DIM_def)
qed

text \<open>
  C33. The walls of a new maze: there are random numbers for which the worms and the joining of what
  they left apart come to an end, and whatever the numbers were, in the end every lattice point is
  open, the boundary is closed, and open passages lead from (1, 1) to every lattice point.
\<close>

theorem build_walls_connects:
  assumes "MAZE_MIN_X_DIM \<le> xd" "xd \<le> MAZE_MAX_X_DIM" "MAZE_MIN_Y_DIM \<le> yd" "yd \<le> MAZE_MAX_Y_DIM"
  shows "(\<exists>rs s'. build_walls (fill_walls xd yd s) rs = Some (s', [])) \<and>
    (\<forall>rs s' rs'. build_walls (fill_walls xd yd s) rs = Some (s', rs') \<longrightarrow>
       lattice xd yd \<subseteq> {p. cells s' p AND MAZE_WALL = 0} \<and> framed xd yd (cells s') \<and>
       lattice xd yd \<subseteq> linked xd (cells s'))"
proof -
  note d = dims_good [OF assms]
  have g: "digging xd yd (fill_walls xd yd s) (xd * yd)" using d by (intro fill_walls_digging) auto
  obtain rs s' where "\<forall>rest. build_walls (fill_walls xd yd s) (rs @ rest) = Some (s', rest)"
    using build_walls_total [OF g] d by auto
  moreover have "lattice xd yd \<subseteq> {p. cells s' p AND MAZE_WALL = 0} \<and> framed xd yd (cells s') \<and>
       lattice xd yd \<subseteq> linked xd (cells s')"
    if "build_walls (fill_walls xd yd s) rs = Some (s', rs')" for rs s' rs'
    using build_walls_linked [OF that g] all_marked [of xd yd "cells s'"] by (auto simp: connecting_def)
  ultimately show ?thesis by blast
qed

theorem build_walls_connects_witness: "\<exists>rs s'. build_walls (fill_walls 20 20 corridor) rs = Some (s', [])"
  using build_walls_connects [of 20 20 corridor]
  by (simp add: MAZE_MIN_X_DIM_def MAZE_MAX_X_DIM_def MAZE_MIN_Y_DIM_def MAZE_MAX_Y_DIM_def
      SCROLL_X_DIM_def SCROLL_Y_DIM_def IMAGE_X_DIM_def IMAGE_Y_DIM_def BLOCK_X_DIM_def BLOCK_Y_DIM_def SHOW_MIN_def)

end
