(* ===== verification/Maze_Level.thy ===== *)
theory Maze_Level
  imports Maze_Walls
begin

text \<open>
  Levels: what \<open>make_maze\<close> leaves, and that it stays so while the player eats fruits, unveils and
  gets new fruits.
\<close>

section \<open>Loops over cells\<close>

definition upd :: "(u8 \<Rightarrow> u8) \<Rightarrow> int \<Rightarrow> maze \<Rightarrow> maze" where
  "upd f p s = s\<lparr>cells := (cells s)(p := f (cells s p))\<rparr>"

lemma upd_fold:
  "distinct ps \<Longrightarrow> fold (upd f) ps s = s\<lparr>cells := \<lambda>p. if p \<in> set ps then f (cells s p) else cells s p\<rparr>"
proof (induction ps arbitrary: s)
  case (Cons q ps)
  then have e: "fold (upd f) ps (upd f q s) =
    (upd f q s)\<lparr>cells := \<lambda>p. if p \<in> set ps then f (cells (upd f q s) p) else cells (upd f q s) p\<rparr>" by simp
  show ?case by (simp only: fold_simps e) (use Cons.prems in \<open>auto simp: upd_def intro!: maze.equality ext\<close>)
qed simp

lemma fold_column:
  "maze_x_dim s = xd \<Longrightarrow> fold (\<lambda>y s. set_cell x y (f (cell s x y)) s) ys s = fold (upd f) (map (maze_index xd x) ys) s"
  by (induction ys arbitrary: s) (simp_all add: upd_def set_cell_def cell_def)

lemma fold_upd_dims [simp]: "maze_x_dim (fold (upd f) ps s) = maze_x_dim s"
  by (induction ps arbitrary: s) (simp_all add: upd_def)

lemma for_cells_fold:
  "maze_x_dim s = xd \<Longrightarrow> for_cells xs ys f s = fold (upd f) (concat (map (\<lambda>x. map (maze_index xd x) ys) xs)) s"
  unfolding for_cells_def by (induction xs arbitrary: s) (simp_all add: fold_column)

lemma for_cells_cells:
  assumes "maze_x_dim s = xd" and "distinct xs" "distinct ys" and "set xs \<subseteq> {0..<2 * xd}"
  shows "for_cells xs ys f s =
    s\<lparr>cells := \<lambda>p. if p \<in> (\<lambda>(x, y). maze_index xd x y) ` (set xs \<times> set ys) then f (cells s p) else cells s p\<rparr>"
proof -
  let ?ps = "concat (map (\<lambda>x. map (maze_index xd x) ys) xs)"
  have "distinct ?ps"
    using assms(2,4)
  proof (induction xs)
    case (Cons x xs)
    have "distinct (map (maze_index xd x) ys)"
      using assms(3) Cons.prems(2) by (auto simp: distinct_map inj_on_def maze_index_eq)
    moreover have "maze_index xd x y \<noteq> maze_index xd x' y'" if "x' \<in> set xs" for x' y y'
      using Cons.prems that by (auto simp: maze_index_eq subset_iff)
    ultimately show ?case using Cons by auto
  qed simp
  moreover have "set ?ps = (\<lambda>(x, y). maze_index xd x y) ` (set xs \<times> set ys)" by auto
  ultimately show ?thesis
    unfolding for_cells_fold [OF assms(1)] by (simp only: upd_fold)
qed

section \<open>Levels\<close>

text \<open>The inside of the boundary, and the bytes with a fruit and with the exit.\<close>

definition inside :: "int \<Rightarrow> int \<Rightarrow> int set" where
  "inside xd yd = (\<lambda>(x, y). maze_index xd x y) ` (set (inner xd) \<times> set (inner yd))"

definition fruited :: "maze \<Rightarrow> int set" where
  "fruited s = {p \<in> field (maze_x_dim s) (maze_y_dim s). cells s p AND MAZE_FRUIT \<noteq> 0}"

definition exits :: "maze \<Rightarrow> int set" where
  "exits s = {p \<in> field (maze_x_dim s) (maze_y_dim s). cells s p AND MAZE_EXIT \<noteq> 0}"

text \<open>Fruits lie on lattice points and are counted; the boundary is closed.\<close>

definition stocked :: "maze \<Rightarrow> bool" where
  "stocked s \<longleftrightarrow>
     0 < maze_x_dim s \<and> 0 < maze_y_dim s \<and> framed (maze_x_dim s) (maze_y_dim s) (cells s) \<and>
     fruited s \<subseteq> lattice (maze_x_dim s) (maze_y_dim s) \<and> n_fruits s = int (card (fruited s))"

definition level :: "maze \<Rightarrow> bool" where
  "level s \<longleftrightarrow> stocked s \<and>
     exit_x s \<in> set (odds (maze_x_dim s)) \<and> exit_y s \<in> set (odds (maze_y_dim s)) \<and>
     exits s = {idx s (exit_x s) (exit_y s)}"

lemma finite_fruited [simp]: "finite (fruited s)"
  by (rule finite_subset [of _ "field (maze_x_dim s) (maze_y_dim s)"]) (auto simp: fruited_def field_def)

text \<open>The bits of a fruit.\<close>

definition fruit_bits :: "nat \<Rightarrow> u8" where
  "fruit_bits r = of_nat (r mod NUM_FRUIT_TYPES + 1) * MAZE_FRUIT_1"

lemma fruit_bits_cases:
  obtains "fruit_bits r = 2" | "fruit_bits r = 4" | "fruit_bits r = 6" | "fruit_bits r = 8"
    | "fruit_bits r = 10" | "fruit_bits r = 12" | "fruit_bits r = 14"
proof -
  have "r mod NUM_FRUIT_TYPES < 7" by (simp add: NUM_FRUIT_TYPES_def)
  then have "r mod NUM_FRUIT_TYPES \<in> {0, 1, 2, 3, 4, 5, 6}" by auto
  then show thesis using that by (auto simp: fruit_bits_def MAZE_FRUIT_1_def)
qed

lemma fruit_bits_and [simp]:
  "(v OR fruit_bits r) AND MAZE_FRUIT \<noteq> 0"
  "(v OR fruit_bits r) AND MAZE_WALL = v AND MAZE_WALL"
  "(v OR fruit_bits r) AND MAZE_EXIT = v AND MAZE_EXIT"
  "(v OR fruit_bits r) AND MAZE_REACH = v AND MAZE_REACH"
  by (rule fruit_bits_cases [of r];
      simp add: MAZE_FRUIT_def MAZE_WALL_def MAZE_EXIT_def MAZE_REACH_def bit.conj_disj_distrib2 or_eq_0_iff)+

lemma exit_and [simp]:
  "(v OR MAZE_EXIT) AND MAZE_EXIT \<noteq> 0" "(v OR MAZE_EXIT) AND MAZE_WALL = v AND MAZE_WALL"
  "(v OR MAZE_EXIT) AND MAZE_FRUIT = v AND MAZE_FRUIT" "(v OR MAZE_EXIT) AND MAZE_REACH = v AND MAZE_REACH"
  by (simp_all add: MAZE_FRUIT_def MAZE_WALL_def MAZE_EXIT_def MAZE_REACH_def bit.conj_disj_distrib2 or_eq_0_iff)

lemma exit_nonzero [simp]: "MAZE_EXIT \<noteq> 0" "MAZE_FRUIT \<noteq> 0"
  by (simp_all add: MAZE_EXIT_def MAZE_FRUIT_def)

lemma eaten_and [simp]:
  "(v AND NOT MAZE_FRUIT) AND MAZE_FRUIT = 0" "(v AND NOT MAZE_FRUIT) AND MAZE_WALL = v AND MAZE_WALL"
  "(v AND NOT MAZE_FRUIT) AND MAZE_EXIT = v AND MAZE_EXIT"
  by (simp_all add: and.assoc) (simp_all add: MAZE_FRUIT_def MAZE_WALL_def MAZE_EXIT_def)

lemma fruit_num_0 [simp]: "fruit_num v = 0 \<longleftrightarrow> v AND MAZE_FRUIT = 0"
proof
  assume "fruit_num v = 0"
  then have "unat (v AND MAZE_FRUIT) < 2" by (simp add: fruit_num_def MAZE_FRUIT_1_def div_eq_0_iff)
  then have "v AND MAZE_FRUIT = 0 \<or> v AND MAZE_FRUIT = 1"
    by (metis less_2_cases One_nat_def unat_0 unat_1 word_unat_eq_iff)
  moreover have "MAZE_FRUIT AND 1 = 0" by (simp add: MAZE_FRUIT_def)
  then have "(v AND MAZE_FRUIT) AND 1 = 0" by (simp only: and.assoc bit.conj_zero_right)
  ultimately show "v AND MAZE_FRUIT = 0" by (metis and.idem zero_neq_one)
qed (simp add: fruit_num_def)


lemma fruit_num_pos [simp]: "0 < fruit_num v \<longleftrightarrow> v AND MAZE_FRUIT \<noteq> 0"
  using fruit_num_0 [of v] by linarith

section \<open>Adding fruits\<close>

lemma lattice_eq [simp]:
  "x \<in> set (odds xd) \<Longrightarrow> x' \<in> set (odds xd) \<Longrightarrow> maze_index xd x y = maze_index xd x' y' \<longleftrightarrow> x = x' \<and> y = y'"
  by (auto simp: maze_index_eq dest!: odds_range)

lemma framed_cong:
  assumes "framed xd yd m" and "\<And>p. m' p AND MAZE_WALL = m p AND MAZE_WALL"
  shows "framed xd yd m'"
  using assms by (simp add: framed_def)

lemma add_fruit_SomeD:
  assumes "add_fruit s rs = Some (x, y, s', rs')" and "stocked s"
  obtains r where "x \<in> set (odds (maze_x_dim s))" "y \<in> set (odds (maze_y_dim s))" "cell s x y AND MAZE_FRUIT = 0"
    "s' = s\<lparr>cells := (cells s)(idx s x y := cell s x y OR fruit_bits r), n_fruits := n_fruits s + 1\<rparr>"
proof -
  have d: "0 < maze_x_dim s" "0 < maze_y_dim s" using assms(2) by (simp_all add: stocked_def)
  obtain a b r rs2 where p: "pick_until (\<lambda>x y. cell s x y AND MAZE_FRUIT = 0) (maze_x_dim s) (maze_y_dim s) rs = Some (a, b, r # rs2)"
    using assms(1) by (auto simp: add_fruit_def split: option.splits list.splits)
  have "x = a" "y = b" "s' = s\<lparr>cells := (cells s)(idx s x y := cell s x y OR fruit_bits r), n_fruits := n_fruits s + 1\<rparr>"
    using assms(1) p by (auto simp: add_fruit_def set_cell_def fruit_bits_def Let_def)
  then show ?thesis
    using that [of r] pick_until_SomeD [OF p d] by simp
qed

lemma stocked_fruit:
  fixes s x y r
  assumes "stocked s" and x: "x \<in> set (odds (maze_x_dim s))" and y: "y \<in> set (odds (maze_y_dim s))"
    and "cell s x y AND MAZE_FRUIT = 0"
  defines "s' \<equiv> s\<lparr>cells := (cells s)(idx s x y := cell s x y OR fruit_bits r), n_fruits := n_fruits s + 1\<rparr>"
  shows "stocked s'" and "exits s' = exits s" and "fruited s' = insert (idx s x y) (fruited s)"
proof -
  have pl: "idx s x y \<in> lattice (maze_x_dim s) (maze_y_dim s)" using latticeI [OF x y] .
  then have pf: "idx s x y \<in> field (maze_x_dim s) (maze_y_dim s)" using lattice_field by blast
  show f: "fruited s' = insert (idx s x y) (fruited s)"
    using pf by (auto simp: fruited_def s'_def)
  have "idx s x y \<notin> fruited s" using assms(4) by (simp add: fruited_def cell_def)
  moreover have "framed (maze_x_dim s) (maze_y_dim s) (cells s')"
    by (rule framed_cong [of _ _ "cells s"]) (use assms(1) in \<open>simp_all add: stocked_def s'_def cell_def\<close>)
  ultimately show "stocked s'"
    using assms(1) pl f unfolding stocked_def by (simp add: s'_def)
  show "exits s' = exits s"
    by (auto simp: exits_def s'_def cell_def)
qed

lemma stocked_add_fruits:
  assumes "add_fruits n s rs = Some (s', rs')" and "stocked s"
  shows "stocked s' \<and> exits s' = exits s \<and> n_fruits s' = n_fruits s + int n \<and>
    maze_x_dim s' = maze_x_dim s \<and> maze_y_dim s' = maze_y_dim s \<and>
    (\<forall>p. cells s' p AND MAZE_WALL = cells s p AND MAZE_WALL) \<and>
    (\<forall>p. cells s' p AND MAZE_REACH = cells s p AND MAZE_REACH)"
  using assms
proof (induction n s rs rule: add_fruits.induct)
  case (2 n s rs)
  obtain x y s1 rs1 where a: "add_fruit s rs = Some (x, y, s1, rs1)" "add_fruits n s1 rs1 = Some (s', rs')"
    using 2(2) by (auto split: option.splits)
  obtain r where r: "x \<in> set (odds (maze_x_dim s))" "y \<in> set (odds (maze_y_dim s))" "cell s x y AND MAZE_FRUIT = 0"
    "s1 = s\<lparr>cells := (cells s)(idx s x y := cell s x y OR fruit_bits r), n_fruits := n_fruits s + 1\<rparr>"
    using add_fruit_SomeD [OF a(1) 2(3)] .
  note st = stocked_fruit [OF 2(3) r(1-3), of r, folded r(4)]
  show ?case using 2(1) [OF a(1) refl refl refl a(2) st(1)] st(2) r(4) by (simp add: cell_def)
qed simp

lemma place_exit_level:
  assumes "place_exit s rs = Some (s', rs')" and "stocked s" and "exits s = {}"
  shows "level s' \<and> n_fruits s' = n_fruits s \<and> maze_x_dim s' = maze_x_dim s \<and> maze_y_dim s' = maze_y_dim s \<and>
    (\<forall>p. cells s' p AND MAZE_WALL = cells s p AND MAZE_WALL) \<and>
    (\<forall>p. cells s' p AND MAZE_REACH = cells s p AND MAZE_REACH) \<and> idx s' (exit_x s') (exit_y s') \<notin> fruited s'"
proof -
  have d: "0 < maze_x_dim s" "0 < maze_y_dim s" using assms(2) by (simp_all add: stocked_def)
  obtain x y where p: "pick_until (\<lambda>x y. cell s x y AND MAZE_FRUIT = 0) (maze_x_dim s) (maze_y_dim s) rs = Some (x, y, rs')"
    and s': "s' = (set_cell x y (cell s x y OR MAZE_EXIT) s)\<lparr>exit_x := x, exit_y := y\<rparr>"
    using assms(1) by (auto simp: place_exit_def split: option.splits)
  have o: "cell s x y AND MAZE_FRUIT = 0" "x \<in> set (odds (maze_x_dim s))" "y \<in> set (odds (maze_y_dim s))"
    using pick_until_SomeD [OF p d] by simp_all
  have pf: "idx s x y \<in> field (maze_x_dim s) (maze_y_dim s)" using latticeI [OF o(2,3)] lattice_field by blast
  have f: "fruited s' = fruited s" by (auto simp: fruited_def s' set_cell_def cell_def)
  have "framed (maze_x_dim s) (maze_y_dim s) (cells s')"
    by (rule framed_cong [of _ _ "cells s"]) (use assms(2) in \<open>simp_all add: stocked_def s' set_cell_def cell_def\<close>)
  then have "stocked s'" using assms(2) f unfolding stocked_def by (simp add: s' set_cell_def)
  moreover have "exits s' = {idx s x y}" using assms(3) pf by (auto simp: exits_def s' set_cell_def)
  moreover have "idx s x y \<notin> fruited s'" using o(1) unfolding f by (simp add: fruited_def cell_def)
  ultimately show ?thesis using o by (simp add: level_def s' set_cell_def cell_def)
qed


text \<open>While lattice points without fruit are left, some numbers place a fruit, or the exit, there.\<close>

lemma free_point:
  assumes "stocked s" and "n_fruits s < maze_x_dim s * maze_y_dim s"
  obtains x y where "x \<in> set (odds (maze_x_dim s))" "y \<in> set (odds (maze_y_dim s))" "cell s x y AND MAZE_FRUIT = 0"
proof -
  have "fruited s \<noteq> lattice (maze_x_dim s) (maze_y_dim s)"
    using assms by (auto simp: stocked_def card_lattice)
  then obtain p where p: "p \<in> lattice (maze_x_dim s) (maze_y_dim s)" "p \<notin> fruited s"
    using assms(1) by (auto simp: stocked_def)
  obtain x y where xy: "p = idx s x y" "x \<in> set (odds (maze_x_dim s))" "y \<in> set (odds (maze_y_dim s))"
    using p(1) by (rule latticeE)
  have "cell s x y AND MAZE_FRUIT = 0"
    using p lattice_field by (auto simp: fruited_def cell_def xy(1))
  then show ?thesis using that xy by blast
qed

lemma add_fruits_total:
  assumes "stocked s" and "n_fruits s + int n \<le> maze_x_dim s * maze_y_dim s"
  shows "\<exists>rs s'. \<forall>rest. add_fruits n s (rs @ rest) = Some (s', rest)"
  using assms
proof (induction n arbitrary: s)
  case 0
  have "\<forall>rest. add_fruits 0 s ([] @ rest) = Some (s, rest)" by simp
  then show ?case by blast
next
  case (Suc n)
  obtain x y where xy: "x \<in> set (odds (maze_x_dim s))" "y \<in> set (odds (maze_y_dim s))" "cell s x y AND MAZE_FRUIT = 0"
    using free_point [OF Suc.prems(1)] Suc.prems(2) by auto
  let ?s1 = "s\<lparr>cells := (cells s)(idx s x y := cell s x y OR fruit_bits 0), n_fruits := n_fruits s + 1\<rparr>"
  have "pick_until (\<lambda>x y. cell s x y AND MAZE_FRUIT = 0) (maze_x_dim s) (maze_y_dim s) (nat (x div 2) # nat (y div 2) # rest)
      = Some (x, y, rest)" for rest
    using pick_until_hit [of x _ y _ "\<lambda>x y. cell s x y AND MAZE_FRUIT = 0"] xy by blast
  then have a: "add_fruit s (nat (x div 2) # nat (y div 2) # 0 # rest) = Some (x, y, ?s1, rest)" for rest
    by (simp add: add_fruit_def set_cell_def fruit_bits_def)
  obtain rs s' where "\<And>rest. add_fruits n ?s1 (rs @ rest) = Some (s', rest)"
    using Suc.IH [OF stocked_fruit(1) [OF Suc.prems(1) xy, of 0]] Suc.prems(2) by auto
  then have "\<forall>rest. add_fruits (Suc n) s ((nat (x div 2) # nat (y div 2) # 0 # rs) @ rest) = Some (s', rest)"
    by (simp add: a)
  then show ?case by blast
qed

lemma place_exit_total:
  assumes "stocked s" and "n_fruits s < maze_x_dim s * maze_y_dim s"
  shows "\<exists>rs s'. place_exit s rs = Some (s', [])"
proof -
  obtain x y where xy: "x \<in> set (odds (maze_x_dim s))" "y \<in> set (odds (maze_y_dim s))" "cell s x y AND MAZE_FRUIT = 0"
    using free_point [OF assms] .
  have "pick_until (\<lambda>x y. cell s x y AND MAZE_FRUIT = 0) (maze_x_dim s) (maze_y_dim s) [nat (x div 2), nat (y div 2)] = Some (x, y, [])"
    using pick_until_hit [of x _ y _ "\<lambda>x y. cell s x y AND MAZE_FRUIT = 0"] xy by blast
  then have "\<exists>s'. place_exit s [nat (x div 2), nat (y div 2)] = Some (s', [])" by (simp add: place_exit_def)
  then show ?thesis by blast
qed

section \<open>Making a maze\<close>

text \<open>The marks removed and, in god mode, the inside cleared.\<close>

definition cleared :: "maze \<Rightarrow> maze" where
  "cleared s = (for_cells (inner (maze_x_dim s)) (inner (maze_y_dim s)) (\<lambda>_. MAZE_NONE)
     (for_cells (odds (maze_x_dim s)) (odds (maze_y_dim s)) (\<lambda>v. v AND NOT MAZE_REACH) s))\<lparr>n_fruits := 0\<rparr>"

lemma lattice_inside: "lattice xd yd \<subseteq> inside xd yd"
  using odds_inner by (fastforce simp: lattice_def inside_def)

lemma cleared_cells:
  "cleared s = s\<lparr>cells := \<lambda>p. if p \<in> inside (maze_x_dim s) (maze_y_dim s) then MAZE_NONE else cells s p, n_fruits := 0\<rparr>"
proof -
  let ?X = "maze_x_dim s" and ?Y = "maze_y_dim s"
  have o: "set (odds ?X) \<subseteq> {0..<2 * ?X}" and i: "set (inner ?X) \<subseteq> {0..<2 * ?X}"
    by (auto simp: in_odds in_inner)
  let ?s1 = "for_cells (odds ?X) (odds ?Y) (\<lambda>v. v AND NOT MAZE_REACH) s"
  have s1: "?s1 = s\<lparr>cells := \<lambda>p. if p \<in> lattice ?X ?Y then cells s p AND NOT MAZE_REACH else cells s p\<rparr>"
    unfolding lattice_def by (rule for_cells_cells [OF refl distinct_odds distinct_odds o])
  have "for_cells (inner ?X) (inner ?Y) (\<lambda>_. MAZE_NONE) ?s1 =
     ?s1\<lparr>cells := \<lambda>p. if p \<in> inside ?X ?Y then MAZE_NONE else cells ?s1 p\<rparr>"
    unfolding inside_def by (rule for_cells_cells [OF _ distinct_inner distinct_inner i]) (simp add: s1)
  then show ?thesis
    using lattice_inside [of ?X ?Y] unfolding cleared_def by (auto simp: s1 intro!: maze.equality ext)
qed

lemma make_maze_unfold:
  assumes "MAZE_MIN_X_DIM \<le> xd" "xd \<le> MAZE_MAX_X_DIM" "MAZE_MIN_Y_DIM \<le> yd" "yd \<le> MAZE_MAX_Y_DIM"
    and "build_walls (fill_walls xd yd s) rs = Some (s2, rs2)" and "maze_x_dim s2 = xd" "maze_y_dim s2 = yd"
  shows "make_maze xd yd n s rs =
    (case add_fruits (nat n) (cleared s2) rs2 of
       None \<Rightarrow> None
     | Some (s5, rs5) \<Rightarrow> map_option (\<lambda>(s6, rs6). (0, s6, rs6)) (place_exit s5 rs5))"
  using assms by (simp add: make_maze_def Let_def not_less cleared_def)

lemma cleared_stocked:
  assumes c: "connecting xd yd s 0"
  shows "stocked (cleared s) \<and> exits (cleared s) = {} \<and> n_fruits (cleared s) = 0 \<and>
     maze_x_dim (cleared s) = xd \<and> maze_y_dim (cleared s) = yd \<and>
     (\<forall>p\<in>inside xd yd. cells (cleared s) p AND MAZE_WALL = 0) \<and>
     (\<forall>p\<in>field xd yd. cells (cleared s) p AND MAZE_REACH = 0)"
proof -
  have d: "maze_x_dim s = xd" "maze_y_dim s = yd" "0 < xd" "0 < yd" "framed xd yd (cells s)" "bare xd yd (cells s)"
    using c by (simp_all add: connecting_def)
  have f: "fruited (cleared s) = {}" "exits (cleared s) = {}" "\<forall>p\<in>field xd yd. cells (cleared s) p AND MAZE_REACH = 0"
    using d(6) lattice_inside [of xd yd] by (auto simp: fruited_def exits_def cleared_cells bare_def d(1,2))
  have w: "maze_index xd (2 * xd) y = maze_index xd 0 (y + 1)" for y
    by (simp add: maze_index_def algebra_simps)
  have "maze_index xd 0 y \<notin> inside xd yd" for y by (auto simp: inside_def in_inner maze_index_eq)
  moreover have "maze_index xd x 0 \<notin> inside xd yd \<and> maze_index xd x (2 * yd) \<notin> inside xd yd" if "x \<in> set (inner xd)" for x
    using that by (auto simp: inside_def in_inner maze_index_eq)
  ultimately have "framed xd yd (cells (cleared s))"
    using d(5) by (simp add: framed_def cleared_cells d(1,2) w)
  then show ?thesis
    using f d by (simp add: stocked_def cleared_cells)
qed


definition good_dims :: "int \<Rightarrow> int \<Rightarrow> bool" where
  "good_dims xd yd \<longleftrightarrow> MAZE_MIN_X_DIM \<le> xd \<and> xd \<le> MAZE_MAX_X_DIM \<and> MAZE_MIN_Y_DIM \<le> yd \<and> yd \<le> MAZE_MAX_Y_DIM"

lemma good_walls: "good_dims xd yd \<Longrightarrow> digging xd yd (fill_walls xd yd s) (xd * yd) \<and> 2 \<le> yd"
  using dims_good [of xd yd] fill_walls_digging [of xd yd s] by (simp add: good_dims_def)

lemma make_maze_total:
  assumes g: "good_dims xd yd" and "0 \<le> n" "n < xd * yd"
  shows "\<exists>rs s'. make_maze xd yd n s rs = Some (0, s', [])"
proof -
  obtain rs1 s1 where b: "\<And>rest. build_walls (fill_walls xd yd s) (rs1 @ rest) = Some (s1, rest)"
    using build_walls_total good_walls [OF g] by blast
  have c: "connecting xd yd s1 0" using build_walls_linked [OF b] good_walls [OF g] by blast
  note st = cleared_stocked [OF c]
  obtain rs2 s2 where f: "\<And>rest. add_fruits (nat n) (cleared s1) (rs2 @ rest) = Some (s2, rest)"
    using add_fruits_total [of "cleared s1" "nat n"] st assms(2,3) by auto
  note st2 = stocked_add_fruits [OF f conjunct1 [OF st]]
  obtain rs3 s3 where e: "place_exit s2 rs3 = Some (s3, [])"
    using place_exit_total [of s2] st2 st assms(2,3) by auto
  have "make_maze xd yd n s (rs1 @ rs2 @ rs3) = Some (0, s3, [])"
    using make_maze_unfold [OF _ _ _ _ b] g c f e by (simp add: good_dims_def connecting_def)
  then show ?thesis by blast
qed

lemma make_maze_bad: "\<not> good_dims xd yd \<Longrightarrow> make_maze xd yd n s rs = Some (-1, s, rs)"
  by (simp add: good_dims_def make_maze_def not_le)

lemma make_maze_result:
  assumes g: "good_dims xd yd" and "0 \<le> n" and m: "make_maze xd yd n s rs = Some (v, s', rs')"
  shows "v = 0 \<and> maze_x_dim s' = xd \<and> maze_y_dim s' = yd \<and> level s' \<and> n_fruits s' = n \<and>
    idx s' (exit_x s') (exit_y s') \<notin> fruited s' \<and>
    (\<forall>p\<in>inside xd yd. cells s' p AND MAZE_WALL = 0) \<and> (\<forall>p\<in>field xd yd. cells s' p AND MAZE_REACH = 0)"
proof -
  obtain s1 rs1 where b: "build_walls (fill_walls xd yd s) rs = Some (s1, rs1)"
    using m g by (auto simp: make_maze_def good_dims_def split: option.splits if_splits)
  have c: "connecting xd yd s1 0" using build_walls_linked [OF b] good_walls [OF g] by blast
  have "make_maze xd yd n s rs = (case add_fruits (nat n) (cleared s1) rs1 of None \<Rightarrow> None
     | Some (s5, rs5) \<Rightarrow> map_option (\<lambda>(s6, rs6). (0, s6, rs6)) (place_exit s5 rs5))"
    using make_maze_unfold [OF _ _ _ _ b] g c by (simp add: good_dims_def connecting_def)
  then obtain s2 rs2 where f: "add_fruits (nat n) (cleared s1) rs1 = Some (s2, rs2)"
    and e: "place_exit s2 rs2 = Some (s', rs')" and v: "v = 0"
    using m by (auto simp: map_option_case split: option.splits prod.splits)
  note st = cleared_stocked [OF c]
  note st2 = stocked_add_fruits [OF f conjunct1 [OF st]]
  note st3 = place_exit_level [OF e conjunct1 [OF st2]]
  show ?thesis using st st2 st3 v assms(2) by (elim conjE) auto
qed

text \<open>
  C34. Making a maze: bad dimensions are refused and nothing changes; otherwise there are random numbers
  for which it returns, and whatever they were, it leaves a level of the dimensions asked for: a closed
  boundary, as many fruits as asked for, each on a lattice point of its own, and one exit, on a
  lattice point without fruit; nothing is unveiled, and (god mode) no wall is left inside.
\<close>

theorem make_maze_level:
  assumes "0 \<le> n"
  shows "(\<not> good_dims xd yd \<longrightarrow> make_maze xd yd n s rs = Some (-1, s, rs)) \<and>
    (good_dims xd yd \<and> n < xd * yd \<longrightarrow> (\<exists>rs s'. make_maze xd yd n s rs = Some (0, s', []))) \<and>
    (good_dims xd yd \<longrightarrow> make_maze xd yd n s rs = Some (v, s', rs') \<longrightarrow>
       v = 0 \<and> maze_x_dim s' = xd \<and> maze_y_dim s' = yd \<and> level s' \<and> n_fruits s' = n \<and>
       idx s' (exit_x s') (exit_y s') \<notin> fruited s' \<and>
       (\<forall>p\<in>inside xd yd. cells s' p AND MAZE_WALL = 0) \<and> (\<forall>p\<in>field xd yd. cells s' p AND MAZE_REACH = 0))"
  using make_maze_bad make_maze_total [OF _ assms] make_maze_result [OF _ assms] by blast

lemma good_dims_20: "good_dims 20 20"
  by (simp add: good_dims_def MAZE_MIN_X_DIM_def MAZE_MAX_X_DIM_def MAZE_MIN_Y_DIM_def MAZE_MAX_Y_DIM_def
      SCROLL_X_DIM_def SCROLL_Y_DIM_def IMAGE_X_DIM_def IMAGE_Y_DIM_def BLOCK_X_DIM_def BLOCK_Y_DIM_def SHOW_MIN_def)

theorem make_maze_level_witness:
  "(\<exists>rs s'. make_maze 20 20 5 corridor rs = Some (0, s', [])) \<and> make_maze 2 20 5 corridor [] = Some (-1, corridor, [])"
proof -
  have "\<not> good_dims 2 20"
    by (simp add: good_dims_def MAZE_MIN_X_DIM_def SCROLL_X_DIM_def IMAGE_X_DIM_def BLOCK_X_DIM_def SHOW_MIN_def)
  then show ?thesis
    using make_maze_level [of 5 20 20 corridor] make_maze_level [of 5 2 20 corridor] good_dims_20 by simp
qed

section \<open>Playing\<close>

lemma level_cong:
  assumes "level s" and "s' = s\<lparr>cells := cells s'\<rparr>"
    and "\<And>p. cells s' p AND MAZE_WALL = cells s p AND MAZE_WALL" "\<And>p. cells s' p AND MAZE_FRUIT = cells s p AND MAZE_FRUIT"
      "\<And>p. cells s' p AND MAZE_EXIT = cells s p AND MAZE_EXIT"
  shows "level s'"
proof -
  have d: "maze_x_dim s' = maze_x_dim s" "maze_y_dim s' = maze_y_dim s" "n_fruits s' = n_fruits s" "exit_x s' = exit_x s" "exit_y s' = exit_y s"
    by (subst assms(2), simp)+
  have "fruited s' = fruited s" "exits s' = exits s" by (simp_all add: fruited_def exits_def d assms(4,5))
  then show ?thesis
    using assms(1) framed_cong [of _ _ "cells s" "cells s'"] assms(3) by (simp add: level_def stocked_def d)
qed

lemma unveil_space_level: "level (fst sc) \<Longrightarrow> level (fst (unveil_space blocks x y sc))"
  by (rule level_cong [of "fst sc"]) (auto simp: unveil_space_def Let_def draw_cell_def set_cell_def cell_def)

text \<open>Eating a fruit.\<close>

definition eat :: "int \<Rightarrow> int \<Rightarrow> maze \<Rightarrow> maze" where
  "eat x y s = s\<lparr>cells := (cells s)(idx s x y := cell s x y AND NOT MAZE_FRUIT), n_fruits := n_fruits s - 1\<rparr>"

lemma check_for_fruit_eats:
  "fst (snd (check_for_fruit blocks x y sc)) = (if fst (check_for_fruit blocks x y sc) = 0 then fst sc else eat x y (fst sc))"
  by (auto simp: check_for_fruit_def Let_def draw_cell_def set_cell_def cell_def eat_def)

lemma eat_level:
  assumes l: "level s" and x: "0 \<le> x" "x < 2 * maze_x_dim s" and y: "0 \<le> y" "y < 2 * maze_y_dim s"
    and f: "cell s x y AND MAZE_FRUIT \<noteq> 0"
  shows "level (eat x y s)"
proof -
  have "idx s x y \<in> field (maze_x_dim s) (maze_y_dim s)" using x y by (intro field_row) auto
  then have "idx s x y \<in> fruited s" using f by (simp add: fruited_def cell_def)
  moreover have fr: "fruited (eat x y s) = fruited s - {idx s x y}"
    by (auto simp: fruited_def eat_def)
  ultimately have "card (fruited (eat x y s)) = card (fruited s) - 1" "0 < card (fruited s)"
    by (auto simp: card_gt_0_iff)
  moreover have "exits (eat x y s) = exits s" by (auto simp: exits_def eat_def cell_def)
  moreover have "framed (maze_x_dim s) (maze_y_dim s) (cells (eat x y s))"
    by (rule framed_cong [of _ _ "cells s"]) (use l in \<open>simp_all add: level_def stocked_def eat_def cell_def\<close>)
  ultimately show ?thesis
    using l fr unfolding level_def stocked_def by (auto simp: eat_def)
qed

lemma check_for_fruit_level: "level (fst sc) \<Longrightarrow> level (fst (snd (check_for_fruit blocks x y sc)))"
  using eat_level [of "fst sc" x y]
  by (subst check_for_fruit_eats) (auto simp: check_for_fruit_def Let_def split: if_splits)

lemma add_a_fruit_level:
  assumes "add_a_fruit blocks sc rs = Some (n, sc', rs')" and l: "level (fst sc)"
  shows "level (fst sc') \<and> n = n_fruits (fst sc') \<and> n = n_fruits (fst sc) + 1"
proof -
  obtain x y s1 where a: "add_fruit (fst sc) rs = Some (x, y, s1, rs')" and s1: "fst sc' = s1" "n = n_fruits s1"
    using assms(1) by (auto simp: add_a_fruit_def draw_cell_def Let_def split: option.splits if_splits)
  have st: "stocked (fst sc)" using l by (simp add: level_def)
  obtain r where r: "x \<in> set (odds (maze_x_dim (fst sc)))" "y \<in> set (odds (maze_y_dim (fst sc)))" "cell (fst sc) x y AND MAZE_FRUIT = 0"
    "s1 = (fst sc)\<lparr>cells := (cells (fst sc))(idx (fst sc) x y := cell (fst sc) x y OR fruit_bits r), n_fruits := n_fruits (fst sc) + 1\<rparr>"
    using add_fruit_SomeD [OF a st] .
  note f = stocked_fruit [OF st r(1-3), of r, folded r(4)]
  show ?thesis using l f s1 r(4) by (simp add: level_def)
qed

text \<open>The levels a player can meet.\<close>

inductive play :: "(nat \<Rightarrow> int \<Rightarrow> u8) \<Rightarrow> scene \<Rightarrow> bool" for blocks where
  make: "good_dims xd yd \<Longrightarrow> 0 \<le> n \<Longrightarrow> make_maze xd yd n s rs = Some (v, s', rs') \<Longrightarrow> play blocks (s', d)"
| unveil: "play blocks sc \<Longrightarrow> play blocks (unveil_space blocks x y sc)"
| fruit: "play blocks sc \<Longrightarrow> play blocks (snd (check_for_fruit blocks x y sc))"
| more: "play blocks sc \<Longrightarrow> add_a_fruit blocks sc rs = Some (n, sc', rs') \<Longrightarrow> play blocks sc'"

lemma play_level: "play blocks sc \<Longrightarrow> level (fst sc)"
proof (induction rule: play.induct)
  case (make xd yd n s rs v s' rs' d)
  then show ?case using make_maze_result by simp
qed (use unveil_space_level check_for_fruit_level add_a_fruit_level in blast)+

lemma check_for_win_level:
  assumes "level s"
  shows "check_for_win x y s \<longleftrightarrow> n_fruits s = 0 \<and> x = exit_x s \<and> y = exit_y s"
proof -
  have o: "exit_x s \<in> set (odds (maze_x_dim s))" "exit_y s \<in> set (odds (maze_y_dim s))"
    and e: "exits s = {idx s (exit_x s) (exit_y s)}" using assms by (simp_all add: level_def)
  note r = odds_range [OF o(1)] odds_range [OF o(2)]
  show ?thesis
  proof (cases "0 \<le> x \<and> x < 2 * maze_x_dim s \<and> 0 \<le> y \<and> y < 2 * maze_y_dim s")
    case True
    then have "idx s x y \<in> field (maze_x_dim s) (maze_y_dim s)" by (intro field_row) auto
    then have "cell s x y AND MAZE_EXIT \<noteq> 0 \<longleftrightarrow> idx s x y \<in> exits s" by (simp add: exits_def cell_def)
    also have "\<dots> \<longleftrightarrow> x = exit_x s \<and> y = exit_y s" using e r True by (simp add: maze_index_eq)
    finally show ?thesis using True by (auto simp: check_for_win_def)
  next
    case False
    then show ?thesis using r by (auto simp: check_for_win_def)
  qed
qed

text \<open>
  C35. Whatever a player does, the maze stays a level: every fruit is on a lattice point, the count of
  fruits is the number of fruited bytes, there is one exit, and the boundary is closed.  So the player
  has won exactly at the exit with no fruit left, and eating takes one fruit away where there is one.
\<close>

theorem play_keeps_level:
  assumes "play blocks sc"
  shows "level (fst sc) \<and>
    check_for_win x y (fst sc) = (n_fruits (fst sc) = 0 \<and> x = exit_x (fst sc) \<and> y = exit_y (fst sc)) \<and>
    n_fruits (fst (snd (check_for_fruit blocks x y sc))) =
      n_fruits (fst sc) - (if fst (check_for_fruit blocks x y sc) = 0 then 0 else 1)"
  using play_level [OF assms] check_for_win_level check_for_fruit_eats [of blocks x y sc] by (simp add: eat_def)

theorem play_keeps_level_witness: "\<exists>sc. play (\<lambda>_ _. 0) (unveil_space (\<lambda>_ _. 0) 1 1 sc) \<and> level (fst (unveil_space (\<lambda>_ _. 0) 1 1 sc))"
proof -
  obtain rs s' where "make_maze 20 20 3 corridor rs = Some (0, s', [])"
    using make_maze_total [OF good_dims_20, of 3 corridor] by auto
  then have "play (\<lambda>_ _. 0) (unveil_space (\<lambda>_ _. 0) 1 1 (s', undefined))"
    by (intro play.unveil play.make [OF good_dims_20, of 3]) auto
  then show ?thesis using play_keeps_level by blast
qed

end
