(* ===== verification/Maze_Picture.thy ===== *)
theory Maze_Picture
  imports Maze
begin

text \<open>
  The pictures of the maze: the line buffers hold, byte by byte, the picture that is given by looking
  up the block of every pixel.
\<close>

definition maze_pixel :: "(nat \<Rightarrow> int \<Rightarrow> u8) \<Rightarrow> maze \<Rightarrow> int \<Rightarrow> int \<Rightarrow> u8" where
  "maze_pixel blocks s x y =
     blocks (find_block s (x div BLOCK_X_DIM) (y div BLOCK_Y_DIM)) ((y mod BLOCK_Y_DIM) * BLOCK_X_DIM + x mod BLOCK_X_DIM)"

lemma fill_run_eq:
  assumes "i \<le> len" "sub \<le> dim"
  defines "n \<equiv> min (len - i) (dim - sub)"
  shows "fill_run len dim stride i sub block at buf =
    (i + n, \<lambda>k. if i \<le> k \<and> k < i + n then block (at + stride * (k - i)) else buf k)"
  using assms(1,2) unfolding n_def
proof (induction len dim stride i sub block at buf rule: fill_run.induct)
  case (1 len dim stride i sub block at buf)
  show ?case
  proof (cases "i < len \<and> sub < dim")
    case True
    have e: "at + stride + stride * (k - (i + 1)) = at + stride * (k - i)" for k
      by (simp add: algebra_simps)
    have m: "i + 1 + min (len - (i + 1)) (dim - (sub + 1)) = i + min (len - i) (dim - sub)" by simp
    have "fill_run len dim stride i sub block at buf =
        fill_run len dim stride (i + 1) (sub + 1) block (at + stride) (buf(i := block at))"
      using True by (subst fill_run.simps) simp
    also have "\<dots> = (i + 1 + min (len - (i + 1)) (dim - (sub + 1)),
        \<lambda>k. if i + 1 \<le> k \<and> k < i + 1 + min (len - (i + 1)) (dim - (sub + 1))
            then block (at + stride + stride * (k - (i + 1))) else (buf(i := block at)) k)"
      by (rule 1(1)) (use True in auto)
    finally show ?thesis unfolding e m using True by (auto simp: fun_eq_iff)
  next
    case False
    then have "min (len - i) (dim - sub) = 0" using 1(2,3) by auto
    then show ?thesis using False by (subst fill_run.simps) (auto simp: fun_eq_iff)
  qed
qed

text \<open>The pixel \<open>k\<close> of a line whose first pixel is \<open>sub\<close> into the block \<open>m\<close>.\<close>

lemma next_pixel_block:
  assumes "0 \<le> sub" "sub < 12" and "i + (12 - sub) \<le> k"
  shows "(sub + (k - i)) div 12 = 1 + (k - (i + (12 - sub))) div (12 :: int)"
    and "(sub + (k - i)) mod 12 = (k - (i + (12 - sub))) mod (12 :: int)"
proof -
  have e: "sub + (k - i) = (k - (i + (12 - sub))) + 12" by simp
  show "(sub + (k - i)) div 12 = 1 + (k - (i + (12 - sub))) div 12" unfolding e by simp
  show "(sub + (k - i)) mod 12 = (k - (i + (12 - sub))) mod 12" unfolding e by (simp only: mod_add_self2)
qed

lemma fill_horiz_eq:
  assumes "0 \<le> sub_x" "sub_x < 12"
  shows "fill_horiz blocks s i map_x map_y sub_x sub_y buf = Some (\<lambda>k. if i \<le> k \<and> k < SCROLL_X_DIM
    then blocks (find_block s (map_x + (sub_x + (k - i)) div 12) map_y) (sub_y * 12 + (sub_x + (k - i)) mod 12) else buf k)"
  using assms
proof (induction "nat (SCROLL_X_DIM - i)" arbitrary: i map_x sub_x buf rule: less_induct)
  case less
  show ?case
  proof (cases "i < SCROLL_X_DIM")
    case False
    then show ?thesis by (subst fill_horiz.simps) (auto simp: fun_eq_iff)
  next
    case True
    let ?n = "min (SCROLL_X_DIM - i) (12 - sub_x)"
    define buf1 where "buf1 = (\<lambda>k. if i \<le> k \<and> k < i + ?n
      then blocks (find_block s map_x map_y) (sub_y * 12 + sub_x + 1 * (k - i)) else buf k)"
    have "fill_horiz blocks s i map_x map_y sub_x sub_y buf = fill_horiz blocks s (i + ?n) (map_x + 1) map_y 0 sub_y buf1"
      using True less.prems by (subst fill_horiz.simps) (simp add: BLOCK_X_DIM_def fill_run_eq buf1_def)
    also have "\<dots> = Some (\<lambda>k. if i + ?n \<le> k \<and> k < SCROLL_X_DIM
      then blocks (find_block s (map_x + 1 + (0 + (k - (i + ?n))) div 12) map_y) (sub_y * 12 + (0 + (k - (i + ?n))) mod 12) else buf1 k)"
      by (rule less.hyps) (use True less.prems in auto)
    also have "\<dots> = Some (\<lambda>k. if i \<le> k \<and> k < SCROLL_X_DIM
      then blocks (find_block s (map_x + (sub_x + (k - i)) div 12) map_y) (sub_y * 12 + (sub_x + (k - i)) mod 12) else buf k)"
    proof (intro arg_cong [of _ _ Some] ext)
      fix k
      consider "k < i \<or> SCROLL_X_DIM \<le> k" | "i \<le> k" "k < i + ?n" "k < SCROLL_X_DIM" | "i + ?n \<le> k" "k < SCROLL_X_DIM" by linarith
      then show "(if i + ?n \<le> k \<and> k < SCROLL_X_DIM
        then blocks (find_block s (map_x + 1 + (0 + (k - (i + ?n))) div 12) map_y) (sub_y * 12 + (0 + (k - (i + ?n))) mod 12) else buf1 k)
        = (if i \<le> k \<and> k < SCROLL_X_DIM
        then blocks (find_block s (map_x + (sub_x + (k - i)) div 12) map_y) (sub_y * 12 + (sub_x + (k - i)) mod 12) else buf k)"
      proof cases
        case 1 then show ?thesis using True less.prems by (auto simp: buf1_def)
      next
        case 2
        then have "0 \<le> sub_x + (k - i)" "sub_x + (k - i) < 12" using less.prems by auto
        then show ?thesis using 2 by (simp add: buf1_def div_pos_pos_trivial mod_pos_pos_trivial algebra_simps)
      next
        case 3
        then have n: "?n = 12 - sub_x" by auto
        then have k: "i + (12 - sub_x) \<le> k" using 3 by simp
        show ?thesis unfolding n next_pixel_block [OF less.prems k] using 3 k less.prems by (simp add: add.assoc)
      qed
    qed
    finally show ?thesis .
  qed
qed

lemma fill_vert_eq:
  assumes "0 \<le> sub_y" "sub_y < 12"
  shows "fill_vert blocks s i map_x map_y sub_x sub_y buf = Some (\<lambda>k. if i \<le> k \<and> k < SCROLL_Y_DIM
    then blocks (find_block s map_x (map_y + (sub_y + (k - i)) div 12)) ((sub_y + (k - i)) mod 12 * 12 + sub_x) else buf k)"
  using assms
proof (induction "nat (SCROLL_Y_DIM - i)" arbitrary: i map_y sub_y buf rule: less_induct)
  case less
  show ?case
  proof (cases "i < SCROLL_Y_DIM")
    case False
    then show ?thesis by (subst fill_vert.simps) (auto simp: fun_eq_iff)
  next
    case True
    let ?n = "min (SCROLL_Y_DIM - i) (12 - sub_y)"
    define buf1 where "buf1 = (\<lambda>k. if i \<le> k \<and> k < i + ?n
      then blocks (find_block s map_x map_y) (sub_y * 12 + sub_x + 12 * (k - i)) else buf k)"
    have "fill_vert blocks s i map_x map_y sub_x sub_y buf = fill_vert blocks s (i + ?n) map_x (map_y + 1) sub_x 0 buf1"
      using True less.prems by (subst fill_vert.simps) (simp add: BLOCK_X_DIM_def BLOCK_Y_DIM_def fill_run_eq buf1_def)
    also have "\<dots> = Some (\<lambda>k. if i + ?n \<le> k \<and> k < SCROLL_Y_DIM
      then blocks (find_block s map_x (map_y + 1 + (0 + (k - (i + ?n))) div 12)) ((0 + (k - (i + ?n))) mod 12 * 12 + sub_x) else buf1 k)"
      by (rule less.hyps) (use True less.prems in auto)
    also have "\<dots> = Some (\<lambda>k. if i \<le> k \<and> k < SCROLL_Y_DIM
      then blocks (find_block s map_x (map_y + (sub_y + (k - i)) div 12)) ((sub_y + (k - i)) mod 12 * 12 + sub_x) else buf k)"
    proof (intro arg_cong [of _ _ Some] ext)
      fix k
      consider "k < i \<or> SCROLL_Y_DIM \<le> k" | "i \<le> k" "k < i + ?n" "k < SCROLL_Y_DIM" | "i + ?n \<le> k" "k < SCROLL_Y_DIM" by linarith
      then show "(if i + ?n \<le> k \<and> k < SCROLL_Y_DIM
        then blocks (find_block s map_x (map_y + 1 + (0 + (k - (i + ?n))) div 12)) ((0 + (k - (i + ?n))) mod 12 * 12 + sub_x) else buf1 k)
        = (if i \<le> k \<and> k < SCROLL_Y_DIM
        then blocks (find_block s map_x (map_y + (sub_y + (k - i)) div 12)) ((sub_y + (k - i)) mod 12 * 12 + sub_x) else buf k)"
      proof cases
        case 1 then show ?thesis using True less.prems by (auto simp: buf1_def)
      next
        case 2
        then have "0 \<le> sub_y + (k - i)" "sub_y + (k - i) < 12" using less.prems by auto
        then show ?thesis using 2 by (simp add: buf1_def div_pos_pos_trivial mod_pos_pos_trivial algebra_simps)
      next
        case 3
        then have n: "?n = 12 - sub_y" by auto
        then have k: "i + (12 - sub_y) \<le> k" using 3 by simp
        show ?thesis unfolding n next_pixel_block [OF less.prems k] using 3 k less.prems by (simp add: add.assoc)
      qed
    qed
    finally show ?thesis .
  qed
qed

lemma sdiv_nonneg: "0 \<le> (a :: int) \<Longrightarrow> 0 < b \<Longrightarrow> a sdiv b = a div b"
  by (cases "a = 0") (simp_all add: signed_divide_int_def)

lemma sub_block: "(x :: int) - x div 12 * 12 = x mod 12" "0 \<le> x mod 12" "x mod 12 < (12 :: int)"
  by (simp_all add: minus_div_mult_eq_mod)

lemma offset_block:
  "x div 12 + (x mod 12 + i) div 12 = (x + i) div 12" "(x mod 12 + i) mod 12 = (x + i) mod (12 :: int)"
proof -
  have e: "x + i = (x mod 12 + i) + (x div 12) * 12"
    using mod_div_mult_eq [of x 12] by linarith
  have "(x + i) div 12 = ((x mod 12 + i) + (x div 12) * 12) div 12" using e by (rule arg_cong)
  also have "\<dots> = x div 12 + (x mod 12 + i) div 12" by (rule div_mult_self1) simp
  finally show "x div 12 + (x mod 12 + i) div 12 = (x + i) div 12" by (rule sym)
  show "(x mod 12 + i) mod 12 = (x + i) mod 12" by (rule mod_add_left_eq)
qed

lemma fill_buffers:
  assumes "0 \<le> x" and "0 \<le> y"
  shows "fill_horiz_buffer blocks s x y buf =
      Some (\<lambda>i. if 0 \<le> i \<and> i < SCROLL_X_DIM then maze_pixel blocks s (x + i) y else buf i) \<and>
    fill_vert_buffer blocks s x y buf =
      Some (\<lambda>i. if 0 \<le> i \<and> i < SCROLL_Y_DIM then maze_pixel blocks s x (y + i) else buf i)"
  unfolding fill_horiz_buffer_def fill_vert_buffer_def Let_def BLOCK_X_DIM_def BLOCK_Y_DIM_def
    sdiv_nonneg [OF assms(1) zero_less_numeral] sdiv_nonneg [OF assms(2) zero_less_numeral] sub_block(1)
    fill_horiz_eq [OF sub_block(2,3)] fill_vert_eq [OF sub_block(2,3)]
    diff_0_right offset_block maze_pixel_def
  by simp

text \<open>
  C36. The line buffers show the maze: from a map pixel on, byte \<open>i\<close> of a buffer is the byte of the
  picture of the block under the \<open>i\<close>th pixel of the line, at the pixel's place in its block; every
  byte of the line is written, nothing else, and the loops end.
\<close>

theorem fill_buffers_show_maze:
  assumes "0 \<le> x" and "0 \<le> y"
  shows "fill_horiz_buffer blocks s x y buf =
      Some (\<lambda>i. if 0 \<le> i \<and> i < SCROLL_X_DIM then maze_pixel blocks s (x + i) y else buf i) \<and>
    fill_vert_buffer blocks s x y buf =
      Some (\<lambda>i. if 0 \<le> i \<and> i < SCROLL_Y_DIM then maze_pixel blocks s x (y + i) else buf i)"
  using fill_buffers [OF assms] .

theorem fill_buffers_show_maze_witness:
  "fill_horiz_buffer (\<lambda>b a. of_int a) \<lparr>cells = \<lambda>_. 0, maze_x_dim = 20, maze_y_dim = 20, n_fruits = 0, exit_x = 1, exit_y = 1\<rparr>
     17 30 (\<lambda>_. 0) \<noteq> None"
  using fill_buffers_show_maze [of 17 30] by simp

end
