(* ===== verification/Mazegame.thy ===== *)
theory Mazegame
  imports Maze_Level Maze_Picture
begin

text \<open>
  The game, \<^verbatim>\<open>mp2/mazegame.c\<close>: preparing a level, moving the player and the window, and the three
  threads.  The threads share the game; what one does while it holds the mutex is one step, and
  \<open>Mazegame_Spec\<close> interleaves the steps.

  \<open>int\<close> variables are integers; where C compares one with the unsigned \<open>map_x\<close> or \<open>map_y\<close> it is
  taken modulo \<open>2 ^ 32\<close>.  Inputs are parameters: the characters of the keyboard, the buttons of the
  controller, the data of the clock, \<open>random\<close>, and the word that lies behind the array \<open>open\<close>, which
  \<open>open[next_dir]\<close> reads while \<open>next_dir\<close> is \<open>DIR_STOP\<close>.
\<close>

section \<open>State\<close>

definition PAN_BORDER :: int where "PAN_BORDER = 5"
definition MAX_LEVEL :: int where "MAX_LEVEL = 10"

definition DIR_UP :: nat where "DIR_UP = 0"
definition DIR_RIGHT :: nat where "DIR_RIGHT = 1"
definition DIR_DOWN :: nat where "DIR_DOWN = 2"
definition DIR_LEFT :: nat where "DIR_LEFT = 3"
definition DIR_STOP :: nat where "DIR_STOP = 4"

record game_info =
  number :: int
  level_x_dim :: int
  level_y_dim :: int
  initial_fruit_count :: int
  time_to_first_fruit :: int
  time_between_fruits :: int
  tick_usec :: int
  map_x :: int
  map_y :: int

record game = game_info +
  world :: scene
  play_x :: int
  play_y :: int
  last_dir :: nat
  heading :: nat
  next_dir :: nat
  move_cnt :: int
  quit_flag :: bool
  winner :: bool
  my_time :: int
  pad :: u32
  buttons_pressed :: bool
  leds :: u32

definition as_unsigned :: "int \<Rightarrow> int" where "as_unsigned v = v mod 2 ^ 32"

section \<open>The window\<close>

text \<open>The line functions that \<open>main\<close> gives to \<open>set_mode_X\<close>; they never fail to end.\<close>

definition horiz_line :: "(nat \<Rightarrow> int \<Rightarrow> u8) \<Rightarrow> maze \<Rightarrow> int \<Rightarrow> int \<Rightarrow> int \<Rightarrow> u8" where
  "horiz_line blocks m x y = (case fill_horiz_buffer blocks m x y (\<lambda>_. 0) of None \<Rightarrow> (\<lambda>_. 0) | Some buf \<Rightarrow> buf)"

definition vert_line :: "(nat \<Rightarrow> int \<Rightarrow> u8) \<Rightarrow> maze \<Rightarrow> int \<Rightarrow> int \<Rightarrow> int \<Rightarrow> u8" where
  "vert_line blocks m x y = (case fill_vert_buffer blocks m x y (\<lambda>_. 0) of None \<Rightarrow> (\<lambda>_. 0) | Some buf \<Rightarrow> buf)"

text \<open>The window is moved and one line of it drawn.\<close>

definition pan_to_row :: "(nat \<Rightarrow> int \<Rightarrow> u8) \<Rightarrow> int \<Rightarrow> int \<Rightarrow> int \<Rightarrow> game \<Rightarrow> game" where
  "pan_to_row blocks x y line g =
     (let (m, d) = world g
      in g\<lparr>map_x := x, map_y := y, world := (m, snd (draw_horiz_line (horiz_line blocks m) line (set_view_window x y d)))\<rparr>)"

definition pan_to_column :: "(nat \<Rightarrow> int \<Rightarrow> u8) \<Rightarrow> int \<Rightarrow> int \<Rightarrow> int \<Rightarrow> game \<Rightarrow> game" where
  "pan_to_column blocks x y line g =
     (let (m, d) = world g
      in g\<lparr>map_x := x, map_y := y, world := (m, snd (draw_vert_line (vert_line blocks m) line (set_view_window x y d)))\<rparr>)"

definition move_up :: "(nat \<Rightarrow> int \<Rightarrow> u8) \<Rightarrow> game \<Rightarrow> game" where
  "move_up blocks g0 =
     (let g = g0\<lparr>play_y := play_y g0 - 1\<rparr>
      in if as_unsigned (play_y g) < as_unsigned (map_y g + BLOCK_Y_DIM * PAN_BORDER) \<and> map_y g > SHOW_MIN
         then pan_to_row blocks (map_x g) (as_unsigned (map_y g - 1)) 0 g else g)"

definition move_right :: "(nat \<Rightarrow> int \<Rightarrow> u8) \<Rightarrow> game \<Rightarrow> game" where
  "move_right blocks g0 =
     (let g = g0\<lparr>play_x := play_x g0 + 1\<rparr>
      in if as_unsigned (play_x g) > as_unsigned (map_x g + SCROLL_X_DIM - BLOCK_X_DIM * (PAN_BORDER + 1)) \<and>
            as_unsigned (map_x g + SCROLL_X_DIM) < as_unsigned ((2 * level_x_dim g + 1) * BLOCK_X_DIM - SHOW_MIN)
         then pan_to_column blocks (as_unsigned (map_x g + 1)) (map_y g) (SCROLL_X_DIM - 1) g else g)"

definition move_down :: "(nat \<Rightarrow> int \<Rightarrow> u8) \<Rightarrow> game \<Rightarrow> game" where
  "move_down blocks g0 =
     (let g = g0\<lparr>play_y := play_y g0 + 1\<rparr>
      in if as_unsigned (play_y g) > as_unsigned (map_y g + SCROLL_Y_DIM - BLOCK_Y_DIM * (PAN_BORDER + 1)) \<and>
            as_unsigned (map_y g + SCROLL_Y_DIM) < as_unsigned ((2 * level_y_dim g + 1) * BLOCK_Y_DIM - SHOW_MIN)
         then pan_to_row blocks (map_x g) (as_unsigned (map_y g + 1)) (SCROLL_Y_DIM - 1) g else g)"

definition move_left :: "(nat \<Rightarrow> int \<Rightarrow> u8) \<Rightarrow> game \<Rightarrow> game" where
  "move_left blocks g0 =
     (let g = g0\<lparr>play_x := play_x g0 - 1\<rparr>
      in if as_unsigned (play_x g) < as_unsigned (map_x g + BLOCK_X_DIM * PAN_BORDER) \<and> map_x g > SHOW_MIN
         then pan_to_column blocks (as_unsigned (map_x g - 1)) (map_y g) 0 g else g)"

section \<open>Levels\<close>

definition draw_window :: "(nat \<Rightarrow> int \<Rightarrow> u8) \<Rightarrow> maze \<Rightarrow> modex \<Rightarrow> modex" where
  "draw_window blocks m d = fold (\<lambda>i d. snd (draw_horiz_line (horiz_line blocks m) (int i) d)) [0..<nat SCROLL_Y_DIM] d"

text \<open>The parameters of a level.\<close>

definition level_info :: "int \<Rightarrow> game \<Rightarrow> game" where
  "level_info lvl g =
     (let l = lvl - 1; x = MAZE_MIN_X_DIM + 2 * l; y = MAZE_MIN_Y_DIM + 2 * l; f = 1 + l sdiv 2;
          t1 = 300 - 30 * l; t2 = 300 - 60 * l; u = 20000 - 1750 * l
      in g\<lparr>number := lvl,
           level_x_dim := (if x > MAZE_MAX_X_DIM then MAZE_MAX_X_DIM else x),
           level_y_dim := (if y > MAZE_MAX_Y_DIM then MAZE_MAX_Y_DIM else y),
           initial_fruit_count := (if f > 6 then 6 else f),
           time_to_first_fruit := (if t1 < 120 then 120 else t1),
           time_between_fruits := (if t2 < 60 then 60 else t2),
           tick_usec := (if u < 5000 then 5000 else u),
           map_x := SHOW_MIN, map_y := SHOW_MIN\<rparr>)"

definition prepare_maze_level :: "(nat \<Rightarrow> int \<Rightarrow> u8) \<Rightarrow> int \<Rightarrow> game \<Rightarrow> nat list \<Rightarrow> (int \<times> game \<times> nat list) option" where
  "prepare_maze_level blocks lvl g0 rs =
     (let g = level_info lvl g0; (m, d) = world g
      in case make_maze (level_x_dim g) (level_y_dim g) (initial_fruit_count g) m rs of
           None \<Rightarrow> None
         | Some (v, m1, rs1) \<Rightarrow>
             if v \<noteq> 0 then Some (-1, g\<lparr>world := (m1, d)\<rparr>, rs1)
             else Some (0, g\<lparr>world := (m1, draw_window blocks m1 (set_view_window (map_x g) (map_y g) d))\<rparr>, rs1))"

section \<open>The player\<close>

definition unveil_around_player :: "(nat \<Rightarrow> int \<Rightarrow> u8) \<Rightarrow> int \<Rightarrow> int \<Rightarrow> scene \<Rightarrow> bool \<times> scene" where
  "unveil_around_player blocks px py sc =
     (let x = px sdiv BLOCK_X_DIM; y = py sdiv BLOCK_Y_DIM;
          sc1 = snd (check_for_fruit blocks x y sc);
          sc2 = fold (\<lambda>i sc. fold (\<lambda>j sc. unveil_space blocks (x + i) (y + j) sc) [-1, 0, 1] sc) [-1, 0, 1] sc1;
          sc3 = unveil_space blocks (x - 2) y (unveil_space blocks x (y + 2)
                  (unveil_space blocks (x + 2) y (unveil_space blocks x (y - 2) sc2)))
      in (check_for_win x y (fst sc3), sc3))"

definition draw_player :: "(nat \<Rightarrow> int \<Rightarrow> u8) \<Rightarrow> game \<Rightarrow> game" where
  "draw_player blocks g =
     g\<lparr>world := (fst (world g), draw_refill_block (play_x g) (play_y g) (blocks (get_player_mask (last_dir g)))
                                  (blocks (get_player_block (last_dir g))) (snd (world g)))\<rparr>"

text \<open>The block behind the player is drawn again after a move.\<close>

definition redraw_block :: "(nat \<Rightarrow> int \<Rightarrow> u8) \<Rightarrow> int \<Rightarrow> int \<Rightarrow> int \<Rightarrow> int \<Rightarrow> game \<Rightarrow> game" where
  "redraw_block blocks px py bx by g =
     g\<lparr>world := (fst (world g), draw_full_block px py (blocks (find_block (fst (world g)) bx by)) (snd (world g)))\<rparr>"

definition step_player :: "(nat \<Rightarrow> int \<Rightarrow> u8) \<Rightarrow> game \<Rightarrow> game" where
  "step_player blocks g =
     (if heading g = DIR_UP
      then (let g1 = move_up blocks g; bx = play_x g1 sdiv BLOCK_X_DIM; b = play_y g1 sdiv BLOCK_Y_DIM + 1
            in redraw_block blocks (play_x g1) (b * BLOCK_Y_DIM) bx b g1)
      else if heading g = DIR_RIGHT
      then (let g1 = move_right blocks g; b = play_x g1 sdiv BLOCK_X_DIM
            in redraw_block blocks (b * BLOCK_X_DIM) (play_y g1) b (play_y g1 sdiv BLOCK_Y_DIM) g1)
      else if heading g = DIR_DOWN
      then (let g1 = move_down blocks g; b = play_y g1 sdiv BLOCK_Y_DIM
            in redraw_block blocks (play_x g1) (b * BLOCK_Y_DIM) (play_x g1 sdiv BLOCK_X_DIM) b g1)
      else if heading g = DIR_LEFT
      then (let g1 = move_left blocks g; b = play_x g1 sdiv BLOCK_X_DIM + 1
            in redraw_block blocks (b * BLOCK_X_DIM) (play_y g1) b (play_y g1 sdiv BLOCK_Y_DIM) g1)
      else g)"

section \<open>The clock thread\<close>

text \<open>The time as the four decimal digits, the decimal point and the LEDs of the controller.\<close>

definition tux_time :: "int \<Rightarrow> u32" where
  "tux_time t =
     (let sec = of_int (t sdiv 32) :: u32; min = sec div 60
      in (sec mod 10 + push_bit 4 ((sec div 10) mod 6) + push_bit 8 (min mod 10) + push_bit 12 ((min div 10) mod 10))
         OR 0x040F0000)"

text \<open>A turn straight back is made at once.\<close>

definition opposite :: "nat \<Rightarrow> nat \<Rightarrow> bool" where
  "opposite d n \<longleftrightarrow> d = DIR_UP \<and> n = DIR_DOWN \<or> d = DIR_DOWN \<and> n = DIR_UP \<or>
     d = DIR_LEFT \<and> n = DIR_RIGHT \<or> d = DIR_RIGHT \<and> n = DIR_LEFT"

definition turn_back :: "game \<Rightarrow> game" where
  "turn_back g =
     (if next_dir g \<noteq> heading g \<and> opposite (heading g) (next_dir g)
      then g\<lparr>move_cnt := (if move_cnt g > 0
               then (if heading g = DIR_UP \<or> heading g = DIR_DOWN then BLOCK_Y_DIM else BLOCK_X_DIM) - move_cnt g
               else move_cnt g),
             heading := next_dir g\<rparr>
      else g)"

text \<open>On a new square the direction is chosen; \<open>past\<close> stands for \<open>open[4]\<close>.\<close>

definition choose_dir :: "bool \<Rightarrow> game \<Rightarrow> game" where
  "choose_dir past g =
     (let op = find_open_directions (play_x g sdiv BLOCK_X_DIM) (play_y g sdiv BLOCK_Y_DIM) (fst (world g)) @ [past];
          d = (if op ! next_dir g then next_dir g else heading g)
      in if d \<noteq> DIR_STOP
         then (if \<not> op ! d then g\<lparr>heading := DIR_STOP\<rparr>
               else g\<lparr>heading := d, move_cnt := (if d = DIR_UP \<or> d = DIR_DOWN then BLOCK_Y_DIM else BLOCK_X_DIM)\<rparr>)
         else g\<lparr>heading := d\<rparr>)"

text \<open>To roll over a fruit smoothly, a player going up or left is looked at half a block back.\<close>

definition unveil_moved :: "(nat \<Rightarrow> int \<Rightarrow> u8) \<Rightarrow> game \<Rightarrow> game" where
  "unveil_moved blocks g =
     g\<lparr>world := snd (if last_dir g = DIR_UP then unveil_around_player blocks (play_x g) (play_y g + BLOCK_Y_DIM sdiv 2) (world g)
                   else if last_dir g = DIR_LEFT then unveil_around_player blocks (play_x g + BLOCK_X_DIM sdiv 2) (play_y g) (world g)
                   else unveil_around_player blocks (play_x g) (play_y g) (world g))\<rparr>"

text \<open>
  One pass of the loop over the ticks: the controller, the locked part, and the move.  The results
  are whether the level is won (the loop is left) and whether the screen has to be shown again.
\<close>

definition poll_tux :: "u32 \<Rightarrow> game \<Rightarrow> game" where
  "poll_tux btn g = g\<lparr>leds := tux_time (my_time g), pad := btn, buttons_pressed := btn \<noteq> 0\<rparr>"

definition one_tick :: "(nat \<Rightarrow> int \<Rightarrow> u8) \<Rightarrow> bool \<Rightarrow> u32 \<Rightarrow> game \<Rightarrow> bool \<times> bool \<times> game" where
  "one_tick blocks past btn g0 =
     (let g = turn_back (poll_tux btn g0);
          (won, g1) = (if move_cnt g = 0
                       then (let (won, sc) = unveil_around_player blocks (play_x g) (play_y g) (world g);
                                 g' = g\<lparr>world := sc\<rparr>
                             in if won then (True, g') else (False, choose_dir past g'))
                       else (False, g))
      in if won then (True, False, g1)
         else if heading g1 \<noteq> DIR_STOP
         then (let g2 = step_player blocks (g1\<lparr>last_dir := heading g1, move_cnt := move_cnt g1 - 1\<rparr>)
               in (False, True, draw_player blocks (unveil_moved blocks g2)))
         else (False, False, g1))"

text \<open>The ticks of one interrupt.\<close>

fun ticks_loop :: "(nat \<Rightarrow> int \<Rightarrow> u8) \<Rightarrow> nat \<Rightarrow> (bool \<times> u32) list \<Rightarrow> bool \<Rightarrow> game \<Rightarrow> (bool \<times> bool \<times> game) option" where
  "ticks_loop blocks 0 ins need_redraw g = Some (False, need_redraw, g)"
| "ticks_loop blocks (Suc n) [] need_redraw g = None"
| "ticks_loop blocks (Suc n) ((past, btn) # ins) need_redraw g =
     (let (won, redraw, g1) = one_tick blocks past btn g
      in if won then Some (True, need_redraw, g1) else ticks_loop blocks n ins (need_redraw \<or> redraw) g1)"

text \<open>One periodic interrupt: \<open>data\<close> is what the clock delivers, with the number of ticks from bit 8 on.\<close>

definition show_player :: "(nat \<Rightarrow> int \<Rightarrow> u8) \<Rightarrow> game \<Rightarrow> game" where
  "show_player blocks g =
     g\<lparr>world := (fst (world g), undraw (play_x g) (play_y g) (blocks get_floor) (show_screen (snd (world g))))\<rparr>"

definition show_bar_of :: "(nat \<Rightarrow> nat \<Rightarrow> u8) \<Rightarrow> game \<Rightarrow> game option" where
  "show_bar_of font g =
     (case show_status font (number g) (my_time g) (get_num_fruits (fst (world g))) (snd (world g)) of
        None \<Rightarrow> None | Some d \<Rightarrow> Some (g\<lparr>world := (fst (world g), d)\<rparr>))"

definition interrupt ::
    "(nat \<Rightarrow> int \<Rightarrow> u8) \<Rightarrow> (nat \<Rightarrow> nat \<Rightarrow> u8) \<Rightarrow> u32 \<Rightarrow> (bool \<times> u32) list \<Rightarrow> game \<Rightarrow> (bool \<times> game) option" where
  "interrupt blocks font data ins g =
     (let ticks = sint (drop_bit 8 data); n = (if ticks > 8 then 8 else ticks)
      in case ticks_loop blocks (nat n) ins False (g\<lparr>my_time := my_time g + ticks\<rparr>) of
           None \<Rightarrow> None
         | Some (won, redraw, g1) \<Rightarrow>
             map_option (Pair won) (show_bar_of font (if redraw then show_player blocks g1 else g1)))"

text \<open>The start of a level, up to the first read of the clock.\<close>

definition start_level ::
    "(nat \<Rightarrow> int \<Rightarrow> u8) \<Rightarrow> (nat \<Rightarrow> nat \<Rightarrow> u8) \<Rightarrow> int \<Rightarrow> game \<Rightarrow> nat list \<Rightarrow> (bool \<times> game \<times> nat list) option" where
  "start_level blocks font lvl g0 rs =
     (case prepare_maze_level blocks lvl g0 rs of
        None \<Rightarrow> None
      | Some (v, g1, rs1) \<Rightarrow>
          if v \<noteq> 0 then Some (False, g1, rs1)
          else (let g2 = g1\<lparr>play_x := BLOCK_X_DIM, play_y := BLOCK_Y_DIM, move_cnt := 0, last_dir := DIR_UP,
                            heading := DIR_STOP, next_dir := DIR_STOP\<rparr>;
                    g3 = g2\<lparr>world := snd (unveil_around_player blocks (play_x g2) (play_y g2) (world g2))\<rparr>;
                    g4 = draw_player blocks g3;
                    g5 = g4\<lparr>world := (fst (world g4), show_screen (snd (world g4)))\<rparr>;
                    g6 = redraw_block blocks (play_x g5) (play_y g5) (play_x g5 sdiv BLOCK_X_DIM) (play_y g5 sdiv BLOCK_Y_DIM) g5
                in map_option (\<lambda>g. (True, g, rs1)) (show_bar_of font g6)))"

text \<open>
  The loop of a level over the interrupts, and the loop over the levels.  Between interrupts the
  other threads run; here they are not seen.  \<open>None\<close> when the interrupts are used up.
\<close>

fun level_loop ::
    "(nat \<Rightarrow> int \<Rightarrow> u8) \<Rightarrow> (nat \<Rightarrow> nat \<Rightarrow> u8) \<Rightarrow> (u32 \<times> (bool \<times> u32) list) list \<Rightarrow> game
       \<Rightarrow> (game \<times> (u32 \<times> (bool \<times> u32) list) list) option" where
  "level_loop blocks font ins g =
     (if quit_flag g then Some (g, ins)
      else (case ins of
              [] \<Rightarrow> None
            | (data, ts) # ins1 \<Rightarrow>
                (case interrupt blocks font data ts g of
                   None \<Rightarrow> None
                 | Some (won, g1) \<Rightarrow> if won then Some (g1, ins1) else level_loop blocks font ins1 g1)))"

declare level_loop.simps [simp del]

text \<open>\<open>k\<close> levels are left after this one; the first read of a level is thrown away.\<close>

fun levels ::
    "(nat \<Rightarrow> int \<Rightarrow> u8) \<Rightarrow> (nat \<Rightarrow> nat \<Rightarrow> u8) \<Rightarrow> nat \<Rightarrow> int \<Rightarrow> (u32 \<times> (bool \<times> u32) list) list \<Rightarrow> game \<Rightarrow> nat list \<Rightarrow> game option" where
  "levels blocks font 0 lvl ins g rs = Some g"
| "levels blocks font (Suc k) lvl ins g rs =
     (if quit_flag g then Some g
      else (case start_level blocks font lvl g rs of
              None \<Rightarrow> None
            | Some (ok, g1, rs1) \<Rightarrow>
                if \<not> ok then Some g1
                else (case ins of
                        [] \<Rightarrow> None
                      | first # ins1 \<Rightarrow>
                          (case level_loop blocks font ins1 g1 of
                             None \<Rightarrow> None
                           | Some (g2, ins2) \<Rightarrow> levels blocks font k (lvl + 1) ins2 (g2\<lparr>my_time := 0\<rparr>) rs1))))"

definition rtc_thread ::
    "(nat \<Rightarrow> int \<Rightarrow> u8) \<Rightarrow> (nat \<Rightarrow> nat \<Rightarrow> u8) \<Rightarrow> (u32 \<times> (bool \<times> u32) list) list \<Rightarrow> game \<Rightarrow> nat list \<Rightarrow> game option" where
  "rtc_thread blocks font ins g rs =
     map_option (\<lambda>g. if quit_flag g then g else g\<lparr>winner := True\<rparr>)
       (levels blocks font (nat MAX_LEVEL) 1 ins g rs)"

section \<open>The keyboard and controller threads\<close>

definition BACKQUOTE :: int where "BACKQUOTE = 96"
definition UP_KEY :: int where "UP_KEY = 65"
definition DOWN_KEY :: int where "DOWN_KEY = 66"
definition RIGHT_KEY :: int where "RIGHT_KEY = 67"
definition LEFT_KEY :: int where "LEFT_KEY = 68"

text \<open>One character, with the state of the escape sequence; the third result is whether to go on.\<close>

definition key_step :: "int \<Rightarrow> nat \<Rightarrow> game \<Rightarrow> nat \<times> game \<times> bool" where
  "key_step key state g =
     (if key = BACKQUOTE then (state, g\<lparr>quit_flag := True\<rparr>, False)
      else if key = 27 then (1, g, True)
      else if key = 91 \<and> state = 1 then (2, g, True)
      else (0, if key \<ge> UP_KEY \<and> key \<le> LEFT_KEY \<and> state = 2
               then g\<lparr>next_dir := (if key = UP_KEY then DIR_UP else if key = DOWN_KEY then DIR_DOWN
                                   else if key = RIGHT_KEY then DIR_RIGHT else DIR_LEFT)\<rparr>
               else g, True))"

fun keyboard_thread :: "int list \<Rightarrow> nat \<Rightarrow> game \<Rightarrow> nat \<times> game" where
  "keyboard_thread [] state g = (state, g)"
| "keyboard_thread (key # keys) state g =
     (if winner g then (state, g)
      else (let (state1, g1, go_on) = key_step key state g
            in if go_on then keyboard_thread keys state1 g1 else (state1, g1)))"

definition tux_step :: "game \<Rightarrow> game" where
  "tux_step g =
     (if pad g AND 0x80 = 0x80 then g\<lparr>next_dir := DIR_RIGHT\<rparr>
      else if pad g AND 0x40 = 0x40 then g\<lparr>next_dir := DIR_LEFT\<rparr>
      else if pad g AND 0x20 = 0x20 then g\<lparr>next_dir := DIR_DOWN\<rparr>
      else if pad g AND 0x10 = 0x10 then g\<lparr>next_dir := DIR_UP\<rparr>
      else g)"

text \<open>The check that the fruit bits can number the fruits.\<close>

definition sanity_check :: int where
  "sanity_check = (if 2 * unat (8 :: u8) div unat MAZE_FRUIT_1 < NUM_FRUIT_TYPES + 1 then -1 else 0)"

section \<open>The main program\<close>

text \<open>
  What \<open>main\<close> does around the threads.  The results of \<open>fcntl\<close>, \<open>tcgetattr\<close> and \<open>tcsetattr\<close>, and what
  \<open>set_mode_X\<close> gets from the system and from the sequencer, are parameters; the first result is the
  value \<open>main\<close> returns, 0 when the threads are created.
\<close>

definition main_setup :: "(nat \<Rightarrow> int \<Rightarrow> u8) \<Rightarrow> int \<Rightarrow> int \<Rightarrow> int \<Rightarrow> int \<Rightarrow> u8 \<Rightarrow> u8 \<Rightarrow> game \<Rightarrow> int \<times> game" where
  "main_setup blocks nonblock getattr setattr opened old1 old2 g =
     (let (m, d) = world g
      in if nonblock \<noteq> 0 \<or> getattr \<noteq> 0 \<or> setattr \<noteq> 0 then (-1, g)
         else if sanity_check \<noteq> 0 then (3, g)
         else (let (r, d1) = set_mode_X (Some (horiz_line blocks m)) (Some (vert_line blocks m)) opened old1 old2 d
               in (if r \<noteq> 0 then 3 else 0, g\<lparr>world := (m, d1)\<rparr>)))"

definition main_end :: "(nat \<Rightarrow> nat \<Rightarrow> u8) \<Rightarrow> u8 \<Rightarrow> u8 \<Rightarrow> game \<Rightarrow> (int \<Rightarrow> u8) \<Rightarrow> string list \<times> modex \<times> (int \<Rightarrow> u8)" where
  "main_end font_data old1 old2 g mem =
     (let (out, s, mem1) = clear_mode_X font_data old1 old2 (snd (world g), mem)
      in (out @ [if winner g then ''You win the game! CONGRATULATIONS!''
                 else if quit_flag g then ''Quitter!'' else ''Sorry, you lose...''], s, mem1))"

end
