(* ===== verification/Mazegame_Spec.thy ===== *)
theory Mazegame_Spec
  imports Mazegame
begin

text \<open>
  The game in play: panning keeps the window the picture of the maze, and whatever the order in which
  clock, keyboard and controller run, the player stays in the open, on the paths between squares, and
  in full view.
\<close>

section \<open>Lines of the maze\<close>

lemma horiz_line_pixel:
  "0 \<le> x \<Longrightarrow> 0 \<le> y \<Longrightarrow> 0 \<le> i \<Longrightarrow> i < 320 \<Longrightarrow> horiz_line blocks m x y i = maze_pixel blocks m (x + i) y"
  and vert_line_pixel:
  "0 \<le> x \<Longrightarrow> 0 \<le> y \<Longrightarrow> 0 \<le> i \<Longrightarrow> i < 182 \<Longrightarrow> vert_line blocks m x y i = maze_pixel blocks m x (y + i)"
  by (simp_all add: horiz_line_def vert_line_def fill_buffers dims)

lemma horiz_pixels_cong:
  "(\<And>k. i \<le> k \<Longrightarrow> k < i + int n \<Longrightarrow> buf k = buf' k) \<Longrightarrow> horiz_pixels n addr p buf i b = horiz_pixels n addr p buf' i b"
  by (induction n arbitrary: addr p i b) (simp_all add: Let_def)

lemma vert_pixels_cong:
  "(\<And>k. i \<le> k \<Longrightarrow> k < i + int n \<Longrightarrow> buf k = buf' k) \<Longrightarrow> vert_pixels n addr p buf i b = vert_pixels n addr p buf' i b"
  by (induction n arbitrary: addr i b) simp_all

lemma maze_row:
  assumes "0 \<le> show_x s" "0 \<le> i + show_y s"
  shows "snd (draw_horiz_line (horiz_line blocks m) i s) = row (maze_pixel blocks m) i s"
  using assms horiz_pixels_cong [of 0 320 "horiz_line blocks m (show_x s) (i + show_y s)" "\<lambda>k. maze_pixel blocks m (show_x s + k) (i + show_y s)"]
  by (simp add: row_def draw_horiz_line_def Let_def dims horiz_line_pixel)

lemma maze_column:
  assumes "0 \<le> i + show_x s" "0 \<le> show_y s"
  shows "snd (draw_vert_line (vert_line blocks m) i s) = column (maze_pixel blocks m) i s"
  using assms vert_pixels_cong [of 0 182 "vert_line blocks m (i + show_x s) (show_y s)" "\<lambda>k. maze_pixel blocks m (i + show_x s) (show_y s + k)"]
  by (simp add: column_def draw_vert_line_def Let_def dims vert_line_pixel)

section \<open>Panning\<close>

text \<open>A step of the window: what was visible stays, what comes into view is the picture of the maze.\<close>

definition pans :: "(nat \<Rightarrow> int \<Rightarrow> u8) \<Rightarrow> scene \<Rightarrow> scene \<Rightarrow> bool" where
  "pans blocks sc sc' \<longleftrightarrow> fst sc' = fst sc \<and>
     (\<forall>u v. visible (snd sc') u v \<longrightarrow>
        pixel (snd sc') u v = (if visible (snd sc) u v then pixel (snd sc) u v else maze_pixel blocks (fst sc) u v))"

lemma pans_refl [simp]: "pans blocks sc sc"
  by (simp add: pans_def)

lemma row_of_picture: "row f i s = row g i s" if "\<And>u. in_win (show_x s) (show_y s) u (i + show_y s) \<Longrightarrow> f u (i + show_y s) = g u (i + show_y s)" "0 \<le> i" "i < 182"
  using that horiz_pixels_cong [of 0 320 "\<lambda>k. f (show_x s + k) (i + show_y s)" "\<lambda>k. g (show_x s + k) (i + show_y s)"]
  by (simp add: row_def draw_horiz_line_def Let_def dims in_win_def)

lemma column_of_picture: "column f i s = column g i s" if "\<And>v. in_win (show_x s) (show_y s) (i + show_x s) v \<Longrightarrow> f (i + show_x s) v = g (i + show_x s) v" "0 \<le> i" "i < 320"
  using that vert_pixels_cong [of 0 182 "\<lambda>k. f (i + show_x s) (show_y s + k)" "\<lambda>k. g (i + show_x s) (show_y s + k)"]
  by (simp add: column_def draw_vert_line_def Let_def dims in_win_def)

lemma row_pans:
  assumes d: "view_ok d" and k: "k = 1 \<and> i = 181 \<or> k = -1 \<and> i = 0" and nn: "0 \<le> show_x d" "0 \<le> show_y d + k"
  shows "pans blocks (m, d) (m, snd (draw_horiz_line (horiz_line blocks m) i (set_view_window (show_x d) (show_y d + k) d)))"
proof -
  let ?f = "\<lambda>u v. if visible d u v then pixel d u v else maze_pixel blocks m u v"
  let ?d1 = "set_view_window (show_x d) (show_y d + k) d"
  have "snd (draw_horiz_line (horiz_line blocks m) i ?d1) = row (maze_pixel blocks m) i ?d1"
    by (rule maze_row) (use nn k in auto)
  also have "\<dots> = row ?f i ?d1"
    by (rule row_of_picture) (use k in \<open>auto simp: in_win_def\<close>)
  finally have e: "snd (draw_horiz_line (horiz_line blocks m) i ?d1) = row ?f i ?d1" .
  have "pixel (row ?f i ?d1) u v = ?f u v" if "in_win (show_x d) (show_y d + k) u v" for u v
    by (rule pan.pan_y [OF d _ k that]) simp
  moreover have "show_x (row ?f i ?d1) = show_x d" "show_y (row ?f i ?d1) = show_y d + k" by (simp_all add: row_def)
  ultimately show ?thesis unfolding e by (simp add: pans_def)
qed

lemma column_pans:
  assumes d: "view_ok d" and k: "k = 1 \<and> i = 319 \<or> k = -1 \<and> i = 0" and nn: "0 \<le> show_x d + k" "0 \<le> show_y d"
  shows "pans blocks (m, d) (m, snd (draw_vert_line (vert_line blocks m) i (set_view_window (show_x d + k) (show_y d) d)))"
proof -
  let ?f = "\<lambda>u v. if visible d u v then pixel d u v else maze_pixel blocks m u v"
  let ?d1 = "set_view_window (show_x d + k) (show_y d) d"
  have "snd (draw_vert_line (vert_line blocks m) i ?d1) = column (maze_pixel blocks m) i ?d1"
    by (rule maze_column) (use nn k in auto)
  also have "\<dots> = column ?f i ?d1"
    by (rule column_of_picture) (use k in \<open>auto simp: in_win_def\<close>)
  finally have e: "snd (draw_vert_line (vert_line blocks m) i ?d1) = column ?f i ?d1" .
  have "pixel (column ?f i ?d1) u v = ?f u v" if "in_win (show_x d + k) (show_y d) u v" for u v
    by (rule pan.pan_x [OF d _ k that]) simp
  moreover have "show_x (column ?f i ?d1) = show_x d + k" "show_y (column ?f i ?d1) = show_y d" by (simp_all add: column_def)
  ultimately show ?thesis unfolding e by (simp add: pans_def)
qed

text \<open>Drawing all rows of the window.\<close>

lemma draw_rows_of_maze:
  "0 \<le> show_x d \<Longrightarrow> 0 \<le> show_y d \<Longrightarrow>
   fold (\<lambda>i d. snd (draw_horiz_line (horiz_line blocks m) (int i) d)) is d = fold (\<lambda>i. row (maze_pixel blocks m) (int i)) is d"
  by (induction "is" arbitrary: d) (simp_all add: maze_row row_def)

lemma draw_window_picture:
  assumes "view_ok d" and "0 \<le> show_x d" "0 \<le> show_y d" and "visible d u v"
  shows "pixel (draw_window blocks m d) u v = maze_pixel blocks m u v"
  using pan.redraw [OF assms(1,4)] assms(2,3) by (simp add: draw_window_def draw_rows_of_maze dims)

section \<open>What drawing and unveiling keep\<close>

text \<open>
  Dimensions, walls, exit and level are kept, no fruit is added, the display stays safe, and the window
  where it is.
\<close>

definition keeps_floor :: "scene \<Rightarrow> scene \<Rightarrow> bool" where
  "keeps_floor sc sc' \<longleftrightarrow>
     maze_x_dim (fst sc') = maze_x_dim (fst sc) \<and> maze_y_dim (fst sc') = maze_y_dim (fst sc) \<and>
     (\<forall>p. cells (fst sc') p AND MAZE_WALL = cells (fst sc) p AND MAZE_WALL) \<and>
     n_fruits (fst sc') \<le> n_fruits (fst sc) \<and> exit_x (fst sc') = exit_x (fst sc) \<and> exit_y (fst sc') = exit_y (fst sc) \<and> (level (fst sc) \<longrightarrow> level (fst sc')) \<and> (safe (snd sc) \<longrightarrow> safe (snd sc')) \<and>
     show_x (snd sc') = show_x (snd sc) \<and> show_y (snd sc') = show_y (snd sc)"

named_theorems floor_kept

lemma keeps_floor_refl [floor_kept]: "keeps_floor sc sc"
  by (simp add: keeps_floor_def)

lemma keeps_floor_trans: "keeps_floor a b \<Longrightarrow> keeps_floor b c \<Longrightarrow> keeps_floor a c"
  by (simp add: keeps_floor_def)

lemma safe_draw_full_block: "safe d \<Longrightarrow> safe (draw_full_block px py blk d)"
  using safe_paints [OF _ draw_full_block_paints] by (simp add: place_draw)

lemma safe_draw_refill_block: "safe d \<Longrightarrow> safe (draw_refill_block px py msk blk d)"
  using safe_paints [OF _ draw_refill_block_paints] by (simp add: place_draw)

lemma keeps_draw [floor_kept]:
  "keeps_floor (m, d) (m, draw_full_block px py blk d)" "keeps_floor (m, d) (m, draw_refill_block px py msk blk d)"
  by (simp_all add: keeps_floor_def place_draw safe_draw_full_block safe_draw_refill_block)

lemma keeps_place: "place d' = place d \<Longrightarrow> keeps_floor (m, d) (m, d')"
  using safe_place [of d' d] by (simp add: keeps_floor_def place_def)

lemma keeps_draw_cell: "keeps_floor sc sc1 \<Longrightarrow> keeps_floor sc (draw_cell blocks x y sc1)"
  using keeps_floor_trans keeps_draw(1) [of "fst sc1" "snd sc1"] unfolding draw_cell_def by auto

lemma keeps_unveil_space [floor_kept]: "keeps_floor sc (unveil_space blocks x y sc)"
proof -
  have "keeps_floor sc (set_cell x y (cell (fst sc) x y OR MAZE_REACH) (fst sc), snd sc)"
    using unveil_space_level [of sc blocks x y] level_cong [of "fst sc" "set_cell x y (cell (fst sc) x y OR MAZE_REACH) (fst sc)"]
    by (auto simp: keeps_floor_def set_cell_def cell_def)
  then show ?thesis
    by (simp add: unveil_space_def Let_def keeps_draw_cell keeps_floor_refl)
qed

lemma keeps_check_for_fruit [floor_kept]: "keeps_floor sc (snd (check_for_fruit blocks x y sc))"
proof -
  have "safe (snd sc) \<longrightarrow> safe (snd (snd (check_for_fruit blocks x y sc)))"
    "show_x (snd (snd (check_for_fruit blocks x y sc))) = show_x (snd sc)" "show_y (snd (snd (check_for_fruit blocks x y sc))) = show_y (snd sc)"
    by (simp_all add: check_for_fruit_def Let_def draw_cell_def safe_draw_full_block place_draw)
  then show ?thesis
    using check_for_fruit_level [of sc blocks x y] unfolding keeps_floor_def check_for_fruit_eats
    by (auto simp: eat_def cell_def)
qed

lemma keeps_fold:
  assumes "\<And>i sc. keeps_floor sc (f i sc)" shows "keeps_floor sc (fold f is sc)"
proof (induction "is" arbitrary: sc)
  case (Cons i js)
  have "keeps_floor sc (fold f js (f i sc))" by (rule keeps_floor_trans [OF assms Cons.IH])
  then show ?case by simp
qed (simp add: keeps_floor_refl)

lemma keeps_unveil_around [floor_kept]: "keeps_floor sc (snd (unveil_around_player blocks px py sc))"
proof -
  let ?x = "px sdiv BLOCK_X_DIM" and ?y = "py sdiv BLOCK_Y_DIM"
  define sc1 where "sc1 = snd (check_for_fruit blocks ?x ?y sc)"
  define sc2 where "sc2 = fold (\<lambda>i sc. fold (\<lambda>j sc. unveil_space blocks (?x + i) (?y + j) sc) [-1, 0, 1] sc) [-1, 0, 1] sc1"
  define sc3 where "sc3 = unveil_space blocks ?x (?y - 2) sc2"
  define sc4 where "sc4 = unveil_space blocks (?x + 2) ?y sc3"
  define sc5 where "sc5 = unveil_space blocks ?x (?y + 2) sc4"
  have "keeps_floor sc sc1" unfolding sc1_def by (rule keeps_check_for_fruit)
  moreover have "keeps_floor sc1 sc2" unfolding sc2_def by (intro keeps_fold keeps_unveil_space)
  moreover have "keeps_floor sc2 sc3" "keeps_floor sc3 sc4" "keeps_floor sc4 sc5"
    "keeps_floor sc5 (unveil_space blocks (?x - 2) ?y sc5)"
    unfolding sc3_def sc4_def sc5_def by (rule keeps_unveil_space)+
  moreover have "snd (unveil_around_player blocks px py sc) = unveil_space blocks (?x - 2) ?y sc5"
    unfolding unveil_around_player_def Let_def snd_conv sc1_def sc2_def sc3_def sc4_def sc5_def ..
  ultimately show ?thesis by (metis keeps_floor_trans)
qed

section \<open>The window along one axis\<close>

text \<open>
  \<open>w\<close> is the first pixel of a window of \<open>n\<close> pixels in a maze that shows those from 6 to \<open>hi\<close>; the player
  at \<open>p\<close> is 60 pixels inside it, or the window is at the end.
\<close>

definition in_view :: "int \<Rightarrow> int \<Rightarrow> int \<Rightarrow> int \<Rightarrow> bool" where
  "in_view n hi w p \<longleftrightarrow> 6 \<le> w \<and> w + n \<le> hi \<and> (w = 6 \<or> w + 60 \<le> p) \<and> (w + n = hi \<or> p \<le> w + n - 72)"

lemma in_view_back:
  assumes "in_view n hi w p" and "132 \<le> n"
  shows "p - 1 < w + 60 \<and> 6 < w \<Longrightarrow> in_view n hi (w - 1) (p - 1)"
    and "\<not> (p - 1 < w + 60 \<and> 6 < w) \<Longrightarrow> in_view n hi w (p - 1)"
  using assms by (auto simp: in_view_def)

lemma in_view_on:
  assumes "in_view n hi w p" and "132 \<le> n"
  shows "p + 1 > w + n - 72 \<and> w + n < hi \<Longrightarrow> in_view n hi (w + 1) (p + 1)"
    and "\<not> (p + 1 > w + n - 72 \<and> w + n < hi) \<Longrightarrow> in_view n hi w (p + 1)"
  using assms by (auto simp: in_view_def)

lemma unsigned_small: "0 \<le> v \<Longrightarrow> v < 4294967296 \<Longrightarrow> as_unsigned v = v"
  by (simp add: as_unsigned_def)

section \<open>The player along the paths\<close>

text \<open>The pixels of the player lie in open cells.\<close>

definition on_floor :: "maze \<Rightarrow> int \<Rightarrow> int \<Rightarrow> bool" where
  "on_floor m px py \<longleftrightarrow> (\<forall>x y. px \<le> x \<longrightarrow> x < px + 12 \<longrightarrow> py \<le> y \<longrightarrow> y < py + 12 \<longrightarrow>
     cell m (x div 12) (y div 12) AND MAZE_WALL = 0)"

text \<open>Between squares the remaining moves lead to the next one.\<close>

definition on_grid :: "int \<Rightarrow> bool" where "on_grid p \<longleftrightarrow> p mod 12 = 0"

definition aligned :: "nat \<Rightarrow> int \<Rightarrow> int \<Rightarrow> int \<Rightarrow> bool" where
  "aligned h c px py \<longleftrightarrow>
     (h = DIR_UP \<longrightarrow> on_grid px \<and> on_grid (py - c)) \<and> (h = DIR_DOWN \<longrightarrow> on_grid px \<and> on_grid (py + c)) \<and>
     (h = DIR_LEFT \<longrightarrow> on_grid py \<and> on_grid (px - c)) \<and> (h = DIR_RIGHT \<longrightarrow> on_grid py \<and> on_grid (px + c)) \<and>
     (h = DIR_STOP \<longrightarrow> on_grid px \<and> on_grid py \<and> c = 0)"

lemmas dirs = DIR_UP_def DIR_RIGHT_def DIR_DOWN_def DIR_LEFT_def DIR_STOP_def

definition in_maze :: "maze \<Rightarrow> int \<Rightarrow> int \<Rightarrow> bool" where
  "in_maze m px py \<longleftrightarrow> 12 \<le> px \<and> px \<le> 12 * (2 * maze_x_dim m - 1) \<and> 12 \<le> py \<and> py \<le> 12 * (2 * maze_y_dim m - 1)"

definition playing :: "game \<Rightarrow> bool" where
  "playing g \<longleftrightarrow>
     1 \<le> number g \<and> number g \<le> 10 \<and> n_fruits (fst (world g)) \<le> 6 \<and> level (fst (world g)) \<and> good_dims (level_x_dim g) (level_y_dim g) \<and>
     maze_x_dim (fst (world g)) = level_x_dim g \<and> maze_y_dim (fst (world g)) = level_y_dim g \<and>
     safe (snd (world g)) \<and> show_x (snd (world g)) = map_x g \<and> show_y (snd (world g)) = map_y g \<and>
     in_view 320 (12 * (2 * level_x_dim g + 1) - 6) (map_x g) (play_x g) \<and>
     in_view 182 (12 * (2 * level_y_dim g + 1) - 6) (map_y g) (play_y g) \<and>
     in_maze (fst (world g)) (play_x g) (play_y g) \<and> on_floor (fst (world g)) (play_x g) (play_y g) \<and>
     heading g \<le> DIR_STOP \<and> next_dir g \<le> DIR_STOP \<and> (next_dir g = DIR_STOP \<longrightarrow> heading g = DIR_STOP) \<and>
     0 \<le> move_cnt g \<and> move_cnt g < 12 \<and> aligned (heading g) (move_cnt g) (play_x g) (play_y g)"

lemma on_floor_keeps: "keeps_floor (m, d) (m', d') \<Longrightarrow> on_floor m' px py = on_floor m px py"
  by (simp add: keeps_floor_def on_floor_def cell_def)

lemma playing_world:
  assumes "playing g" and k: "keeps_floor (world g) sc"
  shows "playing (g\<lparr>world := sc\<rparr>)"
proof -
  have "on_floor (fst sc) px py = on_floor (fst (world g)) px py" for px py
    using on_floor_keeps [of "fst (world g)" "snd (world g)" "fst sc" "snd sc"] k by simp
  then show ?thesis using assms by (simp add: playing_def keeps_floor_def in_maze_def)
qed

text \<open>Turning back at once.\<close>

lemma grid_turn: "on_grid (p - c) \<Longrightarrow> on_grid (p + (12 - c))" "on_grid (p + c) \<Longrightarrow> on_grid (p - (12 - c))"
  unfolding on_grid_def by presburger+

lemma aligned_turn:
  assumes "aligned h c px py" and "opposite h n" and "0 \<le> c" "c < 12"
  shows "aligned n (if c > 0 then 12 - c else c) px py"
  using assms grid_turn [of px c] grid_turn [of py c]
  by (auto simp: opposite_def aligned_def dirs)

lemma playing_turn_back:
  assumes "playing g" shows "playing (turn_back g)"
proof (cases "opposite (heading g) (next_dir g)")
  case True
  have n: "next_dir g \<noteq> DIR_STOP" "next_dir g \<noteq> heading g" using True by (auto simp: opposite_def dirs)
  have t: "turn_back g = g\<lparr>move_cnt := (if move_cnt g > 0 then 12 - move_cnt g else move_cnt g), heading := next_dir g\<rparr>"
    using True n by (simp add: turn_back_def BLOCK_X_DIM_def BLOCK_Y_DIM_def)
  have "aligned (next_dir g) (if move_cnt g > 0 then 12 - move_cnt g else move_cnt g) (play_x g) (play_y g)"
    using assms True by (intro aligned_turn) (auto simp: playing_def)
  then show ?thesis using assms n unfolding t playing_def by simp
next
  case False
  then show ?thesis using assms by (simp add: turn_back_def)
qed

lemma turn_back_same [simp]:
  "world (turn_back g) = world g" "play_x (turn_back g) = play_x g" "play_y (turn_back g) = play_y g"
  by (simp_all add: turn_back_def)

text \<open>The walls of the boundary, as the player meets them.\<close>

lemma level_frame:
  assumes "level m" and "0 < a" "a < 2 * maze_x_dim m" and "0 < b" "b < 2 * maze_y_dim m"
  shows "cell m a 0 AND MAZE_WALL \<noteq> 0" "cell m a (2 * maze_y_dim m) AND MAZE_WALL \<noteq> 0"
    "cell m 0 b AND MAZE_WALL \<noteq> 0" "cell m (2 * maze_x_dim m) b AND MAZE_WALL \<noteq> 0"
  using assms by (simp_all add: level_def stocked_def framed_def in_inner cell_def)

lemma on_gridE:
  assumes "on_grid p" obtains k where "p = 12 * k"
  using that [of "p div 12"] assms mult_div_mod_eq [of 12 p] unfolding on_grid_def by simp

lemma div12: "p = 12 * k + r \<Longrightarrow> 0 \<le> r \<Longrightarrow> r < 12 \<Longrightarrow> p div 12 = (k :: int)"
  by (rule int_div_pos_eq)

lemma not_multiple: "1 \<le> c \<Longrightarrow> c < 12 \<Longrightarrow> 12 * k + c \<noteq> 12 * (n :: int)"
  by presburger

lemma grid_back:
  assumes "on_grid (p - c)" "1 \<le> c" "c < 12" shows "(p - 1) div 12 = p div 12" "p \<noteq> 12"
proof -
  obtain k where "p - c = 12 * k" using assms(1) by (rule on_gridE)
  then have k: "p = 12 * k + c" by simp
  show "(p - 1) div 12 = p div 12" using div12 [of p k c] div12 [of "p - 1" k "c - 1"] k assms(2,3) by simp
  show "p \<noteq> 12" using not_multiple [OF assms(2,3), of k 1] k by simp
qed

lemma grid_on:
  assumes "on_grid (p + c)" "1 \<le> c" "c < 12" shows "(p + 12) div 12 = (p + 11) div 12" "p \<noteq> 12 * n"
proof -
  obtain k where "p + c = 12 * k" using assms(1) by (rule on_gridE)
  then have k: "p = 12 * (k - 1) + (12 - c)" by simp
  show "(p + 12) div 12 = (p + 11) div 12"
    using div12 [of "p + 12" k "12 - c"] div12 [of "p + 11" k "11 - c"] k assms(2,3) by simp
  show "p \<noteq> 12 * n" using not_multiple [of "12 - c" "k - 1" n] k assms(2,3) by simp
qed

lemma grid_12: "on_grid (p - 12) = on_grid p" "on_grid (p + 12) = on_grid p"
  by (simp_all add: on_grid_def)

lemma grid_div: "on_grid p \<Longrightarrow> p \<le> x \<Longrightarrow> x < p + 12 \<Longrightarrow> x div 12 = p div 12"
  using div12 [of p _ 0] div12 [of x _ "x - p"] by (auto elim!: on_gridE)

lemma grid_next: "on_grid p \<Longrightarrow> (p - 1) div 12 = p div 12 - 1" "on_grid p \<Longrightarrow> (p + 12) div 12 = p div 12 + 1"
proof -
  assume "on_grid p"
  then obtain k where k: "p = 12 * k" by (rule on_gridE)
  show "(p - 1) div 12 = p div 12 - 1" using div12 [of "p - 1" "k - 1" 11] k by simp
  show "(p + 12) div 12 = p div 12 + 1" by simp
qed

lemma div_range: "12 \<le> p \<Longrightarrow> p \<le> 12 * (2 * n - 1) \<Longrightarrow> 0 < p div 12 \<and> p div 12 < 2 * (n :: int)"
  by (simp add: pos_imp_zdiv_pos_iff div_less_iff_less_mult)

text \<open>The square in the direction of motion is open.\<close>

definition way_open :: "maze \<Rightarrow> nat \<Rightarrow> int \<Rightarrow> int \<Rightarrow> bool" where
  "way_open m h px py \<longleftrightarrow>
     (h = DIR_UP \<longrightarrow> cell m (px div 12) (py div 12 - 1) AND MAZE_WALL = 0) \<and>
     (h = DIR_RIGHT \<longrightarrow> cell m (px div 12 + 1) (py div 12) AND MAZE_WALL = 0) \<and>
     (h = DIR_DOWN \<longrightarrow> cell m (px div 12) (py div 12 + 1) AND MAZE_WALL = 0) \<and>
     (h = DIR_LEFT \<longrightarrow> cell m (px div 12 - 1) (py div 12) AND MAZE_WALL = 0)"

text \<open>A player with moves left, on a path.\<close>

definition on_path :: "maze \<Rightarrow> nat \<Rightarrow> int \<Rightarrow> int \<Rightarrow> int \<Rightarrow> bool" where
  "on_path m h c px py \<longleftrightarrow> level m \<and> in_maze m px py \<and> on_floor m px py \<and> aligned h c px py \<and>
     1 \<le> c \<and> c \<le> 12 \<and> (c = 12 \<longrightarrow> way_open m h px py)"

lemma on_floorI:
  assumes "on_floor m px py"
    and "\<And>x y. px' \<le> x \<Longrightarrow> x < px' + 12 \<Longrightarrow> py' \<le> y \<Longrightarrow> y < py' + 12 \<Longrightarrow>
      \<not> (px \<le> x \<and> x < px + 12 \<and> py \<le> y \<and> y < py + 12) \<Longrightarrow> cell m (x div 12) (y div 12) AND MAZE_WALL = 0"
  shows "on_floor m px' py'"
  using assms unfolding on_floor_def by blast

lemma on_floorD:
  "on_floor m px py \<Longrightarrow> px \<le> x \<Longrightarrow> x < px + 12 \<Longrightarrow> py \<le> y \<Longrightarrow> y < py + 12 \<Longrightarrow> cell m (x div 12) (y div 12) AND MAZE_WALL = 0"
  unfolding on_floor_def by blast

lemma in_mazeD:
  assumes "in_maze m px py"
  shows "12 \<le> px" "px \<le> 12 * (2 * maze_x_dim m - 1)" "12 \<le> py" "py \<le> 12 * (2 * maze_y_dim m - 1)"
    "0 < px div 12" "px div 12 < 2 * maze_x_dim m" "0 < py div 12" "py div 12 < 2 * maze_y_dim m"
proof -
  show r: "12 \<le> px" "px \<le> 12 * (2 * maze_x_dim m - 1)" "12 \<le> py" "py \<le> 12 * (2 * maze_y_dim m - 1)"
    using assms unfolding in_maze_def by blast+
  show "0 < px div 12" "px div 12 < 2 * maze_x_dim m" "0 < py div 12" "py div 12 < 2 * maze_y_dim m"
    using div_range [OF r(1,2)] div_range [OF r(3,4)] by blast+
qed

lemma path_up:
  assumes p: "on_path m DIR_UP c px py"
  shows "on_floor m px (py - 1) \<and> in_maze m px (py - 1) \<and> aligned DIR_UP (c - 1) px (py - 1)"
proof -
  have g: "on_grid px" "on_grid (py - c)" and c: "1 \<le> c" "c \<le> 12" and l: "level m" and im: "in_maze m px py"
    and f: "on_floor m px py" and w: "c = 12 \<Longrightarrow> cell m (px div 12) (py div 12 - 1) AND MAZE_WALL = 0"
    using p unfolding on_path_def aligned_def way_open_def by blast+
  note r = in_mazeD [OF im]
  have n: "cell m (px div 12) ((py - 1) div 12) AND MAZE_WALL = 0"
  proof (cases "c = 12")
    case True
    then have "on_grid py" using g(2) by (simp only: grid_12)
    from grid_next(1) [OF this] show ?thesis using w [OF True] by (simp only:)
  next
    case False
    then have "c < 12" using c(2) by simp
    from grid_back(1) [OF g(2) c(1) this] show ?thesis using on_floorD [OF f, of "px" "py"] by (simp only: order.refl less_add_same_cancel1 zero_less_numeral simp_thms)
  qed
  have "on_floor m px (py - 1)"
  proof (rule on_floorI [OF f])
    fix x y assume h: "px \<le> x" "x < px + 12" "(py - 1) \<le> y" "y < (py - 1) + 12" "\<not> (px \<le> x \<and> x < px + 12 \<and> py \<le> y \<and> y < py + 12)"
    then have e: "y = py - 1" by auto
    show "cell m (x div 12) (y div 12) AND MAZE_WALL = 0" using n unfolding e grid_div [OF g(1) h(1,2)] .
  qed
  moreover have "py \<noteq> 12"
  proof
    assume e: "py = 12"
    have e2: "(py - 1) div 12 = 0" unfolding e by simp
    show False using n level_frame(1) [OF l r(5,6) r(7,8)] unfolding e2 by simp
  qed
  ultimately show ?thesis using r g by (simp add: in_maze_def aligned_def dirs)
qed

lemma path_left:
  assumes p: "on_path m DIR_LEFT c px py"
  shows "on_floor m (px - 1) py \<and> in_maze m (px - 1) py \<and> aligned DIR_LEFT (c - 1) (px - 1) py"
proof -
  have g: "on_grid py" "on_grid (px - c)" and c: "1 \<le> c" "c \<le> 12" and l: "level m" and im: "in_maze m px py"
    and f: "on_floor m px py" and w: "c = 12 \<Longrightarrow> cell m (px div 12 - 1) (py div 12) AND MAZE_WALL = 0"
    using p unfolding on_path_def aligned_def way_open_def by blast+
  note r = in_mazeD [OF im]
  have n: "cell m ((px - 1) div 12) (py div 12) AND MAZE_WALL = 0"
  proof (cases "c = 12")
    case True
    then have "on_grid px" using g(2) by (simp only: grid_12)
    from grid_next(1) [OF this] show ?thesis using w [OF True] by (simp only:)
  next
    case False
    then have "c < 12" using c(2) by simp
    from grid_back(1) [OF g(2) c(1) this] show ?thesis using on_floorD [OF f, of "px" "py"] by (simp only: order.refl less_add_same_cancel1 zero_less_numeral simp_thms)
  qed
  have "on_floor m (px - 1) py"
  proof (rule on_floorI [OF f])
    fix x y assume h: "(px - 1) \<le> x" "x < (px - 1) + 12" "py \<le> y" "y < py + 12" "\<not> (px \<le> x \<and> x < px + 12 \<and> py \<le> y \<and> y < py + 12)"
    then have e: "x = px - 1" by auto
    show "cell m (x div 12) (y div 12) AND MAZE_WALL = 0" using n unfolding e grid_div [OF g(1) h(3,4)] .
  qed
  moreover have "px \<noteq> 12"
  proof
    assume e: "px = 12"
    have e2: "(px - 1) div 12 = 0" unfolding e by simp
    show False using n level_frame(3) [OF l r(5,6) r(7,8)] unfolding e2 by simp
  qed
  ultimately show ?thesis using r g by (simp add: in_maze_def aligned_def dirs)
qed

lemma path_down:
  assumes p: "on_path m DIR_DOWN c px py"
  shows "on_floor m px (py + 1) \<and> in_maze m px (py + 1) \<and> aligned DIR_DOWN (c - 1) px (py + 1)"
proof -
  have g: "on_grid px" "on_grid (py + c)" and c: "1 \<le> c" "c \<le> 12" and l: "level m" and im: "in_maze m px py"
    and f: "on_floor m px py" and w: "c = 12 \<Longrightarrow> cell m (px div 12) (py div 12 + 1) AND MAZE_WALL = 0"
    using p unfolding on_path_def aligned_def way_open_def by blast+
  note r = in_mazeD [OF im]
  have n: "cell m (px div 12) ((py + 12) div 12) AND MAZE_WALL = 0"
  proof (cases "c = 12")
    case True
    then have "on_grid py" using g(2) by (simp only: grid_12)
    from grid_next(2) [OF this] show ?thesis using w [OF True] by (simp only:)
  next
    case False
    then have "c < 12" using c(2) by simp
    have fl: "px \<le> px" "px < px + 12" "py \<le> py + 11" "py + 11 < py + 12" by simp_all
    show ?thesis using on_floorD [OF f fl] unfolding grid_on(1) [OF g(2) c(1) \<open>c < 12\<close>] .
  qed
  have "on_floor m px (py + 1)"
  proof (rule on_floorI [OF f])
    fix x y assume h: "px \<le> x" "x < px + 12" "(py + 1) \<le> y" "y < (py + 1) + 12" "\<not> (px \<le> x \<and> x < px + 12 \<and> py \<le> y \<and> y < py + 12)"
    then have e: "y = py + 12" by auto
    show "cell m (x div 12) (y div 12) AND MAZE_WALL = 0" using n unfolding e grid_div [OF g(1) h(1,2)] .
  qed
  moreover have "py \<noteq> 12 * (2 * maze_y_dim m - 1)"
  proof
    assume e: "py = 12 * (2 * maze_y_dim m - 1)"
    have e2: "(py + 12) div 12 = 2 * maze_y_dim m" unfolding e by simp
    show False using n level_frame(2) [OF l r(5,6) r(7,8)] unfolding e2 by simp
  qed
  ultimately show ?thesis using r g by (simp add: in_maze_def aligned_def dirs)
qed

lemma path_right:
  assumes p: "on_path m DIR_RIGHT c px py"
  shows "on_floor m (px + 1) py \<and> in_maze m (px + 1) py \<and> aligned DIR_RIGHT (c - 1) (px + 1) py"
proof -
  have g: "on_grid py" "on_grid (px + c)" and c: "1 \<le> c" "c \<le> 12" and l: "level m" and im: "in_maze m px py"
    and f: "on_floor m px py" and w: "c = 12 \<Longrightarrow> cell m (px div 12 + 1) (py div 12) AND MAZE_WALL = 0"
    using p unfolding on_path_def aligned_def way_open_def by blast+
  note r = in_mazeD [OF im]
  have n: "cell m ((px + 12) div 12) (py div 12) AND MAZE_WALL = 0"
  proof (cases "c = 12")
    case True
    then have "on_grid px" using g(2) by (simp only: grid_12)
    from grid_next(2) [OF this] show ?thesis using w [OF True] by (simp only:)
  next
    case False
    then have "c < 12" using c(2) by simp
    have fl: "px \<le> px + 11" "px + 11 < px + 12" "py \<le> py" "py < py + 12" by simp_all
    show ?thesis using on_floorD [OF f fl] unfolding grid_on(1) [OF g(2) c(1) \<open>c < 12\<close>] .
  qed
  have "on_floor m (px + 1) py"
  proof (rule on_floorI [OF f])
    fix x y assume h: "(px + 1) \<le> x" "x < (px + 1) + 12" "py \<le> y" "y < py + 12" "\<not> (px \<le> x \<and> x < px + 12 \<and> py \<le> y \<and> y < py + 12)"
    then have e: "x = px + 12" by auto
    show "cell m (x div 12) (y div 12) AND MAZE_WALL = 0" using n unfolding e grid_div [OF g(1) h(3,4)] .
  qed
  moreover have "px \<noteq> 12 * (2 * maze_x_dim m - 1)"
  proof
    assume e: "px = 12 * (2 * maze_x_dim m - 1)"
    have e2: "(px + 12) div 12 = 2 * maze_x_dim m" unfolding e by simp
    show False using n level_frame(4) [OF l r(5,6) r(7,8)] unfolding e2 by simp
  qed
  ultimately show ?thesis using r g by (simp add: in_maze_def aligned_def dirs)
qed

section \<open>Moves\<close>

lemma safe_view: "safe d \<Longrightarrow> safe (set_view_window x y d)"
  using set_view_window_inside [of _ x y d] by (auto simp: safe_def fence_ok_def dims)

lemma safe_row: "safe d \<Longrightarrow> 0 \<le> i \<Longrightarrow> i < 182 \<Longrightarrow> safe (snd (draw_horiz_line f i d))"
  using safe_paints [OF _ draw_horiz_line_paints(2)] by simp

lemma safe_column: "safe d \<Longrightarrow> 0 \<le> i \<Longrightarrow> i < 320 \<Longrightarrow> safe (snd (draw_vert_line f i d))"
  using safe_paints [OF _ draw_vert_line_paints(2)] by simp

lemma safe_view_ok: "safe d \<Longrightarrow> view_ok d"
  by (simp add: safe_def)

text \<open>The window of a game in play.\<close>

definition viewing :: "game \<Rightarrow> bool" where
  "viewing g \<longleftrightarrow> level_x_dim g \<le> 50 \<and> level_y_dim g \<le> 30 \<and>
     safe (snd (world g)) \<and> show_x (snd (world g)) = map_x g \<and> show_y (snd (world g)) = map_y g \<and>
     in_view 320 (12 * (2 * level_x_dim g + 1) - 6) (map_x g) (play_x g) \<and>
     in_view 182 (12 * (2 * level_y_dim g + 1) - 6) (map_y g) (play_y g) \<and>
     12 \<le> play_x g \<and> play_x g \<le> 1200 \<and> 12 \<le> play_y g \<and> play_y g \<le> 1200"

text \<open>What a move does to the window.\<close>

definition moved :: "(nat \<Rightarrow> int \<Rightarrow> u8) \<Rightarrow> int \<Rightarrow> int \<Rightarrow> game \<Rightarrow> game \<Rightarrow> bool" where
  "moved blocks dx dy g g' \<longleftrightarrow> (\<exists>a b d. g' = g\<lparr>play_x := play_x g + dx, play_y := play_y g + dy, map_x := a, map_y := b,
       world := (fst (world g), d)\<rparr> \<and>
     safe d \<and> show_x d = a \<and> show_y d = b \<and>
     in_view 320 (12 * (2 * level_x_dim g + 1) - 6) a (play_x g + dx) \<and>
     in_view 182 (12 * (2 * level_y_dim g + 1) - 6) b (play_y g + dy) \<and>
     pans blocks (world g) (fst (world g), d))"

lemma move_up_moved:
  assumes "viewing g" shows "moved blocks 0 (-1) g (move_up blocks g)"
proof -
  obtain m d where w: "world g = (m, d)" by (cases "world g")
  have v: "in_view 182 (12 * (2 * level_y_dim g + 1) - 6) (map_y g) (play_y g)" and s: "safe d" "show_x d = map_x g" "show_y d = map_y g"
    and b: "level_y_dim g \<le> 30" "12 \<le> play_y g" "play_y g \<le> 1200" and x: "6 \<le> map_x g"
    "in_view 320 (12 * (2 * level_x_dim g + 1) - 6) (map_x g) (play_x g)"
    using assms by (auto simp: viewing_def in_view_def w)
  have y: "6 \<le> map_y g" "map_y g \<le> 1000" using v b by (auto simp: in_view_def)
  have u: "as_unsigned (play_y g - 1) = play_y g - 1" "as_unsigned (map_y g + 60) = map_y g + 60" "as_unsigned (map_y g - 1) = map_y g - 1"
    using y b by (simp_all add: unsigned_small)
  note iv = in_view_back [OF v]
  show ?thesis
  proof (cases "play_y g - 1 < map_y g + 60 \<and> 6 < map_y g")
    case True
    let ?d = "snd (draw_horiz_line (horiz_line blocks m) 0 (set_view_window (map_x g) (map_y g - 1) d))"
    have "move_up blocks g = g\<lparr>play_x := play_x g + 0, play_y := play_y g + -1, map_x := map_x g, map_y := map_y g - 1, world := (m, ?d)\<rparr>"
      using True u by (simp add: move_up_def Let_def pan_to_row_def w BLOCK_Y_DIM_def PAN_BORDER_def SHOW_MIN_def)
    moreover have "pans blocks (m, d) (m, ?d)"
      using row_pans [OF safe_view_ok [OF s(1)], of "-1" 0 blocks m] y x(1) s by simp
    ultimately show ?thesis
      unfolding moved_def using iv(1) True x s w by (intro exI conjI) (auto intro!: safe_row safe_view)
  next
    case False
    have "move_up blocks g = g\<lparr>play_x := play_x g + 0, play_y := play_y g + -1, map_x := map_x g, map_y := map_y g, world := (m, d)\<rparr>"
      using False u w by (auto simp: move_up_def Let_def BLOCK_Y_DIM_def PAN_BORDER_def SHOW_MIN_def)
    then show ?thesis
      unfolding moved_def using iv(2) False x s w by (intro exI conjI) auto
  qed
qed

lemma move_left_moved:
  assumes "viewing g" shows "moved blocks (-1) 0 g (move_left blocks g)"
proof -
  obtain m d where w: "world g = (m, d)" by (cases "world g")
  have v: "in_view 320 (12 * (2 * level_x_dim g + 1) - 6) (map_x g) (play_x g)" and s: "safe d" "show_x d = map_x g" "show_y d = map_y g"
    and b: "level_x_dim g \<le> 50" "12 \<le> play_x g" "play_x g \<le> 1200" and x: "6 \<le> map_y g"
    "in_view 182 (12 * (2 * level_y_dim g + 1) - 6) (map_y g) (play_y g)"
    using assms by (auto simp: viewing_def in_view_def w)
  have y: "6 \<le> map_x g" "map_x g \<le> 1220 - 320" "0 \<le> 2 * level_x_dim g" using v b by (auto simp: in_view_def)
  have u: "as_unsigned (play_x g - 1) = play_x g - 1" "as_unsigned (map_x g + 60) = map_x g + 60" "as_unsigned (map_x g - 1) = map_x g - 1"
    using y b by (simp_all add: unsigned_small)
  note iv = in_view_back [OF v]
  show ?thesis
  proof (cases "play_x g - 1 < map_x g + 60 \<and> 6 < map_x g")
    case True
    let ?d = "snd (draw_vert_line (vert_line blocks m) 0 (set_view_window (map_x g - 1) (map_y g) d))"
    have "move_left blocks g = g\<lparr>play_x := play_x g + -1, play_y := play_y g + 0, map_x := (map_x g - 1), map_y := (map_y g), world := (m, ?d)\<rparr>"
      using True u by (simp add: move_left_def Let_def pan_to_column_def w dims PAN_BORDER_def SHOW_MIN_def)
    moreover have "pans blocks (m, d) (m, ?d)"
      using column_pans [OF safe_view_ok [OF s(1)], of "-1" 0 blocks m] y x(1) s by simp
    ultimately show ?thesis
      unfolding moved_def using iv(1) True x s w by (intro exI conjI) (auto intro!: safe_column safe_view)
  next
    case False
    have "move_left blocks g = g\<lparr>play_x := play_x g + -1, play_y := play_y g + 0, map_x := map_x g, map_y := map_y g, world := (m, d)\<rparr>"
      using False u w by (auto simp: move_left_def Let_def dims PAN_BORDER_def SHOW_MIN_def)
    then show ?thesis
      unfolding moved_def using iv(2) False x s w by (intro exI conjI) auto
  qed
qed

lemma move_right_moved:
  assumes "viewing g" shows "moved blocks 1 0 g (move_right blocks g)"
proof -
  obtain m d where w: "world g = (m, d)" by (cases "world g")
  have v: "in_view 320 (12 * (2 * level_x_dim g + 1) - 6) (map_x g) (play_x g)" and s: "safe d" "show_x d = map_x g" "show_y d = map_y g"
    and b: "level_x_dim g \<le> 50" "12 \<le> play_x g" "play_x g \<le> 1200" and x: "6 \<le> map_y g"
    "in_view 182 (12 * (2 * level_y_dim g + 1) - 6) (map_y g) (play_y g)"
    using assms by (auto simp: viewing_def in_view_def w)
  have y: "6 \<le> map_x g" "map_x g \<le> 1220 - 320" "0 \<le> 2 * level_x_dim g" using v b by (auto simp: in_view_def)
  have u: "as_unsigned (play_x g + 1) = play_x g + 1" "as_unsigned (map_x g + 248) = map_x g + 248" "as_unsigned (248 + map_x g) = 248 + map_x g" "as_unsigned (map_x g + 1) = map_x g + 1"
    "as_unsigned (map_x g + 320) = map_x g + 320" "as_unsigned ((2 * level_x_dim g + 1) * 12 - 6) = (2 * level_x_dim g + 1) * 12 - 6"
    using y b by (simp_all add: unsigned_small)
  note iv = in_view_on [OF v]
  show ?thesis
  proof (cases "play_x g + 1 > map_x g + 320 - 72 \<and> map_x g + 320 < 12 * (2 * level_x_dim g + 1) - 6")
    case True
    let ?d = "snd (draw_vert_line (vert_line blocks m) 319 (set_view_window (map_x g + 1) (map_y g) d))"
    have "move_right blocks g = g\<lparr>play_x := play_x g + 1, play_y := play_y g + 0, map_x := (map_x g + 1), map_y := (map_y g), world := (m, ?d)\<rparr>"
      using True u by (simp add: move_right_def Let_def pan_to_column_def w dims PAN_BORDER_def SHOW_MIN_def)
    moreover have "pans blocks (m, d) (m, ?d)"
      using column_pans [OF safe_view_ok [OF s(1)], of "1" 319 blocks m] y x(1) s by simp
    ultimately show ?thesis
      unfolding moved_def using iv(1) True x s w by (intro exI conjI) (auto intro!: safe_column safe_view)
  next
    case False
    have "move_right blocks g = g\<lparr>play_x := play_x g + 1, play_y := play_y g + 0, map_x := map_x g, map_y := map_y g, world := (m, d)\<rparr>"
      using False u w by (auto simp: move_right_def Let_def dims PAN_BORDER_def SHOW_MIN_def)
    then show ?thesis
      unfolding moved_def using iv(2) False x s w by (intro exI conjI) auto
  qed
qed

lemma move_down_moved:
  assumes "viewing g" shows "moved blocks 0 1 g (move_down blocks g)"
proof -
  obtain m d where w: "world g = (m, d)" by (cases "world g")
  have v: "in_view 182 (12 * (2 * level_y_dim g + 1) - 6) (map_y g) (play_y g)" and s: "safe d" "show_x d = map_x g" "show_y d = map_y g"
    and b: "level_y_dim g \<le> 30" "12 \<le> play_y g" "play_y g \<le> 1200" and x: "6 \<le> map_x g"
    "in_view 320 (12 * (2 * level_x_dim g + 1) - 6) (map_x g) (play_x g)"
    using assms by (auto simp: viewing_def in_view_def w)
  have y: "6 \<le> map_y g" "map_y g \<le> 1220 - 182" "0 \<le> 2 * level_y_dim g" using v b by (auto simp: in_view_def)
  have u: "as_unsigned (play_y g + 1) = play_y g + 1" "as_unsigned (map_y g + 110) = map_y g + 110" "as_unsigned (110 + map_y g) = 110 + map_y g" "as_unsigned (map_y g + 1) = map_y g + 1"
    "as_unsigned (map_y g + 182) = map_y g + 182" "as_unsigned ((2 * level_y_dim g + 1) * 12 - 6) = (2 * level_y_dim g + 1) * 12 - 6"
    using y b by (simp_all add: unsigned_small)
  note iv = in_view_on [OF v]
  show ?thesis
  proof (cases "play_y g + 1 > map_y g + 182 - 72 \<and> map_y g + 182 < 12 * (2 * level_y_dim g + 1) - 6")
    case True
    let ?d = "snd (draw_horiz_line (horiz_line blocks m) 181 (set_view_window (map_x g) (map_y g + 1) d))"
    have "move_down blocks g = g\<lparr>play_x := play_x g + 0, play_y := play_y g + 1, map_x := (map_x g), map_y := (map_y g + 1), world := (m, ?d)\<rparr>"
      using True u by (simp add: move_down_def Let_def pan_to_row_def w dims PAN_BORDER_def SHOW_MIN_def)
    moreover have "pans blocks (m, d) (m, ?d)"
      using row_pans [OF safe_view_ok [OF s(1)], of "1" 181 blocks m] y x(1) s by simp
    ultimately show ?thesis
      unfolding moved_def using iv(1) True x s w by (intro exI conjI) (auto intro!: safe_row safe_view)
  next
    case False
    have "move_down blocks g = g\<lparr>play_x := play_x g + 0, play_y := play_y g + 1, map_x := map_x g, map_y := map_y g, world := (m, d)\<rparr>"
      using False u w by (auto simp: move_down_def Let_def dims PAN_BORDER_def SHOW_MIN_def)
    then show ?thesis
      unfolding moved_def using iv(2) False x s w by (intro exI conjI) auto
  qed
qed

section \<open>One tick\<close>

lemma playing_viewing: assumes "playing g" shows "viewing g"
proof -
  have d: "good_dims (level_x_dim g) (level_y_dim g)" "maze_x_dim (fst (world g)) = level_x_dim g"
    "maze_y_dim (fst (world g)) = level_y_dim g"
    and m: "in_maze (fst (world g)) (play_x g) (play_y g)"
    using assms unfolding playing_def by blast+
  have n: "level_x_dim g \<le> 50" "level_y_dim g \<le> 30"
    using d(1) unfolding good_dims_def MAZE_MAX_X_DIM_def MAZE_MAX_Y_DIM_def by blast+
  have "12 \<le> play_x g" "12 \<le> play_y g" using in_mazeD(1,3) [OF m] by blast+
  moreover have "play_x g \<le> 1200" using in_mazeD(2) [OF m] n(1) unfolding d(2) by simp
  moreover have "play_y g \<le> 1200" using in_mazeD(4) [OF m] n(2) unfolding d(3) by simp
  ultimately show ?thesis using assms n unfolding playing_def viewing_def by blast
qed

text \<open>A player with moves left makes one of them.\<close>

definition ready :: "game \<Rightarrow> bool" where
  "ready g \<longleftrightarrow> viewing g \<and> good_dims (level_x_dim g) (level_y_dim g) \<and>
     maze_x_dim (fst (world g)) = level_x_dim g \<and> maze_y_dim (fst (world g)) = level_y_dim g \<and>
     1 \<le> number g \<and> number g \<le> 10 \<and> n_fruits (fst (world g)) \<le> 6 \<and> heading g < DIR_STOP \<and> next_dir g < DIR_STOP \<and>
     on_path (fst (world g)) (heading g) (move_cnt g) (play_x g) (play_y g)"

lemma moved_playing:
  assumes r: "ready g" and m: "moved blocks dx dy (g\<lparr>last_dir := l, move_cnt := move_cnt g - 1\<rparr>) g'"
    and p: "on_floor (fst (world g)) (play_x g + dx) (play_y g + dy) \<and> in_maze (fst (world g)) (play_x g + dx) (play_y g + dy) \<and>
      aligned (heading g) (move_cnt g - 1) (play_x g + dx) (play_y g + dy)"
  shows "playing g' \<and> keeps_floor (fst (world g), d) (fst (world g'), d)"
proof -
  have "level (fst (world g))" "1 \<le> move_cnt g" "move_cnt g \<le> 12" using r by (simp_all add: ready_def on_path_def)
  then show ?thesis
    using r p m unfolding moved_def ready_def playing_def by (auto simp: keeps_floor_refl)
qed

lemma less_stop: "h < DIR_STOP \<Longrightarrow> h = DIR_UP \<or> h = DIR_RIGHT \<or> h = DIR_DOWN \<or> h = DIR_LEFT"
  by (auto simp: dirs)

lemma playing_redraw: "playing g \<Longrightarrow> playing (redraw_block blocks px py bx b g)"
  using playing_world [of g] keeps_draw(1) [of "fst (world g)" "snd (world g)"] by (simp add: redraw_block_def)

lemma playing_draw_player: "playing g \<Longrightarrow> playing (draw_player blocks g)"
  using playing_world [of g] keeps_draw(2) [of "fst (world g)" "snd (world g)"] by (simp add: draw_player_def)

lemma playing_unveil_moved: "playing g \<Longrightarrow> playing (unveil_moved blocks g)"
  using playing_world [of g] keeps_unveil_around [of "world g"] by (simp add: unveil_moved_def)

lemma dirs_distinct [simp]:
  "DIR_UP \<noteq> DIR_RIGHT" "DIR_UP \<noteq> DIR_DOWN" "DIR_UP \<noteq> DIR_LEFT" "DIR_RIGHT \<noteq> DIR_DOWN" "DIR_RIGHT \<noteq> DIR_LEFT" "DIR_DOWN \<noteq> DIR_LEFT"
  "DIR_RIGHT \<noteq> DIR_UP" "DIR_DOWN \<noteq> DIR_UP" "DIR_LEFT \<noteq> DIR_UP" "DIR_DOWN \<noteq> DIR_RIGHT" "DIR_LEFT \<noteq> DIR_RIGHT" "DIR_LEFT \<noteq> DIR_DOWN"
  by (simp_all add: dirs)

lemma step_playing:
  assumes r: "ready g" and l: "g1 = g\<lparr>last_dir := heading g, move_cnt := move_cnt g - 1\<rparr>"
  shows "playing (step_player blocks g1)"
proof -
  have v: "viewing g1" using r by (simp add: ready_def viewing_def l)
  have p: "on_path (fst (world g)) (heading g) (move_cnt g) (play_x g) (play_y g)" using r by (simp add: ready_def)
  have h: "heading g1 = heading g" by (simp add: l)
  consider "heading g = DIR_UP" | "heading g = DIR_RIGHT" | "heading g = DIR_DOWN" | "heading g = DIR_LEFT"
    using r less_stop [of "heading g"] by (auto simp: ready_def)
  then show ?thesis
  proof cases
    case 1
    have "playing (move_up blocks g1)"
      using moved_playing [OF r, of blocks 0 "-1" "heading g"] move_up_moved [OF v, of blocks] path_up p by (simp add: l 1)
    then show ?thesis by (simp add: step_player_def h 1 Let_def playing_redraw)
  next
    case 2
    have "playing (move_right blocks g1)"
      using moved_playing [OF r, of blocks 1 0 "heading g"] move_right_moved [OF v, of blocks] path_right p by (simp add: l 2)
    then show ?thesis by (simp add: step_player_def h 2 Let_def playing_redraw)
  next
    case 3
    have "playing (move_down blocks g1)"
      using moved_playing [OF r, of blocks 0 1 "heading g"] move_down_moved [OF v, of blocks] path_down p by (simp add: l 3)
    then show ?thesis by (simp add: step_player_def h 3 Let_def playing_redraw)
  next
    case 4
    have "playing (move_left blocks g1)"
      using moved_playing [OF r, of blocks "-1" 0 "heading g"] move_left_moved [OF v, of blocks] path_left p by (simp add: l 4)
    then show ?thesis by (simp add: step_player_def h 4 Let_def playing_redraw)
  qed
qed

text \<open>On a square the player stops, or turns to an open way.\<close>

lemma open_directions:
  assumes "12 \<le> px" "12 \<le> py"
  shows "find_open_directions (px sdiv BLOCK_X_DIM) (py sdiv BLOCK_Y_DIM) m =
    [cell m (px div 12) (py div 12 - 1) AND MAZE_WALL = 0, cell m (px div 12 + 1) (py div 12) AND MAZE_WALL = 0,
     cell m (px div 12) (py div 12 + 1) AND MAZE_WALL = 0, cell m (px div 12 - 1) (py div 12) AND MAZE_WALL = 0]"
  using assms sdiv_nonneg [of px 12] sdiv_nonneg [of py 12]
  by (simp add: find_open_directions_def BLOCK_X_DIM_def BLOCK_Y_DIM_def)

lemma way_open_nth:
  assumes "h < DIR_STOP" "12 \<le> px" "12 \<le> py"
    and "(find_open_directions (px sdiv BLOCK_X_DIM) (py sdiv BLOCK_Y_DIM) m @ [past]) ! h"
  shows "way_open m h px py"
  using less_stop [OF assms(1)] assms(4) unfolding open_directions [OF assms(2,3)]
  by (elim disjE) (simp_all add: way_open_def dirs)

lemma playing_on_grid:
  assumes "playing g" and "move_cnt g = 0"
  shows "on_grid (play_x g)" "on_grid (play_y g)"
proof -
  have a: "aligned (heading g) 0 (play_x g) (play_y g)" and h: "heading g \<le> DIR_STOP"
    using assms unfolding playing_def by simp_all
  have "heading g = DIR_STOP \<or> heading g = DIR_UP \<or> heading g = DIR_RIGHT \<or> heading g = DIR_DOWN \<or> heading g = DIR_LEFT"
    using h less_stop [of "heading g"] by (auto simp: le_less)
  then show "on_grid (play_x g)" "on_grid (play_y g)" using a by (auto simp: aligned_def)
qed

lemma playing_stop:
  assumes "playing g" and "move_cnt g = 0" shows "playing (g\<lparr>heading := DIR_STOP\<rparr>)"
proof -
  have "aligned DIR_STOP 0 (play_x g) (play_y g)"
    using playing_on_grid [OF assms] by (simp add: aligned_def dirs)
  then show ?thesis using assms by (simp add: playing_def)
qed

lemma ready_go:
  assumes p: "playing g" and c: "move_cnt g = 0" and d: "d < DIR_STOP" "next_dir g < DIR_STOP"
    and w: "way_open (fst (world g)) d (play_x g) (play_y g)"
  shows "ready (g\<lparr>heading := d, move_cnt := 12\<rparr>)"
proof -
  have "aligned d 12 (play_x g) (play_y g)" using d(1) playing_on_grid [OF p c] by (auto simp: aligned_def grid_12)
  moreover have "level (fst (world g))" "in_maze (fst (world g)) (play_x g) (play_y g)" "on_floor (fst (world g)) (play_x g) (play_y g)"
    "good_dims (level_x_dim g) (level_y_dim g)" "maze_x_dim (fst (world g)) = level_x_dim g" "maze_y_dim (fst (world g)) = level_y_dim g"
    "1 \<le> number g" "number g \<le> 10" "n_fruits (fst (world g)) \<le> 6"
    using p unfolding playing_def by blast+
  moreover have "viewing (g\<lparr>heading := d, move_cnt := 12\<rparr>)" using playing_viewing [OF p] by (simp add: viewing_def)
  ultimately show ?thesis using d w by (simp add: ready_def on_path_def)
qed

lemma choose_dir_alt:
  assumes "find_open_directions (play_x g sdiv BLOCK_X_DIM) (play_y g sdiv BLOCK_Y_DIM) (fst (world g)) @ [past] = op"
    and "(if op ! next_dir g then next_dir g else heading g) = d"
  shows "choose_dir past g = (if d \<noteq> DIR_STOP \<and> op ! d then g\<lparr>heading := d, move_cnt := 12\<rparr> else g\<lparr>heading := DIR_STOP\<rparr>)"
proof -
  have b: "(if x then BLOCK_Y_DIM else BLOCK_X_DIM) = 12" for x by (simp add: BLOCK_X_DIM_def BLOCK_Y_DIM_def)
  show ?thesis
    unfolding choose_dir_def Let_def assms b by (cases "d = DIR_STOP") auto
qed

lemma choose_dir_cases:
  assumes p: "playing g" and c: "move_cnt g = 0"
  shows "playing (choose_dir past g) \<and> heading (choose_dir past g) = DIR_STOP \<or> ready (choose_dir past g)"
proof -
  let ?op = "find_open_directions (play_x g sdiv BLOCK_X_DIM) (play_y g sdiv BLOCK_Y_DIM) (fst (world g)) @ [past]"
  define op where "op = ?op"
  define d where "d = (if op ! next_dir g then next_dir g else heading g)"
  have m: "in_maze (fst (world g)) (play_x g) (play_y g)" and h: "heading g \<le> DIR_STOP" "next_dir g \<le> DIR_STOP"
    "next_dir g = DIR_STOP \<longrightarrow> heading g = DIR_STOP" using p unfolding playing_def by blast+
  show ?thesis
  proof (cases "d \<noteq> DIR_STOP \<and> op ! d")
    case False
    then show ?thesis
      using playing_stop [OF p c] unfolding choose_dir_alt [OF op_def [symmetric] d_def [symmetric]] if_not_P [OF False] by simp
  next
    case True
    have "next_dir g \<noteq> DIR_STOP"
    proof
      assume "next_dir g = DIR_STOP"
      then have "d = DIR_STOP" using h(3) unfolding d_def by simp
      then show False using True by blast
    qed
    then have n: "next_dir g < DIR_STOP" using h(2) by (rule le_neq_implies_less [rotated])
    have "d \<le> DIR_STOP" using h unfolding d_def by simp
    then have d: "d < DIR_STOP" using True le_neq_implies_less by blast
    have e: "choose_dir past g = g\<lparr>heading := d, move_cnt := 12\<rparr>"
      unfolding choose_dir_alt [OF op_def [symmetric] d_def [symmetric]] if_P [OF True] ..
    have "?op ! d" using True unfolding op_def by blast
    note w = way_open_nth [OF d in_mazeD(1,3) [OF m] this]
    show ?thesis unfolding e using ready_go [OF p c d n w] by blast
  qed
qed

lemma playing_ready:
  assumes "playing g" and "0 < move_cnt g"
  shows "ready g"
  using assms playing_viewing [OF assms(1)]
  by (auto simp: ready_def playing_def on_path_def aligned_def le_less)

lemma playing_poll: "playing (poll_tux btn g) = playing g"
  by (simp add: poll_tux_def playing_def)

lemma tick_playing:
  assumes "playing g" and t: "one_tick blocks past btn g = (won, redraw, g')"
  shows "playing g'"
proof -
  define g1 where "g1 = turn_back (poll_tux btn g)"
  have p: "playing g1" using assms(1) by (simp add: g1_def playing_turn_back playing_poll)
  have go: "playing (draw_player blocks (unveil_moved blocks (step_player blocks (g2\<lparr>last_dir := heading g2, move_cnt := move_cnt g2 - 1\<rparr>))))"
    if "ready g2" for g2
    using playing_draw_player playing_unveil_moved step_playing [OF that refl] by blast
  show ?thesis
  proof (cases "move_cnt g1 = 0")
    case True
    obtain w sc where u: "unveil_around_player blocks (play_x g1) (play_y g1) (world g1) = (w, sc)" by (rule prod.exhaust)
    have p2: "playing (g1\<lparr>world := sc\<rparr>)"
      using playing_world [OF p] keeps_unveil_around [of "world g1" blocks "play_x g1" "play_y g1"] u by simp
    show ?thesis
    proof (cases w)
      case True
      then show ?thesis using t u p2 \<open>move_cnt g1 = 0\<close> by (simp add: one_tick_def Let_def g1_def [symmetric])
    next
      case False
      define g3 where "g3 = choose_dir past (g1\<lparr>world := sc\<rparr>)"
      have "one_tick blocks past btn g = (if heading g3 \<noteq> DIR_STOP
        then (False, True, draw_player blocks (unveil_moved blocks (step_player blocks (g3\<lparr>last_dir := heading g3, move_cnt := move_cnt g3 - 1\<rparr>))))
        else (False, False, g3))"
        using False u True by (simp add: one_tick_def Let_def g1_def [symmetric] g3_def)
      moreover have "playing g3 \<and> heading g3 = DIR_STOP \<or> ready g3"
        unfolding g3_def by (rule choose_dir_cases [OF p2]) (simp add: True)
      moreover have "ready g3 \<Longrightarrow> heading g3 \<noteq> DIR_STOP" by (simp add: ready_def)
      ultimately show ?thesis using t go [of g3] by (auto split: if_splits)
    qed
  next
    case False
    have r: "ready g1" by (rule playing_ready [OF p]) (use p False in \<open>simp add: playing_def\<close>)
    then have "heading g1 \<noteq> DIR_STOP" by (simp add: ready_def)
    then have "one_tick blocks past btn g = (False, True, draw_player blocks (unveil_moved blocks
        (step_player blocks (g1\<lparr>last_dir := heading g1, move_cnt := move_cnt g1 - 1\<rparr>))))"
      using False by (simp add: one_tick_def Let_def g1_def [symmetric])
    then show ?thesis using t go [OF r] by simp
  qed
qed

section \<open>Starting a level\<close>

lemma safe_draw_window: "safe d \<Longrightarrow> safe (draw_window blocks m d) \<and> show_x (draw_window blocks m d) = show_x d \<and> show_y (draw_window blocks m d) = show_y d"
proof -
  assume d: "safe d"
  have "set is \<subseteq> {0..<182} \<Longrightarrow> safe d \<Longrightarrow>
    safe (fold (\<lambda>i d. snd (draw_horiz_line (horiz_line blocks m) (int i) d)) is d) \<and>
    show_x (fold (\<lambda>i d. snd (draw_horiz_line (horiz_line blocks m) (int i) d)) is d) = show_x d \<and>
    show_y (fold (\<lambda>i d. snd (draw_horiz_line (horiz_line blocks m) (int i) d)) is d) = show_y d" for "is"
    by (induction "is" arbitrary: d) (simp_all add: safe_row)
  from this [of "[0..<182]"] d show ?thesis by (simp add: draw_window_def dims)
qed

lemma level_info_good: "1 \<le> lvl \<Longrightarrow> good_dims (level_x_dim (level_info lvl g)) (level_y_dim (level_info lvl g))"
  by (simp add: level_info_def Let_def good_dims_def MAZE_MIN_X_DIM_def MAZE_MAX_X_DIM_def MAZE_MIN_Y_DIM_def MAZE_MAX_Y_DIM_def
      dims SHOW_MIN_def)

lemma level_info_fruits:
  assumes "1 \<le> lvl"
  shows "1 \<le> initial_fruit_count (level_info lvl g)" "initial_fruit_count (level_info lvl g) \<le> 6"
  using assms sdiv_nonneg [of "lvl - 1" 2] by (simp_all add: level_info_def Let_def)

lemma level_info_same [simp]:
  "map_x (level_info lvl g) = 6" "map_y (level_info lvl g) = 6" "world (level_info lvl g) = world g"
  "my_time (level_info lvl g) = my_time g" "number (level_info lvl g) = lvl"
  by (simp_all add: level_info_def Let_def SHOW_MIN_def)

lemma prepare_result:
  assumes "prepare_maze_level blocks lvl g0 rs = Some (v, g, rs1)" and "1 \<le> lvl" and s: "safe (snd (world g0))"
  shows "\<exists>m d. g = (level_info lvl g0)\<lparr>world := (m, d)\<rparr> \<and> v = 0 \<and> level m \<and> n_fruits m = initial_fruit_count (level_info lvl g0) \<and>
    maze_x_dim m = level_x_dim g \<and> maze_y_dim m = level_y_dim g \<and> good_dims (level_x_dim g) (level_y_dim g) \<and>
    cell m 1 1 AND MAZE_WALL = 0 \<and> safe d \<and> show_x d = 6 \<and> show_y d = 6 \<and>
    (\<forall>u x. visible d u x \<longrightarrow> pixel d u x = maze_pixel blocks m u x)"
proof -
  let ?g = "level_info lvl g0"
  note gd = level_info_good [OF assms(2), of g0]
  have f: "0 \<le> initial_fruit_count ?g" using level_info_fruits [OF assms(2), of g0] by simp
  obtain v1 m where m: "make_maze (level_x_dim ?g) (level_y_dim ?g) (initial_fruit_count ?g) (fst (world g0)) rs = Some (v1, m, rs1)"
    using assms(1) by (auto simp: prepare_maze_level_def Let_def split: option.splits if_splits prod.splits)
  note r = make_maze_result [OF gd f m]
  let ?d = "set_view_window 6 6 (snd (world g0))"
  have g: "g = ?g\<lparr>world := (m, draw_window blocks m ?d)\<rparr>" "v = 0"
    using assms(1) m r by (auto simp: prepare_maze_level_def Let_def split: prod.splits)
  have d: "safe ?d" using s by (rule safe_view)
  have w: "safe (draw_window blocks m ?d)" "show_x (draw_window blocks m ?d) = 6" "show_y (draw_window blocks m ?d) = 6"
    using safe_draw_window [OF d, of blocks m] by simp_all
  have p: "\<forall>u x. visible (draw_window blocks m ?d) u x \<longrightarrow> pixel (draw_window blocks m ?d) u x = maze_pixel blocks m u x"
    using draw_window_picture [OF safe_view_ok [OF d], of _ _ blocks m] w by simp
  have "maze_index (level_x_dim ?g) 1 1 \<in> inside (level_x_dim ?g) (level_y_dim ?g)"
    using gd dims_good [of "level_x_dim ?g" "level_y_dim ?g"] by (auto simp: inside_def in_inner good_dims_def)
  then have c: "cell m 1 1 AND MAZE_WALL = 0" using r by (simp add: cell_def)
  have same: "level_x_dim g = level_x_dim ?g" "level_y_dim g = level_y_dim ?g" by (simp_all add: g(1))
  show ?thesis using g r w c gd p unfolding same by blast
qed

lemma on_floor_square: "cell m 1 1 AND MAZE_WALL = 0 \<Longrightarrow> on_floor m 12 12"
  using grid_div [of 12] by (simp add: on_floor_def on_grid_def)

lemma playing_show_bar: "show_bar_of font g = Some g' \<Longrightarrow> playing g \<Longrightarrow> playing g'"
  using playing_world [of g] keeps_place [OF place_status, of font "number g" "my_time g" _ "snd (world g)" _ "fst (world g)"]
  by (auto simp: show_bar_of_def split: option.splits)

lemma playing_show_screen: "playing g \<Longrightarrow> playing (g\<lparr>world := (fst (world g), show_screen (snd (world g)))\<rparr>)"
  using playing_world [of g "(fst (world g), show_screen (snd (world g)))"]
    keeps_place [of "show_screen (snd (world g))" "snd (world g)" "fst (world g)"] by simp

lemma playing_show_player: "playing g \<Longrightarrow> playing (show_player blocks g)"
  using playing_world [OF playing_show_screen, of g] keeps_draw(1) [of "fst (world g)" "show_screen (snd (world g))"]
  by (simp add: show_player_def undraw_def)

text \<open>The state in which the player enters a prepared maze.\<close>

definition enter :: "game \<Rightarrow> game" where
  "enter g = g\<lparr>play_x := BLOCK_X_DIM, play_y := BLOCK_Y_DIM, move_cnt := 0, last_dir := DIR_UP, heading := DIR_STOP, next_dir := DIR_STOP\<rparr>"

definition first_picture :: "(nat \<Rightarrow> int \<Rightarrow> u8) \<Rightarrow> game \<Rightarrow> game" where
  "first_picture blocks g2 =
     (let g3 = g2\<lparr>world := snd (unveil_around_player blocks (play_x g2) (play_y g2) (world g2))\<rparr>;
          g4 = draw_player blocks g3;
          g5 = g4\<lparr>world := (fst (world g4), show_screen (snd (world g4)))\<rparr>
      in redraw_block blocks (play_x g5) (play_y g5) (play_x g5 sdiv BLOCK_X_DIM) (play_y g5 sdiv BLOCK_Y_DIM) g5)"

lemma start_level_alt:
  "start_level blocks font lvl g0 rs =
     (case prepare_maze_level blocks lvl g0 rs of
        None \<Rightarrow> None
      | Some (v, g1, rs1) \<Rightarrow>
          if v \<noteq> 0 then Some (False, g1, rs1)
          else map_option (\<lambda>g. (True, g, rs1)) (show_bar_of font (first_picture blocks (enter g1))))"
  by (simp add: start_level_def first_picture_def enter_def Let_def split: option.split prod.split)

lemma playing_enter:
  assumes "prepare_maze_level blocks lvl g0 rs = Some (v, g1, rs1)" and "1 \<le> lvl" and "safe (snd (world g0))" and lvl: "lvl \<le> 10"
  shows "playing (enter g1) \<and> v = 0"
proof -
  obtain m d where n6: "n_fruits m = initial_fruit_count (level_info lvl g0)"
    and g1: "g1 = (level_info lvl g0)\<lparr>world := (m, d)\<rparr>" "v = 0" "level m"
    "maze_x_dim m = level_x_dim g1" "maze_y_dim m = level_y_dim g1" "good_dims (level_x_dim g1) (level_y_dim g1)"
    "cell m 1 1 AND MAZE_WALL = 0" "safe d" "show_x d = 6" "show_y d = 6"
    using prepare_result [OF assms(1-3)] by blast
  have n: "14 \<le> level_x_dim g1" "8 \<le> level_y_dim g1"
    using g1(6) by (simp_all add: good_dims_def MAZE_MIN_X_DIM_def MAZE_MIN_Y_DIM_def dims SHOW_MIN_def)
  have v: "in_view 320 (12 * (2 * level_x_dim g1 + 1) - 6) 6 12" "in_view 182 (12 * (2 * level_y_dim g1 + 1) - 6) 6 12"
    using n by (simp_all add: in_view_def)
  have m: "in_maze m 12 12" using n g1(4,5) by (simp add: in_maze_def)
  have a: "aligned DIR_STOP 0 12 12" by (simp add: aligned_def dirs on_grid_def)
  have "n_fruits m \<le> 6" "number g1 = lvl" using level_info_fruits(2) [OF assms(2), of g0] n6 by (simp_all add: g1(1))
  moreover have "world g1 = (m, d)" "map_x g1 = 6" "map_y g1 = 6" by (simp_all add: g1(1))
  ultimately show ?thesis
    using assms(2) lvl g1(2-) v m a on_floor_square by (simp add: playing_def enter_def BLOCK_X_DIM_def BLOCK_Y_DIM_def)
qed

lemma playing_first_picture:
  assumes "playing g" shows "playing (first_picture blocks g)"
proof -
  have "playing (g\<lparr>world := snd (unveil_around_player blocks (play_x g) (play_y g) (world g))\<rparr>)"
    by (rule playing_world [OF assms keeps_unveil_around])
  then show ?thesis
    unfolding first_picture_def Let_def by (intro playing_redraw playing_show_screen playing_draw_player)
qed

lemma start_playing:
  assumes "start_level blocks font lvl g0 rs = Some (True, g, rs1)" and "1 \<le> lvl" and "safe (snd (world g0))" and "lvl \<le> 10"
  shows "playing g"
proof -
  obtain g1 where p: "prepare_maze_level blocks lvl g0 rs = Some (0, g1, rs1)"
    and b: "show_bar_of font (first_picture blocks (enter g1)) = Some g"
    using assms(1) by (auto simp: start_level_alt split: option.splits prod.splits if_splits)
  show ?thesis
    using playing_show_bar [OF b] playing_first_picture playing_enter [OF p assms(2-4)] by blast
qed

end
