(* ===== verification/Mazegame_Play.thy ===== *)
theory Mazegame_Play
  imports Mazegame_Spec
begin

text \<open>
  The three threads of \<^verbatim>\<open>mp2/mazegame.c\<close> together.  A game goes on by the steps of the clock thread (the
  poll of the controller, the ticks, the drawing between them), the characters of the keyboard thread
  and the presses that the controller thread is woken for, in any order.  What the clock thread does
  after it unlocks the mutex in a tick neither reads nor writes what the other threads write, and a
  press between the poll and the locked part is one between two polls with the same buttons.
\<close>

section \<open>The interleaved steps\<close>

inductive gaming :: "(nat \<Rightarrow> int \<Rightarrow> u8) \<Rightarrow> (nat \<Rightarrow> nat \<Rightarrow> u8) \<Rightarrow> game \<Rightarrow> bool"
  for blocks font where
  start: "safe (snd (world g0)) \<Longrightarrow> 1 \<le> lvl \<Longrightarrow> lvl \<le> MAX_LEVEL \<Longrightarrow>
    start_level blocks font lvl g0 rs = Some (True, g, rs1) \<Longrightarrow> gaming blocks font g"
| key: "gaming blocks font g \<Longrightarrow> key_step key st g = (st', g', go_on) \<Longrightarrow> gaming blocks font g'"
| poll: "gaming blocks font g \<Longrightarrow> gaming blocks font (poll_tux btn g)"
| press: "gaming blocks font g \<Longrightarrow> buttons_pressed g \<Longrightarrow> gaming blocks font (tux_step g)"
| time: "gaming blocks font g \<Longrightarrow> gaming blocks font (g\<lparr>my_time := t\<rparr>)"
| tick: "gaming blocks font g \<Longrightarrow> one_tick blocks past btn g = (won, redraw, g') \<Longrightarrow> gaming blocks font g'"
| picture: "gaming blocks font g \<Longrightarrow> gaming blocks font (show_player blocks g)"
| bar: "gaming blocks font g \<Longrightarrow> show_bar_of font g = Some g' \<Longrightarrow> gaming blocks font g'"

lemma playing_next:
  "playing g \<Longrightarrow> d \<noteq> DIR_STOP \<Longrightarrow> d \<le> DIR_STOP \<Longrightarrow> playing (g\<lparr>next_dir := d\<rparr>)"
  by (simp add: playing_def)

lemma dirs_le_stop [simp]: "DIR_UP \<le> DIR_STOP" "DIR_RIGHT \<le> DIR_STOP" "DIR_DOWN \<le> DIR_STOP" "DIR_LEFT \<le> DIR_STOP"
  "DIR_UP \<noteq> DIR_STOP" "DIR_RIGHT \<noteq> DIR_STOP" "DIR_DOWN \<noteq> DIR_STOP" "DIR_LEFT \<noteq> DIR_STOP"
  by (simp_all add: dirs)

lemma playing_quit: "playing (g\<lparr>quit_flag := q\<rparr>) = playing g"
  by (simp add: playing_def)

lemma playing_time: "playing (g\<lparr>my_time := t\<rparr>) = playing g"
  by (simp add: playing_def)

lemma playing_key: "playing g \<Longrightarrow> key_step key st g = (st', g', go_on) \<Longrightarrow> playing g'"
  by (auto simp: key_step_def playing_next playing_quit split: if_splits)

lemma playing_press: "playing g \<Longrightarrow> playing (tux_step g)"
  by (simp add: tux_step_def playing_next)

lemma gaming_playing: "gaming blocks font g \<Longrightarrow> playing g"
proof (induction rule: gaming.induct)
  case (start g0 lvl rs g rs1)
  then show ?case using start_playing [OF start(4) start(2) start(1)] unfolding MAX_LEVEL_def by blast
next
  case (key g key st st' g' go_on)
  show ?case by (rule playing_key [OF key(3) key(2)])
next
  case (press g)
  show ?case by (rule playing_press [OF press(3)])
next
  case (poll g btn)
  show ?case using poll(2) unfolding playing_poll .
next
  case (time g t)
  show ?case using time(2) unfolding playing_time .
next
  case (tick g past btn won redraw g')
  show ?case by (rule tick_playing [OF tick(3) tick(2)])
next
  case (picture g)
  show ?case by (rule playing_show_player [OF picture(2)])
next
  case (bar g g')
  show ?case by (rule playing_show_bar [OF bar(2) bar(3)])
qed

section \<open>An interrupt\<close>

lemma gaming_ticks:
  "ticks_loop blocks n ins nd g = Some (won, redraw, g') \<Longrightarrow> gaming blocks font g \<Longrightarrow> gaming blocks font g'"
proof (induction blocks n ins nd g rule: ticks_loop.induct)
  case (3 blocks n past btn ins nd g)
  obtain w r g1 where t: "one_tick blocks past btn g = (w, r, g1)" by (metis prod.exhaust)
  then show ?case using 3 gaming.tick [OF 3(3) t] by (auto split: if_splits)
qed simp_all

lemma gaming_interrupt:
  assumes "gaming blocks font g" and "interrupt blocks font data ins g = Some (won, g')"
  shows "gaming blocks font g'"
proof -
  obtain w r g1 g2 where
    t: "ticks_loop blocks (nat (if sint (drop_bit 8 data) > 8 then 8 else sint (drop_bit 8 data))) ins False
          (g\<lparr>my_time := my_time g + sint (drop_bit 8 data)\<rparr>) = Some (w, r, g1)"
    and b: "show_bar_of font (if r then show_player blocks g1 else g1) = Some g'"
    using assms(2) by (auto simp: interrupt_def Let_def split: option.splits)
  show ?thesis
    using gaming.bar [OF _ b] gaming_ticks [OF t gaming.time [OF assms(1)]] gaming.picture by simp
qed

lemma ticks_loop_total: "n \<le> length ins \<Longrightarrow> \<exists>r. ticks_loop blocks n ins nd g = Some r"
  by (induction blocks n ins nd g rule: ticks_loop.induct) (auto split: prod.splits)

named_theorems time_kept

lemma pan_time [time_kept]:
  "my_time (pan_to_row blocks x y l g) = my_time g" "my_time (pan_to_column blocks x y l g) = my_time g"
  by (simp_all add: pan_to_row_def pan_to_column_def split: prod.split)

lemma move_time [time_kept]:
  "my_time (move_up blocks g) = my_time g" "my_time (move_right blocks g) = my_time g"
  "my_time (move_down blocks g) = my_time g" "my_time (move_left blocks g) = my_time g"
  by (simp_all add: move_up_def move_right_def move_down_def move_left_def Let_def time_kept)

lemma draw_time [time_kept]:
  "my_time (redraw_block blocks px py bx b g) = my_time g" "my_time (draw_player blocks g) = my_time g"
  "my_time (unveil_moved blocks g) = my_time g" "my_time (turn_back g) = my_time g" "my_time (poll_tux btn g) = my_time g"
  "my_time (choose_dir past g) = my_time g"
  by (simp_all add: redraw_block_def draw_player_def unveil_moved_def turn_back_def poll_tux_def choose_dir_def Let_def)

lemma step_time [time_kept]: "my_time (step_player blocks g) = my_time g"
  by (simp add: step_player_def Let_def time_kept)

lemma one_tick_time: "one_tick blocks past btn g = (won, redraw, g') \<Longrightarrow> my_time g' = my_time g"
  by (auto simp: one_tick_def Let_def time_kept split: prod.splits if_splits)

lemma ticks_loop_time: "ticks_loop blocks n ins nd g = Some (won, redraw, g') \<Longrightarrow> my_time g' = my_time g"
proof (induction blocks n ins nd g rule: ticks_loop.induct)
  case (3 blocks n past btn ins nd g)
  obtain w r g1 where t: "one_tick blocks past btn g = (w, r, g1)" by (metis prod.exhaust)
  then show ?case using 3 one_tick_time [OF t] by (auto split: if_splits)
qed simp_all

lemma bar_total:
  assumes "playing g" and "0 \<le> my_time g" "my_time g < 192000"
  shows "\<exists>g'. show_bar_of font g = Some g'"
proof -
  let ?n = "n_fruits (fst (world g))"
  have n: "1 \<le> number g" "number g \<le> 10" "?n \<le> 6" "level (fst (world g))" using assms(1) unfolding playing_def by blast+
  have f: "0 \<le> ?n" using n(4) by (simp add: level_def stocked_def)
  obtain l t f where e: "number g = int l" "my_time g = int t" "?n = int f" "1 \<le> l" "l \<le> 10" "f < 100" "t < 192000"
    using n f assms by (auto elim!: nonneg_int_cases intro: that [of "nat (number g)" "nat (my_time g)" "nat ?n"])
  obtain buff where "strbuff font (status_words l (t div 32) f) (drawbuf (snd (world g))) (int l) = Some (of_nat (l - 1), buff)"
    using strbuff_picture [OF e(4,5) status_text_ok(2) [OF e(4-7)]] by blast
  then show ?thesis
    by (simp add: show_bar_of_def show_status_def get_num_fruits_def e(1-3) status_text_ok(1) [OF e(4-7)])
qed

lemma interrupt_total:
  assumes g: "gaming blocks font g" and t: "0 \<le> my_time g" "my_time g + sint (drop_bit 8 data) < 192000" and "8 \<le> length ins"
    and d: "0 \<le> sint (drop_bit 8 data)"
  shows "\<exists>won g'. interrupt blocks font data ins g = Some (won, g')"
proof -
  let ?k = "sint (drop_bit 8 data)"
  let ?n = "nat (if ?k > 8 then 8 else ?k)" and ?g = "g\<lparr>my_time := my_time g + ?k\<rparr>"
  have "?n \<le> length ins" using assms(4) by (simp split: if_split) linarith
  then obtain w r g1 where l: "ticks_loop blocks ?n ins False ?g = Some (w, r, g1)" using ticks_loop_total by (metis prod.exhaust)
  have p: "playing g1" by (rule gaming_playing [OF gaming_ticks [OF l gaming.time [OF g]]])
  have m: "my_time g1 = my_time g + ?k" using ticks_loop_time [OF l] by simp
  let ?g2 = "if r then show_player blocks g1 else g1"
  have "playing ?g2" "my_time ?g2 = my_time g + ?k" using p playing_show_player m by (simp_all add: show_player_def)
  then obtain g2 where "show_bar_of font ?g2 = Some g2" using bar_total [of ?g2] t d by auto
  then show ?thesis using l by (simp add: interrupt_def Let_def)
qed

lemma ticks_nonneg: "0 \<le> sint (drop_bit 8 (data :: u32))"
proof -
  have "\<not> bit data 39" using bit_imp_le_length [of data 39] by auto
  then show ?thesis by (simp add: sint_uint bit_uint_iff bit_drop_bit_eq)
qed

lemma first_picture_time [time_kept]: "my_time (first_picture blocks g) = my_time g"
  by (simp add: first_picture_def Let_def time_kept)

lemma level_starts:
  assumes "1 \<le> lvl" "lvl \<le> MAX_LEVEL" and s: "safe (snd (world g0))" and t: "0 \<le> my_time g0" "my_time g0 < 192000"
  shows "\<exists>rs g. start_level blocks font lvl g0 rs = Some (True, g, [])"
proof -
  let ?g = "level_info lvl g0"
  have l: "lvl \<le> 10" using assms(2) by (simp add: MAX_LEVEL_def)
  note gd = level_info_good [OF assms(1), of g0] and f = level_info_fruits [OF assms(1), of g0]
  have b: "4 \<le> level_x_dim ?g" "8 \<le> level_y_dim ?g"
    using gd by (simp_all add: good_dims_def MAZE_MIN_X_DIM_def MAZE_MIN_Y_DIM_def dims SHOW_MIN_def)
  have n: "initial_fruit_count ?g < level_x_dim ?g * level_y_dim ?g"
    using mult_mono [OF b] b f by linarith
  obtain rs m where "make_maze (level_x_dim ?g) (level_y_dim ?g) (initial_fruit_count ?g) (fst (world g0)) rs = Some (0, m, [])"
    using make_maze_total [OF gd _ n] f by (metis order.trans zero_le_one)
  then have p: "\<exists>g1. prepare_maze_level blocks lvl g0 rs = Some (0, g1, []) \<and> my_time g1 = my_time g0"
    by (cases "world g0") (simp add: prepare_maze_level_def Let_def)
  then obtain g1 where p: "prepare_maze_level blocks lvl g0 rs = Some (0, g1, [])" and m: "my_time g1 = my_time g0" by blast
  have "playing (first_picture blocks (enter g1))"
    using playing_first_picture playing_enter [OF p assms(1) s l] by blast
  moreover have "my_time (first_picture blocks (enter g1)) = my_time g0" by (simp add: time_kept enter_def m)
  ultimately obtain g2 where "show_bar_of font (first_picture blocks (enter g1)) = Some g2"
    using bar_total [of "first_picture blocks (enter g1)" font] t by auto
  then have "start_level blocks font lvl g0 rs = Some (True, g2, [])" by (simp add: start_level_alt p)
  then show ?thesis by blast
qed

lemma gaming_pans:
  assumes "gaming blocks font g"
  shows "pans blocks (world g) (world (move_up blocks g))" "pans blocks (world g) (world (move_right blocks g))"
    "pans blocks (world g) (world (move_down blocks g))" "pans blocks (world g) (world (move_left blocks g))"
proof -
  note v = playing_viewing [OF gaming_playing [OF assms]]
  have "moved blocks dx dy g g' \<Longrightarrow> pans blocks (world g) (world g')" for dx dy g'
    by (auto simp: moved_def)
  then show "pans blocks (world g) (world (move_up blocks g))" "pans blocks (world g) (world (move_right blocks g))"
    "pans blocks (world g) (world (move_down blocks g))" "pans blocks (world g) (world (move_left blocks g))"
    using move_up_moved [OF v] move_right_moved [OF v] move_down_moved [OF v] move_left_moved [OF v] by blast+
qed

lemma player_visible:
  assumes "playing g" and "play_x g \<le> u" "u < play_x g + 12" "play_y g \<le> v" "v < play_y g + 12"
  shows "visible (snd (world g)) u v"
proof -
  have "in_view 320 (12 * (2 * level_x_dim g + 1) - 6) (map_x g) (play_x g)" "in_view 182 (12 * (2 * level_y_dim g + 1) - 6) (map_y g) (play_y g)"
    "in_maze (fst (world g)) (play_x g) (play_y g)" "maze_x_dim (fst (world g)) = level_x_dim g" "maze_y_dim (fst (world g)) = level_y_dim g"
    and s: "show_x (snd (world g)) = map_x g" "show_y (snd (world g)) = map_y g"
    using assms(1) unfolding playing_def by blast+
  then have "map_x g \<le> play_x g" "play_x g + 12 \<le> map_x g + 320" "map_y g \<le> play_y g" "play_y g + 12 \<le> map_y g + 182"
    by (auto simp: in_view_def in_maze_def)
  then show ?thesis using assms(2-5) by (simp add: in_win_def s)
qed

lemma tick_won:
  assumes "playing g" and "one_tick blocks past btn g = (True, redraw, g')"
  shows "n_fruits (fst (world g')) = 0 \<and> play_x g' = 12 * exit_x (fst (world g')) \<and> play_y g' = 12 * exit_y (fst (world g'))"
proof -
  define g1 where "g1 = turn_back (poll_tux btn g)"
  have p: "playing g1" using assms(1) by (simp add: g1_def playing_turn_back playing_poll)
  obtain w sc where u: "unveil_around_player blocks (play_x g1) (play_y g1) (world g1) = (w, sc)" by (rule prod.exhaust)
  have w: w "move_cnt g1 = 0" "g' = g1\<lparr>world := sc\<rparr>"
    using assms(2) u by (auto simp: one_tick_def Let_def g1_def [symmetric] split: if_splits)
  have m: "on_grid (play_x g1)" "on_grid (play_y g1)" and r: "in_maze (fst (world g1)) (play_x g1) (play_y g1)"
    using playing_on_grid [OF p w(2)] p by (simp_all add: playing_def)
  have l: "level (fst sc)"
    using keeps_unveil_around [of "world g1" blocks "play_x g1" "play_y g1"] p u by (simp add: keeps_floor_def playing_def)
  have "check_for_win (play_x g1 div 12) (play_y g1 div 12) (fst sc)"
    using u w(1) in_mazeD(1,3) [OF r] sdiv_nonneg [of "play_x g1" 12] sdiv_nonneg [of "play_y g1" 12]
    by (auto simp: unveil_around_player_def Let_def dims)
  then have "n_fruits (fst sc) = 0 \<and> play_x g1 div 12 = exit_x (fst sc) \<and> play_y g1 div 12 = exit_y (fst sc)"
    using check_for_win_level [OF l] by blast
  then show ?thesis using m w(3) mult_div_mod_eq [of 12 "play_x g1"] mult_div_mod_eq [of 12 "play_y g1"] by (auto simp: on_grid_def)
qed

section \<open>The claims\<close>

text \<open>
  C37. The window shows the maze: a prepared level is drawn over the whole window, and whenever the
  player moves, what stays in view stays as it was while the row or column that comes into view is
  the picture of the maze.
\<close>

theorem window_shows_maze:
  assumes "1 \<le> lvl" and "safe (snd (world g0))" and "gaming blocks font g"
  shows "(prepare_maze_level blocks lvl g0 rs = Some (v, g1, rs1) \<longrightarrow>
      v = 0 \<and> (\<forall>x y. visible (snd (world g1)) x y \<longrightarrow> pixel (snd (world g1)) x y = maze_pixel blocks (fst (world g1)) x y)) \<and>
    pans blocks (world g) (world (move_up blocks g)) \<and> pans blocks (world g) (world (move_right blocks g)) \<and>
    pans blocks (world g) (world (move_down blocks g)) \<and> pans blocks (world g) (world (move_left blocks g))"
proof -
  have "v = 0 \<and> (\<forall>x y. visible (snd (world g1)) x y \<longrightarrow> pixel (snd (world g1)) x y = maze_pixel blocks (fst (world g1)) x y)"
    if p: "prepare_maze_level blocks lvl g0 rs = Some (v, g1, rs1)"
  proof -
    obtain m d where "v = 0" "world g1 = (m, d)" "\<forall>x y. visible d x y \<longrightarrow> pixel d x y = maze_pixel blocks m x y"
      using prepare_result [OF p assms(1,2)] by auto
    then show ?thesis by simp
  qed
  then show ?thesis using gaming_pans [OF assms(3)] by blast
qed

text \<open>A game at its beginning, and a first level of it.\<close>

definition new_game :: game where
  "new_game = \<lparr>number = 0, level_x_dim = 0, level_y_dim = 0, initial_fruit_count = 0, time_to_first_fruit = 0,
     time_between_fruits = 0, tick_usec = 0, map_x = 0, map_y = 0, world = (corridor, start_modex), play_x = 0, play_y = 0,
     last_dir = 0, heading = 0, next_dir = 0, move_cnt = 0, quit_flag = False, winner = False, my_time = 0, pad = 0,
     buttons_pressed = False, leds = 0\<rparr>"

lemma new_game_safe: "safe (snd (world new_game))"
  using display_invariant [OF start_modex_display] by (simp add: new_game_def)

lemma new_game_time: "my_time new_game = 0"
  by (simp add: new_game_def)

lemma first_level: "\<exists>g. gaming blocks font g \<and> my_time g = 0"
proof -
  obtain rs g where "start_level blocks font 1 new_game rs = Some (True, g, [])"
    using level_starts [of 1 new_game blocks font, OF _ _ new_game_safe] unfolding MAX_LEVEL_def new_game_time by auto
  then have "gaming blocks font g" using new_game_safe by (intro gaming.start [of new_game 1]) (simp_all add: MAX_LEVEL_def)
  then show ?thesis using gaming.time [of blocks font g 0] by force
qed

theorem window_shows_maze_witness:
  "\<exists>g. pans (\<lambda>b i. of_int i) (world g) (world (move_right (\<lambda>b i. of_int i) g))"
proof -
  obtain g where "gaming (\<lambda>b i. of_int i) (\<lambda>c r. 0) g" using first_level by blast
  from window_shows_maze [OF _ new_game_safe this,  of 1 "[]" undefined undefined undefined] show ?thesis by auto
qed

text \<open>
  C38. Whatever the order of ticks, keys and presses: the player's block lies on open cells inside the
  boundary of a level, wholly within the window, and after the last step between two squares exactly on
  a square; and every access to the screen is inside the build buffer.
\<close>

theorem player_stays_on_floor:
  assumes "gaming blocks font g"
  shows "level (fst (world g)) \<and> in_maze (fst (world g)) (play_x g) (play_y g) \<and> on_floor (fst (world g)) (play_x g) (play_y g) \<and>
    (\<forall>u v. play_x g \<le> u \<and> u < play_x g + 12 \<and> play_y g \<le> v \<and> v < play_y g + 12 \<longrightarrow> visible (snd (world g)) u v) \<and>
    (move_cnt g = 0 \<longrightarrow> on_grid (play_x g) \<and> on_grid (play_y g)) \<and> safe (snd (world g))"
  using gaming_playing [OF assms] player_visible [of g] playing_on_grid [of g] unfolding playing_def by blast

theorem player_stays_on_floor_witness:
  "\<exists>g. on_floor (fst (world (tux_step (poll_tux 0x20 g)))) (play_x (tux_step (poll_tux 0x20 g))) (play_y (tux_step (poll_tux 0x20 g)))"
proof -
  obtain g where g: "gaming (\<lambda>b i. of_int i) (\<lambda>c r. 0) g" using first_level by blast
  have "buttons_pressed (poll_tux 0x20 g)" by (simp add: poll_tux_def)
  from player_stays_on_floor [OF gaming.press [OF gaming.poll [OF g] this]] show ?thesis by blast
qed

text \<open>
  C39. A level comes up and the clock thread goes on: for each of the ten levels there are random
  numbers with which it starts, and in a game that goes on every interrupt is dealt with to its end,
  down to the status bar, while the clock shows less than 100 minutes.
\<close>

theorem game_goes_on:
  assumes "1 \<le> lvl" "lvl \<le> MAX_LEVEL" and "safe (snd (world g0))" and "0 \<le> my_time g0" "my_time g0 < 192000"
    and "gaming blocks font g" and "0 \<le> my_time g" "my_time g + sint (drop_bit 8 data) < 192000" and "8 \<le> length ins"
  shows "(\<exists>rs g1. start_level blocks font lvl g0 rs = Some (True, g1, []) \<and> gaming blocks font g1) \<and>
    (\<exists>won g1. interrupt blocks font data ins g = Some (won, g1) \<and> gaming blocks font g1)"
  using level_starts [OF assms(1-5)] gaming.start [OF assms(3,1,2)] interrupt_total [OF assms(6-9) ticks_nonneg]
    gaming_interrupt [OF assms(6)] by blast

theorem game_goes_on_witness:
  "\<exists>g won g1. interrupt (\<lambda>b i. of_int i) (\<lambda>c r. 0) 0x2FF (replicate 8 (True, 0x80)) g = Some (won, g1)"
proof -
  obtain g where g: "gaming (\<lambda>b i. of_int i) (\<lambda>c r. 0) g" "my_time g = 0" using first_level by blast
  have "sint (drop_bit 8 (0x2FF :: u32)) = 2" by code_simp
  then show ?thesis
    using game_goes_on [of 1 new_game "\<lambda>b i. of_int i" "\<lambda>c r. 0" g "0x2FF" "replicate 8 (True, 0x80)"] g new_game_safe
    by (auto simp: MAX_LEVEL_def new_game_time)
qed

text \<open>
  C40. A tick ends a level only when it is won: every fruit is eaten and the player stands exactly on
  the exit.  (Every game that goes on satisfies \<open>playing\<close>.)
\<close>

theorem level_is_won_at_exit:
  assumes "playing g" and "one_tick blocks past btn g = (True, redraw, g')"
  shows "n_fruits (fst (world g')) = 0 \<and> fruited (fst (world g')) = {} \<and>
    play_x g' = BLOCK_X_DIM * exit_x (fst (world g')) \<and> play_y g' = BLOCK_Y_DIM * exit_y (fst (world g'))"
proof -
  have l: "level (fst (world g'))" using tick_playing [OF assms] unfolding playing_def by blast
  have w: "n_fruits (fst (world g')) = 0" "play_x g' = BLOCK_X_DIM * exit_x (fst (world g'))"
    "play_y g' = BLOCK_Y_DIM * exit_y (fst (world g'))"
    using tick_won [OF assms] by (simp_all add: BLOCK_X_DIM_def BLOCK_Y_DIM_def)
  then show ?thesis using l by (simp add: level_def stocked_def)
qed

text \<open>A maze without fruits, with the player on its exit.\<close>

lemma view_exists:
  assumes "132 \<le> n" and "n + 6 \<le> hi" shows "\<exists>w. in_view n hi w p"
proof -
  consider "p < 66" | "66 \<le> p" "p - 60 \<le> hi - n" | "hi - n < p - 60" by linarith
  then show ?thesis
  proof cases
    case 1
    then show ?thesis using assms by (intro exI [of _ 6]) (auto simp: in_view_def)
  next
    case 2
    then show ?thesis using assms by (intro exI [of _ "p - 60"]) (auto simp: in_view_def)
  next
    case 3
    then show ?thesis using assms by (intro exI [of _ "hi - n"]) (auto simp: in_view_def)
  qed
qed

lemma at_exit: "\<exists>m d w v. playing (new_game\<lparr>number := 1, level_x_dim := 20, level_y_dim := 20, map_x := w, map_y := v,
    world := (m, d), play_x := 12 * exit_x m, play_y := 12 * exit_y m, heading := DIR_STOP, next_dir := DIR_STOP\<rparr>) \<and> n_fruits m = 0"
proof -
  obtain rs m where "make_maze 20 20 0 corridor rs = Some (0, m, [])"
    using make_maze_total [OF good_dims_20, of 0 corridor] by auto
  note r = make_maze_result [OF good_dims_20 _ this]
  have e: "exit_x m \<in> set (odds 20)" "exit_y m \<in> set (odds 20)" using r by (auto simp: level_def)
  note x = odds_range [OF e(1)] odds_range [OF e(2)]
  obtain w where w: "in_view 320 486 w (12 * exit_x m)" using view_exists [of 320 486] by auto
  obtain v where v: "in_view 182 486 v (12 * exit_y m)" using view_exists [of 182 486] by auto
  have "maze_index 20 (exit_x m) (exit_y m) \<in> inside 20 20" using x by (auto simp: inside_def in_inner)
  then have "cell m (exit_x m) (exit_y m) AND MAZE_WALL = 0" using r by (simp add: cell_def)
  then have "on_floor m (12 * exit_x m) (12 * exit_y m)"
    using grid_div [of "12 * exit_x m"] grid_div [of "12 * exit_y m"] by (simp add: on_floor_def on_grid_def)
  moreover have "in_maze m (12 * exit_x m) (12 * exit_y m)" using x r by (simp add: in_maze_def)
  moreover have "aligned DIR_STOP 0 (12 * exit_x m) (12 * exit_y m)" by (simp add: aligned_def dirs on_grid_def)
  moreover have "safe (set_view_window w v start_modex)" using display_invariant [OF start_modex_display] by (rule safe_view)
  ultimately have "playing (new_game\<lparr>number := 1, level_x_dim := 20, level_y_dim := 20, map_x := w, map_y := v,
    world := (m, set_view_window w v start_modex), play_x := 12 * exit_x m, play_y := 12 * exit_y m, heading := DIR_STOP, next_dir := DIR_STOP\<rparr>)"
    using r w v good_dims_20 by (simp add: playing_def new_game_def)
  then show ?thesis using r by auto
qed

lemma tick_at_exit:
  assumes p: "playing g" and h: "heading g = DIR_STOP" "next_dir g = DIR_STOP" and n: "n_fruits (fst (world g)) = 0"
    and e: "play_x g = 12 * exit_x (fst (world g))" "play_y g = 12 * exit_y (fst (world g))"
  shows "\<exists>g'. one_tick blocks past btn g = (True, False, g')"
proof -
  define g1 where "g1 = poll_tux btn g"
  have t: "turn_back (poll_tux btn g) = g1" "world g1 = world g" "play_x g1 = play_x g" "play_y g1 = play_y g"
    and c: "move_cnt g1 = 0"
    using h p by (simp_all add: g1_def turn_back_def poll_tux_def playing_def aligned_def)
  obtain w sc where u: "unveil_around_player blocks (play_x g) (play_y g) (world g) = (w, sc)" by (rule prod.exhaust)
  have k: "keeps_floor (world g) sc" using keeps_unveil_around [of "world g" blocks "play_x g" "play_y g"] u by simp
  have l: "level (fst sc)" "n_fruits (fst sc) \<le> 0" "exit_x (fst sc) = exit_x (fst (world g))" "exit_y (fst sc) = exit_y (fst (world g))"
    using k p n by (simp_all add: keeps_floor_def playing_def)
  have "n_fruits (fst sc) = 0" using l(1,2) by (simp add: level_def stocked_def)
  moreover have "w = check_for_win (play_x g sdiv 12) (play_y g sdiv 12) (fst sc)"
    using u by (auto simp: unveil_around_player_def Let_def dims)
  moreover have "play_x g sdiv 12 = exit_x (fst sc)" "play_y g sdiv 12 = exit_y (fst sc)"
    using e l(3,4) sdiv_nonneg [of "play_x g" 12] sdiv_nonneg [of "play_y g" 12] in_mazeD(1,3) [of "fst (world g)" "play_x g" "play_y g"] p
    by (simp_all add: playing_def)
  ultimately have w using check_for_win_level [OF l(1)] by simp
  then show ?thesis using u c by (simp add: one_tick_def Let_def t)
qed

theorem level_is_won_at_exit_witness:
  "\<exists>g g'. one_tick (\<lambda>b i. of_int i) False 0 g = (True, False, g') \<and> play_x g' = BLOCK_X_DIM * exit_x (fst (world g')) \<and>
     fruited (fst (world g')) = {}"
proof -
  obtain m d w v where p: "playing (new_game\<lparr>number := 1, level_x_dim := 20, level_y_dim := 20, map_x := w, map_y := v,
    world := (m, d), play_x := 12 * exit_x m, play_y := 12 * exit_y m, heading := DIR_STOP, next_dir := DIR_STOP\<rparr>)" (is "playing ?g")
    and n: "n_fruits m = 0" using at_exit by blast
  obtain g' where t: "one_tick (\<lambda>b i. of_int i) False 0 ?g = (True, False, g')"
    using tick_at_exit [OF p, of "\<lambda>b i. of_int i" False 0] n by auto
  show ?thesis using level_is_won_at_exit [OF p t] t by blast
qed

end
