(* ===== verification/Spec2Isabelle.thy ===== *)
theory Spec2Isabelle
  imports CLib_Mem Tux_Driver Rtc_Dev Boot Mazegame_Play
begin

text \<open>
  Verification development of the computer systems engineering repository.

  \<^bold>\<open>The program.\<close>  The repository holds the programs of a systems course.  The two large ones are
  modelled:

  \<^item> \<^verbatim>\<open>mp3/student-distrib\<close>, a small 32-bit operating system kernel: a C library, a text console, three
    terminals with a keyboard, the 8259 interrupt controller, a virtual real-time clock, a read-only
    file system in memory, paging with one 4 MB frame per process, ten system calls with process
    creation, a round-robin scheduler, the exception handlers, and the start-up code;
  \<^item> \<^verbatim>\<open>mp2\<close>, a maze game on a VGA in mode X, with the Linux line discipline and driver of its
    controller: the display with its build buffer and planar video memory, the register
    programming, the status bar, the generation of mazes, and the game with its three threads.

  \<^bold>\<open>How the parts interact.\<close>  The boot loader jumps to \<open>entry\<close>, which builds descriptors and the
  interrupt table, starts the devices, paging and the terminals and executes the first shell.  From
  then on the kernel only runs when it is entered: by a system call of the current process, the timer
  (scheduler), the keyboard (line editor and terminal switch) or the clock.  A system call finds the
  control block of its process from the kernel stack pointer, and goes through the operations table of
  a file descriptor to a terminal, the clock, a file or the directory.  \<open>execute\<close> and \<open>halt\<close> change the
  page directory, the kernel stack of the task state segment, the set of processes and the terminal's
  current process together.  In the maze game the clock thread moves the player, the keyboard and
  controller threads leave the next direction in shared variables; all three run under one lock.  Moving
  pans the view window, whose new lines come from the maze, and every frame is copied to the four
  planes; the status bar is a second window.  The controller's packets pass two byte rings and are
  framed in threes for the driver.

  \<^bold>\<open>The theories.\<close>
  \<^item> \<^verbatim>\<open>Prelude\<close>: machine integers (\<open>u8\<close>, \<open>u16\<close>, \<open>u32\<close> are words), memory as a function from 32-bit
    addresses to bytes, \<open>rd\<close> and \<open>wr\<close> of runs of bytes, zero-terminated strings, the collections
    \<open>mem_simps\<close> and others, and list facts.
  \<^item> \<^verbatim>\<open>CLib\<close>, \<^verbatim>\<open>CLib_Mem\<close> (\<^verbatim>\<open>lib.c\<close>): the string and number routines, and the inline assembly of
    \<open>memset\<close>, \<open>memcpy\<close>, \<open>memmove\<close> with its byte and double-word loops and the direction flag.
  \<^item> \<^verbatim>\<open>Console\<close> (\<^verbatim>\<open>lib.c\<close>): \<open>putc\<close>, \<open>puts\<close> and \<open>printf\<close> with its conversions on the visible terminal.
  \<^item> \<^verbatim>\<open>Terminal\<close>, \<^verbatim>\<open>Terminal_Spec\<close> (\<^verbatim>\<open>terminal.c\<close> and the screen routines of \<^verbatim>\<open>lib.c\<close>): the record \<open>tty\<close>
    with three terminals and the video pages; keyboard translation; the polling read, interleaved
    with bursts of key presses.  The specification is a screen of 2000 cells with a cursor and a line editor.
  \<^item> \<^verbatim>\<open>Pic8259\<close> (\<^verbatim>\<open>i8259.c\<close>), \<^verbatim>\<open>Rtc_Dev\<close> (\<^verbatim>\<open>rtc.c\<close>): mask variables and port writes; rates, counters
    per process and waiting by ticks.
  \<^item> \<^verbatim>\<open>Vfs\<close> (\<^verbatim>\<open>vfs.c\<close>, \<^verbatim>\<open>vfs.h\<close>, \<^verbatim>\<open>pcb.h\<close>): the image layout (boot block, inodes, data blocks), lookup by
    name and index, \<open>read_data\<close>, descriptors and their operations, \<open>load_program\<close>.
  \<^item> \<^verbatim>\<open>Paging\<close> (\<^verbatim>\<open>paging.c\<close>, \<^verbatim>\<open>paging_asm.S\<close>): directories and tables as words, and the processor's walk
    over them.
  \<^item> \<^verbatim>\<open>Kernel\<close> (\<^verbatim>\<open>syscalls.c\<close>, \<^verbatim>\<open>context_switch.S\<close>, the dispatcher of \<^verbatim>\<open>interrupt_handler.S\<close>): the record
    \<open>kernel\<close> with control blocks by address and the user memory of each page directory, and the ten
    system calls.  A call that does not return to its caller yields a \<open>transfer\<close> (to user code, to a
    kernel stack, or back into \<open>execute\<close> of the parent).
  \<^item> \<^verbatim>\<open>Sched\<close>, \<^verbatim>\<open>Kernel_Spec\<close> (\<^verbatim>\<open>scheduler.c\<close>, \<open>switch_terminal\<close>, interrupt entries): the step relation
    \<open>kstep\<close> of kernel entries and of what a program writes itself, the reachable states \<open>machine\<close>,
    and their invariant.
  \<^item> \<^verbatim>\<open>Exceptions\<close> (\<^verbatim>\<open>exception_handler.c\<close>, \<^verbatim>\<open>x86_desc.h\<close>, \<^verbatim>\<open>syscall_handler.h\<close>): the interrupt table bit by
    bit, segment descriptors, the nineteen handlers; the specification is a table of the
    processor's exceptions of its own.
  \<^item> \<^verbatim>\<open>Boot\<close> (\<^verbatim>\<open>kernel.c\<close>, \<^verbatim>\<open>multiboot.h\<close>): \<open>entry\<close> up to its loop.
  \<^item> \<^verbatim>\<open>Tux_Ring\<close>, \<^verbatim>\<open>Tux_Driver\<close> (\<^verbatim>\<open>tuxctl-ld.c\<close>, \<^verbatim>\<open>tuxctl-ioctl.c\<close>): byte rings, the line discipline, the
    packet handler and the three ioctls.
  \<^item> \<^verbatim>\<open>Modex\<close>, \<^verbatim>\<open>Modex_Spec\<close>, \<^verbatim>\<open>Vga\<close>, \<^verbatim>\<open>Status\<close>, \<^verbatim>\<open>Display_Spec\<close> (\<^verbatim>\<open>modex.c\<close>, \<^verbatim>\<open>text.c\<close>): build buffer, view
    window, drawing, planes; register tables and palettes; the status line; the display as a whole.
  \<^item> \<^verbatim>\<open>Maze\<close>, \<^verbatim>\<open>Maze_Walls\<close>, \<^verbatim>\<open>Maze_Level\<close>, \<^verbatim>\<open>Maze_Picture\<close> (\<^verbatim>\<open>maze.c\<close>): bit vectors of cells, marking, worms,
    joining, fruits and exit; levels; the pictures of lines.
  \<^item> \<^verbatim>\<open>Mazegame\<close>, \<^verbatim>\<open>Mazegame_Spec\<close>, \<^verbatim>\<open>Mazegame_Play\<close> (\<^verbatim>\<open>mazegame.c\<close>): levels, panning, the steps of the
    threads, and the relation \<open>gaming\<close> of every interleaving.

  \<^bold>\<open>State and effects.\<close>  Variables of a C file are fields of a record that is passed on; a routine
  returns the record it leaves.  Words wrap as the C integers do; a C \<open>int\<close> is an \<open>int\<close> where the code
  stays far from its bounds, and a signed word where it does not.  Port output is kept as a list of events in
  order.  An error return is the returned number of the code.  \<open>None\<close> is either an execution that
  does not return or one the C code gives no meaning (a store outside the buffers, a division by
  zero); every property that says what a routine does says that its result is \<open>Some\<close>.

  \<^bold>\<open>Pointers of user programs.\<close>  The system calls check few of them.  Loads through such a pointer are
  modelled wherever it leads (bytes outside the program page are arbitrary).  A store outside the
  program page can change control blocks, page tables or code, and has no next state; the runs of
  the machine are those in which \<open>read\<close> and \<open>getargs\<close> are given buffers in the program page, an
  explicit premise (\<open>own_buffers\<close>) of each call, and calls that meet it are shown to have a result.

  \<^bold>\<open>Loops.\<close>  Loops over strings and over linked structures of the boot loader are option-valued
  partial functions, and so are the marking of the maze, the worms and the joining of areas.  No
  fuel is used; the two loops that wait for interrupts run over what arrives: \<open>rtc_wait\<close> over a number
  of clock ticks, \<open>terminal_wait\<close> over the bursts of keys pressed between its loads.  String routines are proved to return on zero-terminated strings, marking always, the
  random phases for some random numbers.  All other loops are structural or have a decreasing measure.

  \<^bold>\<open>Interfaces.\<close>  \<open>byte_fifo\<close> states what a bounded queue of bytes promises and \<open>fifo_loops\<close> proves the
  fill and drain loops from it; both are interpreted on the rings.  \<open>panning\<close> states what moving the view
  window keeps and gives the game's moves; it is interpreted on the display.

  \<^bold>\<open>What is shown.\<close>
  \<^item> Library: numerals read back; comparison and copying against list specifications; the block
    routines write exactly their bytes at any alignment and overlap; \<open>printf\<close> returns and prints what
    its directives say.
  \<^item> Controller: the rings are queues; framing handles the packets of the stream in order however it
    is cut, as long as the ring has room, and all of them when the pieces are short; buttons and LEDs bit by bit; the wakeup routine hands out one byte more than the room.
  \<^item> Devices and files: masks follow the history of calls; rates and waits; \<open>read_data\<close> delivers the range
    inside the file, successive reads the whole of it; lookup finds the first entry; open and close.
  \<^item> Terminals: writing refines printing on the abstract screen; the keyboard refines the line editor; a
    typed line is read, however the polling falls, if no key follows Enter too soon; switching keeps every screen.
  \<^item> Kernel: user accesses stay in the process's frame and in video memory; every reachable state is
    coherent; \<open>halt\<close> returns to the \<open>execute\<close> that started the process; every terminal is served within three
    ticks; each exception vector leads to the handler due, which stops with its message; start-up reaches exactly the states the runs of the
    machine begin with.
  \<^item> Display and game: accesses stay in the build buffer and between its fences; what is drawn is what the
    monitor shows; marking is reachability; mazes are connected; levels stay levels; the window shows the
    maze after every move; the player stays on open floor and in view in every interleaving; a game that goes
    on deals with every interrupt; a level is only won at the exit with no fruit left.

  \<^bold>\<open>Not modelled.\<close>  The user programs of \<^verbatim>\<open>mp3/syscalls\<close> and \<^verbatim>\<open>mp3/fish\<close> run above the system-call interface;
  their instructions are the user code the kernel model leaves free.  Test suites (\<^verbatim>\<open>tests.c\<close>), debugging
  macros, the assertion library and type names carry no behaviour of the system.  \<^verbatim>\<open>input.c\<close> is the
  demo input driver, which the game does not call for its moves.  \<^verbatim>\<open>mp1\<close> is an assembly exercise with its test program.
  The font, the pictures of the blocks, random numbers, the serial port, the values read from device ports
  and the tables of the linker are parameters.  Processor behaviour is modelled where the code depends
  on it (the walk over page tables, string instructions, stack switches), not as an instruction set.
\<close>

end
